(* ===== verification/Prelude.thy ===== *)
theory Prelude
  imports Complex_Main "HOL-Library.Word" "HOL-Library.Monad_Syntax"
begin

text \<open>
  Shared vocabulary of the development: machine integer types, the exceptions of the program as a
  sum type, decimal printing and reading of the C++ standard library (\<open>std::to_string\<close>,
  \<open>std::from_chars\<close>), C strings, IPv4 addresses in memory order, and the generic list, option and
  word lemmas the components rest on. The collections \<open>exn_simps\<close> and \<open>string_simps\<close> gather the
  rewrite rules that several component theories use.
\<close>

unbundle bit_operations_syntax

named_theorems exn_simps
named_theorems string_simps

section \<open>Machine integers\<close>

type_synonym byte = "8 word"
type_synonym u16 = "16 word"
type_synonym u32 = "32 word"
type_synonym u64 = "64 word"

lemma unat_byte_lt [simp]: "unat (a :: byte) < 256"
  using unsigned_less [of a] by simp

lemma unat_u16_lt [simp]: "unat (a :: u16) < 65536"
  using unsigned_less [of a] by simp

lemma unat_ucast_byte [simp]:
  "unat (ucast (a :: byte) :: u32) = unat a"
  "unat (ucast (a :: byte) :: u16) = unat a"
  by (simp_all add: unsigned_ucast_eq take_bit_nat_eq_self order.strict_trans [OF unat_byte_lt])

lemma unat_ucast_u16 [simp]: "unat (ucast (a :: u16) :: u32) = unat a"
  by (simp add: unsigned_ucast_eq take_bit_nat_eq_self order.strict_trans [OF unat_u16_lt])

lemma uint_u32_lt [simp]: "uint (a :: u32) < 4294967296"
  using uint_bounded [of a] by simp

lemma uint_u16_lt [simp]: "uint (a :: u16) < 65536" "uint (a :: u16) < 4294967296"
  using uint_bounded [of a] by simp_all

lemma of_int_uint_u16 [simp]: "(of_int (uint (a :: u16)) :: u32) = ucast a"
  by (rule ucast_eq [symmetric])

lemma ucast_u16_u32_u16 [simp]: "(ucast (ucast (a :: u16) :: u32) :: u16) = a"
  by (rule bit_word_eqI) (simp add: bit_simps)

lemma one_le_word_iff [simp]: "1 \<le> (x :: 'a :: len word) \<longleftrightarrow> x \<noteq> 0"
  by (metis linorder_not_less word_less_1)

section \<open>Exceptions as values\<close>

text \<open>
  The C++ exception types the program distinguishes: \<open>std::invalid_argument\<close> (answered with 422),
  every other \<open>std::exception\<close> (answered with 409), and an object that is not a
  \<open>std::exception\<close> at all (caught only by \<open>catch (...)\<close>). \<open>Json_exception\<close> is what the JSON
  library throws on a misused value, and \<open>Out_of_range\<close> what \<open>std::stoll\<close> throws on a number that
  does not fit; the program never looks at the text of either.
\<close>

datatype exn =
    Invalid_argument string
  | Runtime_error string
  | Logic_error string
  | Out_of_range
  | Json_exception
  | Foreign_exception

type_synonym 'a result = "exn + 'a"

primrec what :: "exn \<Rightarrow> string" where
  "what (Invalid_argument m) = m"
| "what (Runtime_error m) = m"
| "what (Logic_error m) = m"
| "what Out_of_range = ''stoll''"
| "what Json_exception = ''json''"
| "what Foreign_exception = []"

definition is_std_exception :: "exn \<Rightarrow> bool" where
  "is_std_exception e \<longleftrightarrow> e \<noteq> Foreign_exception"

definition ebind :: "'a result \<Rightarrow> ('a \<Rightarrow> 'b result) \<Rightarrow> 'b result" where
  "ebind m f = (case m of Inl e \<Rightarrow> Inl e | Inr x \<Rightarrow> f x)"

definition guard_exn :: "bool \<Rightarrow> exn \<Rightarrow> 'a result \<Rightarrow> 'a result" where
  "guard_exn bad e m = (if bad then Inl e else m)"

lemma ebind_simps [simp, exn_simps]:
  "ebind (Inl e) f = Inl e"
  "ebind (Inr x) f = f x"
  by (simp_all add: ebind_def)

lemma ebind_Inr_iff [exn_simps]: "ebind m f = Inr y \<longleftrightarrow> (\<exists>x. m = Inr x \<and> f x = Inr y)"
  by (cases m) simp_all

lemma guard_exn_Inr_iff [exn_simps]: "guard_exn bad e m = Inr y \<longleftrightarrow> \<not> bad \<and> m = Inr y"
  by (simp add: guard_exn_def)

lemma guard_exn_simps [simp]:
  "guard_exn True e m = Inl e"
  "guard_exn False e m = m"
  by (simp_all add: guard_exn_def)

lemma ebind_std:
  "m \<noteq> Inl Foreign_exception \<Longrightarrow> (\<And>x. f x \<noteq> Inl Foreign_exception) \<Longrightarrow> ebind m f \<noteq> Inl Foreign_exception"
  by (cases m) simp_all

lemma ebind_assoc: "ebind (ebind m f) g = ebind m (\<lambda>x. ebind (f x) g)"
  by (cases m) simp_all

lemma list_upto_2_cases: "length xs \<le> 2 \<Longrightarrow> xs = [] \<or> (\<exists>x. xs = [x]) \<or> (\<exists>x y. xs = [x, y])"
  by (cases xs; cases "tl xs") auto

lemma list_2_cases: "length xs = 2 \<Longrightarrow> \<exists>x y. xs = [x, y]"
  by (cases xs; cases "tl xs") auto

lemma map_option_do: "map_option f (Option.bind m g) = Option.bind m (\<lambda>x. map_option f (g x))"
  by (cases m) simp_all

section \<open>Characters and strings\<close>

abbreviation code_of :: "char \<Rightarrow> nat" where
  "code_of \<equiv> of_char"

definition is_digit :: "char \<Rightarrow> bool" where
  "is_digit c \<longleftrightarrow> 48 \<le> code_of c \<and> code_of c \<le> 57"

definition is_lower :: "char \<Rightarrow> bool" where
  "is_lower c \<longleftrightarrow> 97 \<le> code_of c \<and> code_of c \<le> 122"

definition is_upper :: "char \<Rightarrow> bool" where
  "is_upper c \<longleftrightarrow> 65 \<le> code_of c \<and> code_of c \<le> 90"

lemmas char_class_defs = is_digit_def is_lower_def is_upper_def

text \<open>A C string ends at the first NUL byte.\<close>

definition c_str :: "string \<Rightarrow> string" where
  "c_str s = takeWhile (\<lambda>c. code_of c \<noteq> 0) s"

lemma c_str_id: "\<forall>c \<in> set s. code_of c \<noteq> 0 \<Longrightarrow> c_str s = s"
  by (simp add: c_str_def)

lemma set_c_str: "set (c_str s) \<subseteq> set s"
  by (auto simp: c_str_def dest: set_takeWhileD)

text \<open>The byte-wise lexicographic order of \<open>std::string\<close> and of JSON object keys.\<close>

fun key_less :: "string \<Rightarrow> string \<Rightarrow> bool" where
  "key_less xs [] = False"
| "key_less [] (y # ys) = True"
| "key_less (x # xs) (y # ys) =
     (code_of x < code_of y \<or> (code_of x = code_of y \<and> key_less xs ys))"

lemma key_less_irrefl [simp]: "\<not> key_less s s"
  by (induction s) auto

lemma key_less_trans: "key_less a b \<Longrightarrow> key_less b c \<Longrightarrow> key_less a c"
proof (induction a b arbitrary: c rule: key_less.induct)
  case (3 x xs y ys)
  then show ?case by (cases c) auto
qed (auto elim: key_less.elims)

lemma key_less_linear: "key_less a b \<or> a = b \<or> key_less b a"
proof (induction a b rule: key_less.induct)
  case (1 xs)
  then show ?case by (cases xs) auto
next
  case (3 x xs y ys)
  have "code_of x = code_of y \<Longrightarrow> x = y" by simp
  with 3 show ?case by (auto simp: not_less_iff_gr_or_eq)
qed auto

lemma key_less_asym: "key_less a b \<Longrightarrow> \<not> key_less b a"
  using key_less_trans key_less_irrefl by blast

section \<open>Decimal text\<close>

text \<open>\<open>std::to_string\<close> on unsigned and signed integers.\<close>

fun to_string :: "nat \<Rightarrow> string" where
  "to_string n = (if n < 10 then [char_of (48 + n)]
     else to_string (n div 10) @ [char_of (48 + n mod 10)])"

declare to_string.simps [simp del]

definition to_string_int :: "int \<Rightarrow> string" where
  "to_string_int i = (if i < 0 then CHR ''-'' # to_string (nat (- i)) else to_string (nat i))"

definition digit_val :: "char \<Rightarrow> nat" where
  "digit_val c = (if is_digit c then code_of c - 48
     else if is_lower c then code_of c - 87
     else if is_upper c then code_of c - 55 else 36)"

definition is_digit_in :: "nat \<Rightarrow> char \<Rightarrow> bool" where
  "is_digit_in base c \<longleftrightarrow> digit_val c < base"

definition digits_val :: "nat \<Rightarrow> string \<Rightarrow> nat" where
  "digits_val base s = foldl (\<lambda>n c. n * base + digit_val c) 0 s"

text \<open>
  \<open>std::from_chars\<close> for \<open>unsigned\<close>: no sign, no prefix, no white space; the longest run of digits is
  consumed. The result is \<open>None\<close> for \<open>errc::invalid_argument\<close> and \<open>errc::result_out_of_range\<close>, and
  otherwise the value with the text that was not consumed.
\<close>

definition from_chars :: "nat \<Rightarrow> string \<Rightarrow> (u32 \<times> string) option" where
  "from_chars base s =
     (let ds = takeWhile (is_digit_in base) s; n = digits_val base ds
      in if ds = [] \<or> 2 ^ 32 \<le> n then None else Some (of_nat n, dropWhile (is_digit_in base) s))"

lemma to_string_nonempty [simp]: "to_string n \<noteq> []"
  by (subst to_string.simps) simp

lemma is_digit_char_of: "n < 10 \<Longrightarrow> is_digit (char_of (48 + n :: nat))"
  by (simp add: is_digit_def)

lemma to_string_digits: "\<forall>c \<in> set (to_string n). is_digit c"
proof (induction n rule: to_string.induct)
  case (1 n)
  then show ?case
    by (subst to_string.simps) (auto simp: is_digit_char_of split: if_splits)
qed

lemma digit_val_char_of: "n < 10 \<Longrightarrow> digit_val (char_of (48 + n :: nat)) = n"
  by (simp add: digit_val_def is_digit_def)

lemma digits_val_snoc: "digits_val b (s @ [c]) = digits_val b s * b + digit_val c"
  by (simp add: digits_val_def)

lemma digits_val_to_string: "digits_val 10 (to_string n) = n"
proof (induction n rule: to_string.induct)
  case (1 n)
  show ?case
  proof (cases "n < 10")
    case True
    then show ?thesis
      by (subst to_string.simps) (simp add: digits_val_def digit_val_char_of)
  next
    case False
    with 1 show ?thesis
      by (subst to_string.simps) (simp add: digits_val_snoc digit_val_char_of)
  qed
qed

lemma to_string_inject [simp]: "to_string m = to_string n \<longleftrightarrow> m = n"
  by (metis digits_val_to_string)

lemma is_digit_in_10: "is_digit c \<Longrightarrow> is_digit_in 10 c"
  by (auto simp: is_digit_in_def digit_val_def char_class_defs)

text \<open>Reading back what \<open>std::to_string\<close> printed.\<close>

lemma from_chars_to_string:
  assumes "n < 2 ^ 32"
  shows "from_chars 10 (to_string n) = Some (of_nat n, [])"
proof -
  have "\<forall>c \<in> set (to_string n). is_digit_in 10 c"
    using to_string_digits is_digit_in_10 by blast
  then have tw: "takeWhile (is_digit_in 10) (to_string n) = to_string n"
    and dw: "dropWhile (is_digit_in 10) (to_string n) = []"
    by simp_all
  show ?thesis
    using assms by (simp add: from_chars_def digits_val_to_string Let_def tw dw)
qed

section \<open>IPv4 addresses\<close>

text \<open>
  A \<open>struct in_addr\<close>: the four bytes in memory (network) order. \<open>ntohl\<close> of its \<open>s_addr\<close> reads them
  most significant first.
\<close>

datatype in_addr = In_addr byte byte byte byte

fun ntohl :: "in_addr \<Rightarrow> u32" where
  "ntohl (In_addr a b c d) =
     push_bit 24 (ucast a) OR push_bit 16 (ucast b) OR push_bit 8 (ucast c) OR ucast d"

definition htonl :: "u32 \<Rightarrow> in_addr" where
  "htonl w = In_addr (ucast (drop_bit 24 w)) (ucast (drop_bit 16 w)) (ucast (drop_bit 8 w)) (ucast w)"

type_synonym pton = "string \<Rightarrow> in_addr option"

lemma bit_byte_high: "8 \<le> n \<Longrightarrow> \<not> bit (a :: byte) n"
  using bit_imp_le_length [of a n] by auto

lemma htonl_ntohl [simp]: "htonl (ntohl a) = a"
proof (cases a)
  case (In_addr a1 a2 a3 a4)
  then show ?thesis
    by (auto simp: htonl_def intro!: bit_word_eqI simp: bit_simps bit_byte_high)
qed

lemma ntohl_htonl [simp]: "ntohl (htonl w) = w"
proof (rule bit_word_eqI)
  fix n
  assume "n < LENGTH(32)"
  then have n: "n < 32" by simp
  consider "n < 8" | "8 \<le> n" "n < 16" | "16 \<le> n" "n < 24" | "24 \<le> n"
    by linarith
  then show "bit (ntohl (htonl w)) n = bit w n"
    using n by cases (auto simp: htonl_def bit_simps)
qed

lemma ntohl_first: "drop_bit 24 (ntohl (In_addr a b c d)) = (ucast a :: u32)"
  by (rule bit_word_eqI) (auto simp: bit_simps bit_byte_high dest: bit_imp_le_length)

end
