(* ===== verification/Json_Value.thy ===== *)
theory Json_Value
  imports Prelude
begin

text \<open>
  The JSON values the program exchanges, and the value operations of the JSON library that the
  sources call. An object is an association list in key order, as the library keeps it. Doubles are
  rationals (rounding is not modelled). The text reader and writer of the library are parameters,
  gathered in \<open>json_lib\<close>.
\<close>

datatype json =
    JNull
  | JBool bool
  | JInt int
  | JReal rat
  | JString string
  | JArray "json list"
  | JObject "(string \<times> json) list"

record json_lib =
  read_json :: "string \<Rightarrow> string + json"
  write_json :: "json \<Rightarrow> string"
  real_text :: "rat \<Rightarrow> string"

section \<open>Members\<close>

text \<open>
  Insertion into a key-ordered association list: the members of an object, and the program's
  \<open>std::map\<close>s with string keys.
\<close>

fun upd_member :: "string \<Rightarrow> 'v \<Rightarrow> (string \<times> 'v) list \<Rightarrow> (string \<times> 'v) list" where
  "upd_member k x [] = [(k, x)]"
| "upd_member k x ((a, b) # ps) =
     (if k = a then (k, x) # ps
      else if key_less k a then (k, x) # (a, b) # ps
      else (a, b) # upd_member k x ps)"

fun members :: "json \<Rightarrow> (string \<times> json) list" where
  "members (JObject ps) = ps"
| "members _ = []"

text \<open>\<open>v[k] = x\<close> on a null or object value; null becomes an object.\<close>

definition jset :: "json \<Rightarrow> string \<Rightarrow> json \<Rightarrow> json" where
  "jset v k x = JObject (upd_member k x (members v))"

text \<open>\<open>v[k]\<close> read from a value known to be null or an object: null where the key is missing.\<close>

definition jfield :: "json \<Rightarrow> string \<Rightarrow> json" where
  "jfield v k = (case map_of (members v) k of None \<Rightarrow> JNull | Some x \<Rightarrow> x)"

fun is_object :: "json \<Rightarrow> bool" where
  "is_object (JObject _) = True"
| "is_object _ = False"

text \<open>\<open>v[k]\<close> on any value: the library throws unless the value is null or an object.\<close>

definition jindex :: "json \<Rightarrow> string \<Rightarrow> json result" where
  "jindex v k = (if v = JNull \<or> is_object v then Inr (jfield v k) else Inl Json_exception)"

definition is_member :: "json \<Rightarrow> string \<Rightarrow> bool" where
  "is_member v k \<longleftrightarrow> map_of (members v) k \<noteq> None"

definition member_names :: "json \<Rightarrow> string list" where
  "member_names v = map fst (members v)"

section \<open>Type tests and conversions\<close>

fun is_string :: "json \<Rightarrow> bool" where
  "is_string (JString _) = True"
| "is_string _ = False"

fun is_uint :: "json \<Rightarrow> bool" where
  "is_uint (JInt n) = (0 \<le> n \<and> n < 2 ^ 32)"
| "is_uint (JReal r) = (0 \<le> r \<and> r < 2 ^ 32 \<and> of_int \<lfloor>r\<rfloor> = r)"
| "is_uint _ = False"

text \<open>\<open>asUInt\<close> on a value for which \<open>isUInt\<close> holds.\<close>

fun as_uint :: "json \<Rightarrow> u32" where
  "as_uint (JInt n) = of_int n"
| "as_uint (JReal r) = of_int \<lfloor>r\<rfloor>"
| "as_uint _ = 0"

fun as_string :: "json_lib \<Rightarrow> json \<Rightarrow> string result" where
  "as_string L JNull = Inr []"
| "as_string L (JBool b) = Inr (if b then ''true'' else ''false'')"
| "as_string L (JInt n) = Inr (to_string_int n)"
| "as_string L (JReal r) = Inr (real_text L r)"
| "as_string L (JString s) = Inr s"
| "as_string L (JArray _) = Inl Json_exception"
| "as_string L (JObject _) = Inl Json_exception"

text \<open>\<open>asUInt\<close> on any value: null is 0, a Boolean is 0 or 1, a number must be in range.\<close>

fun to_uint :: "json \<Rightarrow> u32 result" where
  "to_uint JNull = Inr 0"
| "to_uint (JBool b) = Inr (if b then 1 else 0)"
| "to_uint (JInt n) = (if 0 \<le> n \<and> n < 2 ^ 32 then Inr (of_int n) else Inl Json_exception)"
| "to_uint (JReal r) = (if 0 \<le> r \<and> r \<le> 2 ^ 32 - 1 then Inr (of_int \<lfloor>r\<rfloor>) else Inl Json_exception)"
| "to_uint _ = Inl Json_exception"

text \<open>Range-for over a value, \<open>empty()\<close>, \<open>isMember\<close> and \<open>v[0]\<close>.\<close>

fun json_items :: "json \<Rightarrow> json list" where
  "json_items (JArray xs) = xs"
| "json_items (JObject ps) = map snd ps"
| "json_items _ = []"

fun json_empty :: "json \<Rightarrow> bool" where
  "json_empty JNull = True"
| "json_empty (JArray xs) = (xs = [])"
| "json_empty (JObject ps) = (ps = [])"
| "json_empty _ = False"

definition json_is_member :: "json \<Rightarrow> string \<Rightarrow> bool result" where
  "json_is_member v k = (if v = JNull \<or> is_object v then Inr (is_member v k) else Inl Json_exception)"

fun json_first :: "json \<Rightarrow> json result" where
  "json_first JNull = Inr JNull"
| "json_first (JArray []) = Inr JNull"
| "json_first (JArray (x # xs)) = Inr x"
| "json_first _ = Inl Json_exception"

text \<open>\<open>v.get(k, default)\<close> and \<open>asInt64\<close>.\<close>

definition json_get :: "json \<Rightarrow> string \<Rightarrow> json \<Rightarrow> json result" where
  "json_get v k d =
     (if v = JNull \<or> is_object v then Inr (case map_of (members v) k of None \<Rightarrow> d | Some x \<Rightarrow> x)
      else Inl Json_exception)"

fun to_int64 :: "json \<Rightarrow> int result" where
  "to_int64 JNull = Inr 0"
| "to_int64 (JBool b) = Inr (if b then 1 else 0)"
| "to_int64 (JInt n) = (if - (2 ^ 63) \<le> n \<and> n < 2 ^ 63 then Inr n else Inl Json_exception)"
| "to_int64 (JReal r) =
     (if - (2 ^ 63) \<le> r \<and> r < 2 ^ 63 then Inr (if r < 0 then \<lceil>r\<rceil> else \<lfloor>r\<rfloor>) else Inl Json_exception)"
| "to_int64 _ = Inl Json_exception"

text \<open>The string inside a value already tested with \<open>isString\<close>.\<close>

fun string_of :: "json \<Rightarrow> string" where
  "string_of (JString s) = s"
| "string_of _ = []"

section \<open>Lookup and update laws\<close>

lemma map_of_upd_member [simp]: "map_of (upd_member k x ps) = (map_of ps)(k \<mapsto> x)"
  by (induction k x ps rule: upd_member.induct) (auto simp: fun_eq_iff)

lemma jfield_jset [simp]: "jfield (jset v k x) j = (if j = k then x else jfield v j)"
  by (simp add: jfield_def jset_def)

lemma is_member_jset [simp]: "is_member (jset v k x) j \<longleftrightarrow> j = k \<or> is_member v j"
  by (simp add: is_member_def jset_def)

lemma is_object_jset [simp]: "is_object (jset v k x)"
  by (simp add: jset_def)

lemma jset_not_null [simp]: "jset v k x \<noteq> JNull"
  by (simp add: jset_def)

lemma jfield_null [simp]: "jfield JNull k = JNull"
  by (simp add: jfield_def)

lemma is_member_null [simp]: "\<not> is_member JNull k"
  by (simp add: is_member_def)

lemma set_member_names: "set (member_names v) = {k. is_member v k}"
  by (auto simp: member_names_def is_member_def map_of_eq_None_iff)

lemma jfield_not_member: "\<not> is_member v k \<Longrightarrow> jfield v k = JNull"
  by (simp add: is_member_def jfield_def)

lemma jindex_object [simp]: "is_object v \<Longrightarrow> jindex v k = Inr (jfield v k)"
  by (simp add: jindex_def)

lemma is_object_iff: "is_object v \<longleftrightarrow> (\<exists>ps. v = JObject ps)"
  by (cases v) auto

lemma is_string_iff: "is_string v \<longleftrightarrow> (\<exists>s. v = JString s)"
  by (cases v) auto

lemma json_std_exceptions [simp]:
  "jindex v k \<noteq> Inl Foreign_exception"
  "to_uint v \<noteq> Inl Foreign_exception"
  "json_is_member v k \<noteq> Inl Foreign_exception"
  "json_first v \<noteq> Inl Foreign_exception"
  "as_string L v \<noteq> Inl Foreign_exception"
proof -
  show "jindex v k \<noteq> Inl Foreign_exception" "json_is_member v k \<noteq> Inl Foreign_exception"
    by (simp_all add: jindex_def json_is_member_def)
  show "to_uint v \<noteq> Inl Foreign_exception" "as_string L v \<noteq> Inl Foreign_exception"
    by (cases v; simp)+
  show "json_first v \<noteq> Inl Foreign_exception"
    by (cases v rule: json_first.cases) simp_all
qed

text \<open>Key order is kept, so an object's members are determined by its lookups.\<close>

definition keys_ordered :: "(string \<times> 'v) list \<Rightarrow> bool" where
  "keys_ordered ps = sorted_wrt key_less (map fst ps)"

lemma fst_upd_member: "fst ` set (upd_member k x ps) = insert k (fst ` set ps)"
  by (induction k x ps rule: upd_member.induct) auto

lemma keys_ordered_upd_member: "keys_ordered ps \<Longrightarrow> keys_ordered (upd_member k x ps)"
proof (induction k x ps rule: upd_member.induct)
  case (1 k x)
  show ?case by (simp add: keys_ordered_def)
next
  case (2 k x a b ps)
  consider "k = a" | "k \<noteq> a" "key_less k a" | "k \<noteq> a" "key_less a k"
    using key_less_linear by blast
  then show ?case
  proof cases
    case 1
    with 2 show ?thesis by (simp add: keys_ordered_def)
  next
    case 2
    with "2.prems" show ?thesis
      by (auto simp: keys_ordered_def intro: key_less_trans)
  next
    case 3
    then have step: "upd_member k x ((a, b) # ps) = (a, b) # upd_member k x ps"
      using key_less_asym by auto
    have "keys_ordered (upd_member k x ps)"
      using "2.IH" "2.prems" 3 key_less_asym by (auto simp: keys_ordered_def)
    moreover have "\<forall>y \<in> fst ` set (upd_member k x ps). key_less a y"
      using "2.prems" 3 by (auto simp: fst_upd_member keys_ordered_def)
    ultimately show ?thesis
      unfolding step by (simp add: keys_ordered_def)
  qed
qed

end
