(* ===== verification/Config.thy ===== *)
theory Config
  imports Prelude
begin

text \<open>
  The network configuration and its validation, \<open>include/magicbox/config.hpp\<close> and
  \<open>src/config.cpp\<close>. The system's \<open>inet_pton\<close> is the parameter \<open>pton\<close>: it is given the C string and
  answers \<open>None\<close> where the call does not return 1. The interface \<open>inet_library\<close> states what the
  program relies on, and \<open>dotted_quad\<close> is a reader that provides it. The lemmas relate the mask
  arithmetic of the code to CIDR blocks given bit by bit.
\<close>

section \<open>The configuration record\<close>

record NetworkConfig =
  outer_interface :: string
  inner_interface :: string
  device_ipv4 :: string
  inner_gateway_ipv4 :: string
  inner_prefix :: u32
  outer_ipv4 :: string
  outer_prefix :: u32
  outer_gateway_ipv4 :: string
  outer_mac :: string
  vlan_id :: "u16 option"

definition default_config :: NetworkConfig where
  "default_config =
     \<lparr>outer_interface = [], inner_interface = [], device_ipv4 = [], inner_gateway_ipv4 = [],
      inner_prefix = 24, outer_ipv4 = [], outer_prefix = 24, outer_gateway_ipv4 = [],
      outer_mac = [], vlan_id = None\<rparr>"

lemma config_eta [simp]:
  "\<lparr>outer_interface = outer_interface c, inner_interface = inner_interface c,
    device_ipv4 = device_ipv4 c, inner_gateway_ipv4 = inner_gateway_ipv4 c,
    inner_prefix = inner_prefix c, outer_ipv4 = outer_ipv4 c, outer_prefix = outer_prefix c,
    outer_gateway_ipv4 = outer_gateway_ipv4 c, outer_mac = outer_mac c, vlan_id = vlan_id c\<rparr> = c"
  by simp

section \<open>Syntax checks\<close>

definition iface_char :: "char \<Rightarrow> bool" where
  "iface_char c \<longleftrightarrow> is_lower c \<or> is_upper c \<or> is_digit c \<or>
     c = CHR ''_'' \<or> c = CHR ''-'' \<or> c = CHR ''.''"

definition valid_interface :: "string \<Rightarrow> bool" where
  "valid_interface name \<longleftrightarrow>
     \<not> (name = [] \<or> length name > 15 \<or> name = ''.'' \<or> name = ''..'') \<and> list_all iface_char name"

definition unicast_ipv4 :: "pton \<Rightarrow> string \<Rightarrow> bool" where
  "unicast_ipv4 pton value =
     (case pton (c_str value) of
        None \<Rightarrow> False
      | Some address \<Rightarrow>
          if list_ex (\<lambda>c. code_of c = 0) value then False
          else let host = ntohl address; first = drop_bit 24 host
               in first \<noteq> 0 \<and> first \<noteq> 127 \<and> first < 224)"

definition mac_byte :: "string \<Rightarrow> nat \<Rightarrow> u32 option" where
  "mac_byte value i =
     (let start = drop (i * 3) value
      in case from_chars 16 (take 2 start) of
           None \<Rightarrow> None
         | Some (byte, rest) \<Rightarrow>
             if rest \<noteq> [] \<or> (i < 5 \<and> start ! 2 \<noteq> CHR '':'') then None else Some byte)"

definition unicast_mac :: "string \<Rightarrow> bool" where
  "unicast_mac value =
     (if length value \<noteq> 17 then False
      else case those (map (mac_byte value) [0..<6]) of
             None \<Rightarrow> False
           | Some bytes \<Rightarrow> list_ex (\<lambda>b. b \<noteq> 0) bytes \<and> hd bytes AND 1 = 0)"

section \<open>Validation\<close>

definition err_if :: "bool \<Rightarrow> string \<Rightarrow> string list" where
  "err_if bad message = (if bad then [message] else [])"

definition syntax_errors :: "pton \<Rightarrow> NetworkConfig \<Rightarrow> string list" where
  "syntax_errors pton c =
     err_if (\<not> valid_interface (outer_interface c)) ''Invalid outer interface name'' @
     err_if (\<not> valid_interface (inner_interface c)) ''Invalid inner interface name'' @
     err_if (outer_interface c = inner_interface c) ''Interfaces must be distinct'' @
     concat (map (\<lambda>value. err_if (\<not> unicast_ipv4 pton value)
                 (''Expected a unicast IPv4 address: '' @ value))
               [device_ipv4 c, inner_gateway_ipv4 c, outer_ipv4 c, outer_gateway_ipv4 c]) @
     err_if (inner_prefix c < 1 \<or> 30 < inner_prefix c \<or> outer_prefix c < 1 \<or> 30 < outer_prefix c)
       ''This initial routed topology supports prefixes 1 through 30'' @
     err_if (device_ipv4 c = inner_gateway_ipv4 c)
       ''Device and inner gateway addresses must differ'' @
     err_if (outer_ipv4 c = outer_gateway_ipv4 c) ''Outer address and gateway must differ'' @
     err_if (\<not> unicast_mac (outer_mac c)) ''Expected a nonzero unicast MAC address'' @
     err_if (case vlan_id c of None \<Rightarrow> False | Some v \<Rightarrow> v < 1 \<or> 4094 < v)
       ''VLAN ID must be 1 through 4094, or absent''"

text \<open>The lambda \<open>host\<close>: a failed conversion leaves the zero-initialised address.\<close>

definition host_of :: "pton \<Rightarrow> string \<Rightarrow> u32" where
  "host_of pton txt = (case pton (c_str txt) of None \<Rightarrow> 0 | Some address \<Rightarrow> ntohl address)"

definition prefix_mask :: "u32 \<Rightarrow> u32" where
  "prefix_mask prefix = push_bit (32 - unat prefix) 0xffffffff"

definition usable :: "u32 \<Rightarrow> u32 \<Rightarrow> bool" where
  "usable address netmask \<longleftrightarrow>
     address AND NOT netmask \<noteq> 0 \<and> address AND NOT netmask \<noteq> NOT netmask"

definition topology_errors :: "pton \<Rightarrow> NetworkConfig \<Rightarrow> string list" where
  "topology_errors pton c =
     (let inner_mask = prefix_mask (inner_prefix c);
          outer_mask = prefix_mask (outer_prefix c);
          inner = host_of pton (inner_gateway_ipv4 c);
          device = host_of pton (device_ipv4 c);
          outer = host_of pton (outer_ipv4 c);
          gateway = host_of pton (outer_gateway_ipv4 c);
          common_mask = (if inner_prefix c < outer_prefix c then inner_mask else outer_mask)
      in err_if (\<not> usable inner inner_mask \<or> \<not> usable device inner_mask \<or>
                 \<not> usable outer outer_mask \<or> \<not> usable gateway outer_mask)
           ''Network and broadcast addresses are not usable hosts'' @
         err_if (inner AND inner_mask \<noteq> device AND inner_mask)
           ''Device must be on the inner gateway subnet'' @
         err_if (outer AND outer_mask \<noteq> gateway AND outer_mask)
           ''Outer gateway must be on the outer subnet'' @
         err_if (inner AND common_mask = outer AND common_mask)
           ''Inner and outer subnets must not overlap'')"

definition validate :: "pton \<Rightarrow> NetworkConfig \<Rightarrow> string list" where
  "validate pton c =
     (let errors = syntax_errors pton c
      in if errors = [] then topology_errors pton c else errors)"

section \<open>The interface to the address library\<close>

text \<open>
  What the program relies on: only dotted decimal text is accepted.
\<close>

definition dotted_char :: "char \<Rightarrow> bool" where
  "dotted_char c \<longleftrightarrow> is_digit c \<or> c = CHR ''.''"

locale inet_library =
  fixes pton :: "string \<Rightarrow> in_addr option"
  assumes pton_chars: "pton s = Some a \<Longrightarrow> list_all dotted_char s"
    and pton_nonempty: "pton s = Some a \<Longrightarrow> s \<noteq> []"
begin

lemma unicast_ipv4_dotted: "unicast_ipv4 pton s \<Longrightarrow> list_all dotted_char s"
  by (auto simp: unicast_ipv4_def list_ex_iff c_str_id split: option.splits if_splits
      dest: pton_chars)

lemma unicast_ipv4_nonempty: "unicast_ipv4 pton s \<Longrightarrow> s \<noteq> []"
  by (auto simp: unicast_ipv4_def c_str_def split: option.splits dest: pton_nonempty)

end

text \<open>A dotted decimal reader: four decimal numbers up to 255 without leading zeros.\<close>

fun split_dots :: "string \<Rightarrow> string list" where
  "split_dots [] = [[]]"
| "split_dots (c # cs) =
     (if c = CHR ''.'' then [] # split_dots cs
      else case split_dots cs of [] \<Rightarrow> [[c]] | p # ps \<Rightarrow> (c # p) # ps)"

definition octet :: "string \<Rightarrow> byte option" where
  "octet s = (if s = [] \<or> \<not> list_all is_digit s \<or> length s > 3 \<or> digits_val 10 s > 255 \<or>
       (length s > 1 \<and> hd s = CHR ''0'') then None else Some (of_nat (digits_val 10 s)))"

definition dotted_quad :: pton where
  "dotted_quad s =
     (case split_dots s of
        [w, x, y, z] \<Rightarrow>
          do { a \<leftarrow> octet w; b \<leftarrow> octet x; c \<leftarrow> octet y; d \<leftarrow> octet z; Some (In_addr a b c d) }
      | _ \<Rightarrow> None)"

lemma split_dots_nonempty [simp]: "split_dots s \<noteq> []"
  by (induction s) (auto split: list.splits)

lemma split_dots_chars:
  "\<forall>p \<in> set (split_dots s). list_all is_digit p \<Longrightarrow> list_all dotted_char s"
proof (induction s)
  case (Cons c cs)
  then show ?case
    by (cases "split_dots cs") (auto simp: dotted_char_def split: if_splits)
qed simp

lemma octet_digits: "octet s = Some b \<Longrightarrow> list_all is_digit s"
  by (simp add: octet_def split: if_splits)

lemma dotted_quad_chars:
  assumes "dotted_quad s = Some a"
  shows "list_all dotted_char s"
proof -
  from assms obtain w x y z where parts: "split_dots s = [w, x, y, z]"
    and octets: "octet w \<noteq> None" "octet x \<noteq> None" "octet y \<noteq> None" "octet z \<noteq> None"
    by (auto simp: dotted_quad_def split: list.splits Option.bind_splits)
  then have "\<forall>p \<in> set (split_dots s). list_all is_digit p"
    by (auto dest: octet_digits)
  then show ?thesis by (rule split_dots_chars)
qed

interpretation dq: inet_library dotted_quad
proof unfold_locales
  show "dotted_quad s = Some a \<Longrightarrow> list_all dotted_char s" for s a
    by (rule dotted_quad_chars)
  show "dotted_quad s = Some a \<Longrightarrow> s \<noteq> []" for s a
    by (auto simp: dotted_quad_def)
qed

section \<open>CIDR blocks bit by bit\<close>

definition cidr :: "u32 \<Rightarrow> u32 \<Rightarrow> u32 set" where
  "cidr a p = {x. \<forall>i. 32 - unat p \<le> i \<and> i < 32 \<longrightarrow> bit x i = bit a i}"

text \<open>The host addresses of a block: its host part is neither all zeros nor all ones.\<close>

definition cidr_hosts :: "u32 \<Rightarrow> u32 \<Rightarrow> u32 set" where
  "cidr_hosts a p =
     {x \<in> cidr a p. (\<exists>i < 32 - unat p. bit x i) \<and> (\<exists>i < 32 - unat p. \<not> bit x i)}"

lemma bit_prefix_mask: "bit (prefix_mask p) i \<longleftrightarrow> 32 - unat p \<le> i \<and> i < 32"
proof -
  have ones: "(0xffffffff :: u32) = - 1" by simp
  show ?thesis
    unfolding prefix_mask_def ones by (auto simp: bit_simps)
qed

lemma and_mask_eq_iff: "x AND prefix_mask p = a AND prefix_mask p \<longleftrightarrow> x \<in> cidr a p"
  by (auto simp: cidr_def bit_eq_iff bit_and_iff bit_prefix_mask)

lemma host_bit_in_word: "i < 32 - unat p \<Longrightarrow> i < 32"
  by simp

lemma host_part_zero_iff:
  "x AND NOT (prefix_mask p) = 0 \<longleftrightarrow> (\<forall>i < 32 - unat p. \<not> bit x i)"
  by (auto simp: bit_eq_iff bit_and_iff bit_not_iff bit_prefix_mask not_le
      dest: host_bit_in_word [of _ p])

lemma host_part_ones_iff:
  "x AND NOT (prefix_mask p) = NOT (prefix_mask p) \<longleftrightarrow> (\<forall>i < 32 - unat p. bit x i)"
  by (auto simp: bit_eq_iff bit_and_iff bit_not_iff bit_prefix_mask not_le
      dest: host_bit_in_word [of _ p])

lemma usable_iff:
  "usable x (prefix_mask p) \<longleftrightarrow> (\<exists>i < 32 - unat p. bit x i) \<and> (\<exists>i < 32 - unat p. \<not> bit x i)"
  by (auto simp: usable_def host_part_zero_iff host_part_ones_iff)

lemma cidr_refl [simp]: "a \<in> cidr a p"
  by (simp add: cidr_def)

lemma cidr_meet_iff:
  assumes "p \<le> q"
  shows "cidr a p \<inter> cidr b q \<noteq> {} \<longleftrightarrow> b \<in> cidr a p"
proof
  have "unat p \<le> unat q"
    using assms by (simp add: word_le_nat_alt)
  then have sub: "32 - unat q \<le> 32 - unat p" by simp
  assume "cidr a p \<inter> cidr b q \<noteq> {}"
  then obtain x where "x \<in> cidr a p" and "x \<in> cidr b q" by blast
  then show "b \<in> cidr a p"
    using sub by (auto simp: cidr_def)
next
  assume "b \<in> cidr a p"
  then show "cidr a p \<inter> cidr b q \<noteq> {}"
    using cidr_refl by blast
qed

lemma overlap_iff:
  "(inner AND (if p < q then prefix_mask p else prefix_mask q)
    = outer AND (if p < q then prefix_mask p else prefix_mask q))
   \<longleftrightarrow> cidr inner p \<inter> cidr outer q \<noteq> {}"
proof (cases "p < q")
  case True
  then have "cidr inner p \<inter> cidr outer q \<noteq> {} \<longleftrightarrow> outer \<in> cidr inner p"
    by (intro cidr_meet_iff) simp
  moreover have "inner AND prefix_mask p = outer AND prefix_mask p \<longleftrightarrow> outer \<in> cidr inner p"
    using and_mask_eq_iff [of outer p inner] by auto
  ultimately show ?thesis
    using True by simp
next
  case False
  then have "cidr outer q \<inter> cidr inner p \<noteq> {} \<longleftrightarrow> inner \<in> cidr outer q"
    by (intro cidr_meet_iff) simp
  moreover have "cidr outer q \<inter> cidr inner p = cidr inner p \<inter> cidr outer q"
    by blast
  ultimately show ?thesis
    using False and_mask_eq_iff [of inner q outer] by simp
qed

section \<open>What validation accepts\<close>

definition unicast_addr :: "pton \<Rightarrow> string \<Rightarrow> u32 \<Rightarrow> bool" where
  "unicast_addr pton s h \<longleftrightarrow>
     (\<forall>c \<in> set s. code_of c \<noteq> 0) \<and>
     (\<exists>a b c d. pton s = Some (In_addr a b c d) \<and> h = ntohl (In_addr a b c d) \<and>
        a \<noteq> 0 \<and> a \<noteq> 127 \<and> a < 224)"

definition routed_topology :: "pton \<Rightarrow> NetworkConfig \<Rightarrow> bool" where
  "routed_topology pton c \<longleftrightarrow>
     valid_interface (outer_interface c) \<and> valid_interface (inner_interface c) \<and>
     outer_interface c \<noteq> inner_interface c \<and>
     inner_prefix c \<in> {1..30} \<and> outer_prefix c \<in> {1..30} \<and>
     device_ipv4 c \<noteq> inner_gateway_ipv4 c \<and> outer_ipv4 c \<noteq> outer_gateway_ipv4 c \<and>
     unicast_mac (outer_mac c) \<and> (\<forall>v. vlan_id c = Some v \<longrightarrow> v \<in> {1..4094}) \<and>
     (\<exists>device inner outer gateway.
        unicast_addr pton (device_ipv4 c) device \<and> unicast_addr pton (inner_gateway_ipv4 c) inner \<and>
        unicast_addr pton (outer_ipv4 c) outer \<and> unicast_addr pton (outer_gateway_ipv4 c) gateway \<and>
        inner \<in> cidr_hosts inner (inner_prefix c) \<and> device \<in> cidr_hosts inner (inner_prefix c) \<and>
        outer \<in> cidr_hosts outer (outer_prefix c) \<and> gateway \<in> cidr_hosts outer (outer_prefix c) \<and>
        cidr inner (inner_prefix c) \<inter> cidr outer (outer_prefix c) = {})"

lemma err_if_Nil [simp]: "err_if b m = [] \<longleftrightarrow> \<not> b"
  by (simp add: err_if_def)

lemma ucast_byte_word [simp]:
  "(ucast (a :: byte) :: u32) = 0 \<longleftrightarrow> a = 0"
  "(ucast (a :: byte) :: u32) = 127 \<longleftrightarrow> a = 127"
  "(ucast (a :: byte) :: u32) < 224 \<longleftrightarrow> a < 224"
  by (simp_all add: word_unat_eq_iff word_less_nat_alt)

lemma unicast_ipv4_iff: "unicast_ipv4 pton s \<longleftrightarrow> unicast_addr pton s (host_of pton s)"
proof (cases "\<forall>c \<in> set s. code_of c \<noteq> 0")
  case True
  show ?thesis
  proof (cases "pton s")
    case None
    then show ?thesis
      using True by (simp add: unicast_ipv4_def unicast_addr_def c_str_id)
  next
    case (Some addr)
    obtain a b c d where "addr = In_addr a b c d" by (cases addr)
    then show ?thesis
      using True Some
      by (auto simp: unicast_ipv4_def unicast_addr_def host_of_def c_str_id list_ex_iff ntohl_first
          simp del: ntohl.simps)
  qed
next
  case False
  then show ?thesis
    by (auto simp: unicast_ipv4_def unicast_addr_def list_ex_iff split: option.split)
qed

lemma unicast_addr_host: "unicast_addr pton s h \<Longrightarrow> h = host_of pton s"
  by (auto simp: unicast_addr_def host_of_def c_str_id)

lemma syntax_errors_Nil_iff:
  "syntax_errors pton c = [] \<longleftrightarrow>
     valid_interface (outer_interface c) \<and> valid_interface (inner_interface c) \<and>
     outer_interface c \<noteq> inner_interface c \<and>
     unicast_ipv4 pton (device_ipv4 c) \<and> unicast_ipv4 pton (inner_gateway_ipv4 c) \<and>
     unicast_ipv4 pton (outer_ipv4 c) \<and> unicast_ipv4 pton (outer_gateway_ipv4 c) \<and>
     inner_prefix c \<in> {1..30} \<and> outer_prefix c \<in> {1..30} \<and>
     device_ipv4 c \<noteq> inner_gateway_ipv4 c \<and> outer_ipv4 c \<noteq> outer_gateway_ipv4 c \<and>
     unicast_mac (outer_mac c) \<and> (\<forall>v. vlan_id c = Some v \<longrightarrow> v \<in> {1..4094})"
  by (auto simp: syntax_errors_def not_less split: option.splits)

lemma topology_errors_Nil_iff:
  "topology_errors pton c = [] \<longleftrightarrow>
     (let p = inner_prefix c; q = outer_prefix c;
          inner = host_of pton (inner_gateway_ipv4 c); outer = host_of pton (outer_ipv4 c)
      in inner \<in> cidr_hosts inner p \<and> host_of pton (device_ipv4 c) \<in> cidr_hosts inner p \<and>
         outer \<in> cidr_hosts outer q \<and> host_of pton (outer_gateway_ipv4 c) \<in> cidr_hosts outer q \<and>
         cidr inner p \<inter> cidr outer q = {})"
  by (auto simp: topology_errors_def Let_def overlap_iff usable_iff and_mask_eq_iff cidr_hosts_def
      eq_commute [of "host_of pton (inner_gateway_ipv4 c) AND _" "host_of pton (device_ipv4 c) AND _"]
      eq_commute [of "host_of pton (outer_ipv4 c) AND _" "host_of pton (outer_gateway_ipv4 c) AND _"])

lemma validate_Nil_iff: "validate pton c = [] \<longleftrightarrow> routed_topology pton c"
proof -
  have "validate pton c = [] \<longleftrightarrow> syntax_errors pton c = [] \<and> topology_errors pton c = []"
    by (simp add: validate_def Let_def)
  also have "\<dots> \<longleftrightarrow> routed_topology pton c"
    unfolding syntax_errors_Nil_iff topology_errors_Nil_iff routed_topology_def Let_def
      unicast_ipv4_iff
    by (auto dest: unicast_addr_host)
  finally show ?thesis .
qed

text \<open>
  C6. The validator accepts a configuration exactly when it is a routed topology: well-formed distinct
  interface names, unicast addresses that are usable hosts of their blocks, gateways on their own
  blocks, disjoint inner and outer blocks, a unicast MAC and a legal VLAN tag.
\<close>

theorem validate_accepts_iff: "validate pton c = [] \<longleftrightarrow> routed_topology pton c"
  by (rule validate_Nil_iff)

section \<open>A sample configuration\<close>

text \<open>The example of \<open>docs/api.md\<close>.\<close>

definition sample_config :: NetworkConfig where
  "sample_config =
     \<lparr>outer_interface = ''outer0'', inner_interface = ''inner0'', device_ipv4 = ''10.0.0.5'',
      inner_gateway_ipv4 = ''10.0.0.1'', inner_prefix = 24, outer_ipv4 = ''192.168.50.99'',
      outer_prefix = 24, outer_gateway_ipv4 = ''192.168.50.1'',
      outer_mac = ''02:11:22:33:44:55'', vlan_id = Some 100\<rparr>"

lemma sample_addresses [simp]:
  "dotted_quad ''10.0.0.5'' = Some (In_addr 10 0 0 5)"
  "dotted_quad ''10.0.0.1'' = Some (In_addr 10 0 0 1)"
  "dotted_quad ''192.168.50.99'' = Some (In_addr 192 168 50 99)"
  "dotted_quad ''192.168.50.1'' = Some (In_addr 192 168 50 1)"
  by (simp_all add: dotted_quad_def octet_def digits_val_def digit_val_def char_class_defs)

lemma upt_0_6: "[0..<6] = [0, 1, 2, 3, 4, 5]"
  by (simp add: upt_rec)

lemma sample_mac: "unicast_mac ''02:11:22:33:44:55''"
  by (simp add: upt_0_6 unicast_mac_def mac_byte_def from_chars_def is_digit_in_def digits_val_def
      digit_val_def char_class_defs Let_def)

lemma sample_interfaces: "valid_interface ''outer0''" "valid_interface ''inner0''"
  by (simp_all add: valid_interface_def iface_char_def char_class_defs)

lemma sample_syntax: "syntax_errors dotted_quad sample_config = []"
  by (simp add: syntax_errors_Nil_iff sample_config_def sample_interfaces sample_mac unicast_ipv4_def c_str_def)

lemma sample_topology: "topology_errors dotted_quad sample_config = []"
  by (simp add: topology_errors_def sample_config_def prefix_mask_def usable_def host_of_def c_str_def)

lemma sample_config_valid: "validate dotted_quad sample_config = []"
  by (simp add: validate_def sample_syntax sample_topology)

end
