(* ===== verification/Packet.thy ===== *)
theory Packet
  imports Prelude
begin

text \<open>
  Packet metadata, the value the capture thread hands to the application
  (\<open>include/magicbox/engine.hpp\<close>). The time stamp is the count of nanoseconds since the epoch that a
  \<open>system_clock::time_point\<close> holds.
\<close>

datatype Protocol = Other | Tcp | Udp | Icmp

datatype Application = Unknown | Http | Dns | Tls

record PacketMetadata =
  timestamp :: int
  wire_bytes :: u32
  source_ip :: string
  destination_ip :: string
  source_port :: "u16 option"
  destination_port :: "u16 option"
  protocol :: Protocol
  application :: Application

definition empty_packet :: PacketMetadata where
  "empty_packet =
     \<lparr>timestamp = 0, wire_bytes = 0, source_ip = [], destination_ip = [], source_port = None,
      destination_port = None, protocol = Other, application = Unknown\<rparr>"

end
