(* ===== verification/Json_Config.thy ===== *)
theory Json_Config
  imports Json_Value Config Packet "HOL-Library.Signed_Division"
begin

text \<open>
  Conversion between configurations, packet metadata and JSON, \<open>src/json.cpp\<close>. The lemmas show that
  a valid configuration survives the round trip through JSON, that an accepted object has exactly
  the documented fields, and that every rejection is a validation error.
\<close>

section \<open>Text\<close>

definition parse_json :: "json_lib \<Rightarrow> string \<Rightarrow> json result" where
  "parse_json L input =
     (case read_json L input of
        Inl errors \<Rightarrow> Inl (Invalid_argument (''Invalid JSON: '' @ errors))
      | Inr v \<Rightarrow> Inr v)"

definition json_text :: "json_lib \<Rightarrow> json \<Rightarrow> string" where
  "json_text L v = write_json L v"

section \<open>Configuration\<close>

definition config_json :: "NetworkConfig \<Rightarrow> json" where
  "config_json c =
     (let v = JNull;
          v = jset v ''outer_interface'' (JString (outer_interface c));
          v = jset v ''inner_interface'' (JString (inner_interface c));
          v = jset v ''device_ipv4'' (JString (device_ipv4 c));
          v = jset v ''inner_gateway_ipv4'' (JString (inner_gateway_ipv4 c));
          v = jset v ''inner_prefix'' (JInt (uint (inner_prefix c)));
          v = jset v ''outer_ipv4'' (JString (outer_ipv4 c));
          v = jset v ''outer_prefix'' (JInt (uint (outer_prefix c)));
          v = jset v ''outer_gateway_ipv4'' (JString (outer_gateway_ipv4 c));
          v = jset v ''outer_mac'' (JString (outer_mac c))
      in jset v ''vlan_id'' (case vlan_id c of None \<Rightarrow> JNull | Some i \<Rightarrow> JInt (uint i)))"

definition string_field :: "json \<Rightarrow> string \<Rightarrow> string result" where
  "string_field v name =
     (if \<not> is_string (jfield v name) then Inl (Invalid_argument (''Expected string: '' @ name))
      else Inr (string_of (jfield v name)))"

definition vlan_field :: "json \<Rightarrow> u16 option result" where
  "vlan_field v =
     (if \<not> is_member v ''vlan_id''
      then Inl (Invalid_argument ''vlan_id is required (null for untagged)'')
      else if jfield v ''vlan_id'' = JNull then Inr None
      else if \<not> is_uint (jfield v ''vlan_id'') \<or> 4094 < as_uint (jfield v ''vlan_id'')
      then Inl (Invalid_argument ''Invalid VLAN ID'')
      else Inr (Some (ucast (as_uint (jfield v ''vlan_id'')))))"

definition first_unknown :: "json \<Rightarrow> string option" where
  "first_unknown v =
     List.find (\<lambda>name. \<not> is_member (config_json default_config) name) (member_names v)"

definition config_from_json :: "pton \<Rightarrow> json \<Rightarrow> NetworkConfig result" where
  "config_from_json pton v =
     guard_exn (\<not> is_object v) (Invalid_argument ''Configuration must be an object'')
     (case first_unknown v of
        Some name \<Rightarrow> Inl (Invalid_argument (''Unknown field: '' @ name))
      | None \<Rightarrow>
     ebind (string_field v ''outer_interface'') (\<lambda>outer_if.
     ebind (string_field v ''inner_interface'') (\<lambda>inner_if.
     ebind (string_field v ''device_ipv4'') (\<lambda>device.
     ebind (string_field v ''inner_gateway_ipv4'') (\<lambda>inner_gw.
     ebind (string_field v ''outer_ipv4'') (\<lambda>outer.
     ebind (string_field v ''outer_gateway_ipv4'') (\<lambda>outer_gw.
     ebind (string_field v ''outer_mac'') (\<lambda>mac.
     guard_exn (\<not> is_uint (jfield v ''inner_prefix'') \<or> \<not> is_uint (jfield v ''outer_prefix''))
       (Invalid_argument ''Prefixes must be unsigned integers'')
     (ebind (vlan_field v) (\<lambda>vlan.
     (let c = \<lparr>outer_interface = outer_if, inner_interface = inner_if, device_ipv4 = device,
               inner_gateway_ipv4 = inner_gw, inner_prefix = as_uint (jfield v ''inner_prefix''),
               outer_ipv4 = outer, outer_prefix = as_uint (jfield v ''outer_prefix''),
               outer_gateway_ipv4 = outer_gw, outer_mac = mac, vlan_id = vlan\<rparr>;
          errors = validate pton c
      in if errors \<noteq> []
         then Inl (Invalid_argument (concat (map (\<lambda>error. error @ ''; '') errors)))
         else Inr c)))))))))))"

section \<open>Packets\<close>

fun protocol_name :: "Protocol \<Rightarrow> string" where
  "protocol_name Other = ''other''"
| "protocol_name Tcp = ''tcp''"
| "protocol_name Udp = ''udp''"
| "protocol_name Icmp = ''icmp''"

fun application_name :: "Application \<Rightarrow> string" where
  "application_name Unknown = ''unknown''"
| "application_name Http = ''http''"
| "application_name Dns = ''dns''"
| "application_name Tls = ''tls''"

definition port_json :: "u16 option \<Rightarrow> json" where
  "port_json port = (case port of None \<Rightarrow> JNull | Some n \<Rightarrow> JInt (uint n))"

text \<open>\<open>duration_cast\<close> to milliseconds truncates towards zero.\<close>

definition millis :: "int \<Rightarrow> int" where
  "millis ns = ns sdiv 1000000"

definition packet_json :: "PacketMetadata \<Rightarrow> json" where
  "packet_json p =
     (let v = JNull;
          v = jset v ''timestamp_ms'' (JInt (millis (timestamp p)));
          v = jset v ''source_ip'' (JString (source_ip p));
          v = jset v ''destination_ip'' (JString (destination_ip p));
          v = jset v ''source_port'' (port_json (source_port p));
          v = jset v ''destination_port'' (port_json (destination_port p));
          v = jset v ''wire_bytes'' (JInt (uint (wire_bytes p)));
          v = jset v ''protocol'' (JString (protocol_name (protocol p)))
      in jset v ''application'' (JString (application_name (application p))))"

section \<open>Lemmas\<close>

definition config_fields :: "string list" where
  "config_fields =
     [''device_ipv4'', ''inner_gateway_ipv4'', ''inner_interface'', ''inner_prefix'',
      ''outer_gateway_ipv4'', ''outer_interface'', ''outer_ipv4'', ''outer_mac'',
      ''outer_prefix'', ''vlan_id'']"

lemma member_config_json: "is_member (config_json c) k \<longleftrightarrow> k \<in> set config_fields"
  by (auto simp: config_json_def config_fields_def)

lemma is_object_config_json [simp]: "is_object (config_json c)"
  by (simp add: config_json_def)

lemma first_unknown_None_iff:
  "first_unknown v = None \<longleftrightarrow> set (member_names v) \<subseteq> set config_fields"
  by (auto simp: first_unknown_def find_None_iff member_config_json)

lemma first_unknown_config_json [simp]: "first_unknown (config_json c) = None"
  unfolding first_unknown_None_iff set_member_names member_config_json by simp

lemma jfield_config_json [simp]:
  "jfield (config_json c) ''outer_interface'' = JString (outer_interface c)"
  "jfield (config_json c) ''inner_interface'' = JString (inner_interface c)"
  "jfield (config_json c) ''device_ipv4'' = JString (device_ipv4 c)"
  "jfield (config_json c) ''inner_gateway_ipv4'' = JString (inner_gateway_ipv4 c)"
  "jfield (config_json c) ''inner_prefix'' = JInt (uint (inner_prefix c))"
  "jfield (config_json c) ''outer_ipv4'' = JString (outer_ipv4 c)"
  "jfield (config_json c) ''outer_prefix'' = JInt (uint (outer_prefix c))"
  "jfield (config_json c) ''outer_gateway_ipv4'' = JString (outer_gateway_ipv4 c)"
  "jfield (config_json c) ''outer_mac'' = JString (outer_mac c)"
  "jfield (config_json c) ''vlan_id'' =
     (case vlan_id c of None \<Rightarrow> JNull | Some i \<Rightarrow> JInt (uint i))"
  by (simp_all add: config_json_def)

lemma is_uint_word [simp]: "is_uint (JInt (uint (w :: u32)))" "is_uint (JInt (uint (h :: u16)))"
  by simp_all

lemma string_field_config_json:
  "is_string (jfield v k) \<Longrightarrow> string_field v k = Inr (string_of (jfield v k))"
  by (simp add: string_field_def)

lemma vlan_field_config_json:
  assumes "\<forall>i. vlan_id c = Some i \<longrightarrow> i \<le> 4094"
  shows "vlan_field (config_json c) = Inr (vlan_id c)"
proof (cases "vlan_id c")
  case None
  then show ?thesis
    by (simp add: vlan_field_def member_config_json config_fields_def)
next
  case (Some i)
  with assms have i: "i \<le> 4094" by simp
  then have "\<not> (4094 :: u32) < ucast i"
    by (simp add: word_less_nat_alt word_le_nat_alt)
  with Some show ?thesis
    by (simp add: vlan_field_def member_config_json config_fields_def)
qed

lemma config_from_config_json:
  assumes "validate pton c = []"
  shows "config_from_json pton (config_json c) = Inr c"
proof -
  have "\<forall>i. vlan_id c = Some i \<longrightarrow> i \<le> 4094"
    using assms unfolding validate_Nil_iff routed_topology_def by simp
  note vlan = vlan_field_config_json [OF this]
  show ?thesis
    using assms
    by (simp add: config_from_json_def string_field_config_json vlan Let_def)
qed

text \<open>
  C24. Round trip: a configuration the validator accepts is read back unchanged from its own JSON
  form.
\<close>

theorem config_json_roundtrip:
  "validate pton c = [] \<Longrightarrow> config_from_json pton (config_json c) = Inr c"
  by (rule config_from_config_json)

lemma string_field_Inr [exn_simps]:
  "string_field v k = Inr s \<longleftrightarrow> jfield v k = JString s"
  by (cases "jfield v k") (simp_all add: string_field_def)

lemma vlan_field_Inr_iff:
  "vlan_field v = Inr w \<longleftrightarrow> is_member v ''vlan_id'' \<and>
     (jfield v ''vlan_id'' = JNull \<and> w = None \<or>
      is_uint (jfield v ''vlan_id'') \<and> as_uint (jfield v ''vlan_id'') \<le> 4094 \<and>
      w = Some (ucast (as_uint (jfield v ''vlan_id''))))"
  by (cases "jfield v ''vlan_id''") (auto simp: vlan_field_def not_less)

lemma member_of_string: "jfield v k = JString s \<Longrightarrow> is_member v k"
  by (metis jfield_not_member json.distinct(7))

lemma member_of_uint: "is_uint (jfield v k) \<Longrightarrow> is_member v k"
  by (metis is_uint.simps(3) jfield_not_member)

lemma config_from_json_Inr:
  assumes "config_from_json pton v = Inr c"
  shows "is_object v" "first_unknown v = None"
    and "jfield v ''outer_interface'' = JString (outer_interface c)"
    and "jfield v ''inner_interface'' = JString (inner_interface c)"
    and "jfield v ''device_ipv4'' = JString (device_ipv4 c)"
    and "jfield v ''inner_gateway_ipv4'' = JString (inner_gateway_ipv4 c)"
    and "jfield v ''outer_ipv4'' = JString (outer_ipv4 c)"
    and "jfield v ''outer_gateway_ipv4'' = JString (outer_gateway_ipv4 c)"
    and "jfield v ''outer_mac'' = JString (outer_mac c)"
    and "is_uint (jfield v ''inner_prefix'')" "inner_prefix c = as_uint (jfield v ''inner_prefix'')"
    and "is_uint (jfield v ''outer_prefix'')" "outer_prefix c = as_uint (jfield v ''outer_prefix'')"
    and "vlan_field v = Inr (vlan_id c)"
    and "validate pton c = []"
  using assms
  by (auto simp: config_from_json_def exn_simps Let_def split: option.splits if_splits)

text \<open>A JSON number with the value of an integer, written as one or as a floating-point number.\<close>

definition is_number :: "json \<Rightarrow> int \<Rightarrow> bool" where
  "is_number v n \<longleftrightarrow> v = JInt n \<or> v = JReal (of_int n)"

lemma is_number_uint:
  assumes "is_uint v"
  shows "is_number v (uint (as_uint v))"
proof -
  have small: "uint (of_int n :: u32) = n" if "0 \<le> n" "n < 2 ^ 32" for n
    using that by (simp add: uint_word_of_int_eq take_bit_int_eq_self)
  show ?thesis
  proof (cases v)
    case (JInt n)
    then show ?thesis using assms small by (simp add: is_number_def)
  next
    case (JReal r)
    then have r: "0 \<le> r" "r < 2 ^ 32" "of_int \<lfloor>r\<rfloor> = r" using assms by simp_all
    then have "0 \<le> \<lfloor>r\<rfloor>" "\<lfloor>r\<rfloor> < 2 ^ 32" by (simp_all add: floor_less_iff)
    then have "uint (as_uint v) = \<lfloor>r\<rfloor>" using small JReal by simp
    then show ?thesis using r(3) JReal by (simp only: is_number_def) simp
  qed (use assms in simp_all)
qed

lemma uint_vlan: "(n :: u32) \<le> 4094 \<Longrightarrow> uint (ucast n :: u16) = uint n"
proof -
  assume "n \<le> 4094"
  then have "uint n \<le> uint (4094 :: u32)" by (simp only: word_le_def)
  then have "uint n < 2 ^ 16" by simp
  moreover have "uint (ucast n :: u16) = take_bit 16 (uint n)" by (simp add: unsigned_ucast_eq)
  ultimately show ?thesis by (simp only: take_bit_int_eq_self uint_ge_0)
qed

text \<open>
  C25. Strictness: an accepted JSON configuration is an object with exactly the ten documented fields. The
  seven texts are strings and carried over unchanged, the two prefixes are numbers with the values of the
  configuration, \<open>vlan_id\<close> is null exactly for an untagged configuration and else a number with the value of
  the configuration's tag; and the configuration describes a routed topology.
\<close>

theorem config_from_json_strict:
  assumes "config_from_json pton v = Inr c"
  shows "{k. is_member v k} = set config_fields \<and>
     jfield v ''outer_interface'' = JString (outer_interface c) \<and>
     jfield v ''inner_interface'' = JString (inner_interface c) \<and>
     jfield v ''device_ipv4'' = JString (device_ipv4 c) \<and>
     jfield v ''inner_gateway_ipv4'' = JString (inner_gateway_ipv4 c) \<and>
     jfield v ''outer_ipv4'' = JString (outer_ipv4 c) \<and>
     jfield v ''outer_gateway_ipv4'' = JString (outer_gateway_ipv4 c) \<and>
     jfield v ''outer_mac'' = JString (outer_mac c) \<and>
     is_number (jfield v ''inner_prefix'') (uint (inner_prefix c)) \<and>
     is_number (jfield v ''outer_prefix'') (uint (outer_prefix c)) \<and>
     (case vlan_id c of None \<Rightarrow> jfield v ''vlan_id'' = JNull
      | Some tag \<Rightarrow> is_number (jfield v ''vlan_id'') (uint tag) \<and> tag \<in> {1..4094}) \<and>
     routed_topology pton c"
proof -
  note parts = config_from_json_Inr [OF assms]
  have "set (member_names v) \<subseteq> set config_fields"
    using parts(2) by (simp add: first_unknown_None_iff)
  moreover have "is_member v k" if "k \<in> set config_fields" for k
    using that parts by (auto simp: config_fields_def vlan_field_Inr_iff
        intro: member_of_string member_of_uint)
  ultimately have "{k. is_member v k} = set config_fields"
    by (auto simp: set_member_names)
  moreover have topology: "routed_topology pton c"
    using parts(15) by (simp add: validate_Nil_iff)
  moreover have "case vlan_id c of None \<Rightarrow> jfield v ''vlan_id'' = JNull
      | Some tag \<Rightarrow> is_number (jfield v ''vlan_id'') (uint tag) \<and> tag \<in> {1..4094}"
    using parts(14) topology is_number_uint [of "jfield v ''vlan_id''"]
    by (auto simp: vlan_field_Inr_iff uint_vlan routed_topology_def)
  ultimately show ?thesis
    using parts is_number_uint by simp
qed

lemma config_from_json_Inl: "config_from_json pton v = Inl e \<Longrightarrow> \<exists>m. e = Invalid_argument m"
  by (auto simp: config_from_json_def string_field_def vlan_field_def Let_def guard_exn_def ebind_def
      split: option.splits if_splits)

lemma config_json_std_exceptions [simp]:
  "config_from_json pton v \<noteq> Inl Foreign_exception"
  "parse_json L text \<noteq> Inl Foreign_exception"
  using config_from_json_Inl by (fastforce simp: parse_json_def split: sum.splits)+

text \<open>
  Every rejection of a JSON configuration is an \<open>invalid_argument\<close>, the exception the server
  answers with 422; no other exception leaves the conversion.
\<close>

theorem config_from_json_error_kind:
  "config_from_json pton v = Inl e \<Longrightarrow> \<exists>m. e = Invalid_argument m"
  by (rule config_from_json_Inl)

section \<open>Witnesses\<close>

theorem config_json_roundtrip_witness:
  "validate dotted_quad sample_config = [] \<and>
   config_from_json dotted_quad (config_json sample_config) = Inr sample_config"
  using sample_config_valid config_json_roundtrip [OF sample_config_valid] by simp

lemma sample_config_json:
  "config_from_json dotted_quad (config_json sample_config) = Inr sample_config"
  using sample_config_valid by (rule config_from_config_json)

theorem config_from_json_strict_witness:
  "config_from_json dotted_quad (config_json sample_config) = Inr sample_config \<and>
   {k. is_member (config_json sample_config) k} = set config_fields \<and>
   is_number (jfield (config_json sample_config) ''vlan_id'') 100 \<and>
   routed_topology dotted_quad sample_config"
proof -
  have "vlan_id sample_config = Some 100" by (simp add: sample_config_def)
  with config_from_json_strict [OF sample_config_json] show ?thesis
    using sample_config_json by simp
qed

lemma null_config_rejected:
  "config_from_json dotted_quad JNull = Inl (Invalid_argument ''Configuration must be an object'')"
  by (simp add: config_from_json_def)

theorem config_from_json_error_kind_witness:
  "\<exists>e m. config_from_json dotted_quad JNull = Inl e \<and> e = Invalid_argument m"
  using null_config_rejected config_from_json_error_kind [OF null_config_rejected] by blast

end
