(* ===== verification/Dissect.thy ===== *)
theory Dissect
  imports Packet
begin

text \<open>
  Packet dissection, \<open>dissect\<close> of \<open>src/capture.cpp\<close>. A captured frame is a list of bytes. Every read
  of the frame is checked: reading past its end, or taking a view of negative length, makes the model
  answer \<open>None\<close>, so that freedom from out-of-bounds reads is a theorem about the definitions. The
  stages return \<open>Inl p\<close> where the source returns early. Address printing (\<open>inet_ntop\<close>) is a pair of
  parameters. The variables \<open>end\<close> and \<open>complete\<close> of the source are \<open>stop\<close> and \<open>whole\<close>. Sizes are naturals: every sum the code forms is the frame size or below 70000.
\<close>

type_synonym ntop = "byte list \<Rightarrow> string"

section \<open>Checked reads\<close>

definition rd :: "byte list \<Rightarrow> nat \<Rightarrow> byte option" where
  "rd b i = (if i < length b then Some (b ! i) else None)"

definition be16 :: "byte \<Rightarrow> byte \<Rightarrow> u16" where
  "be16 h l = push_bit 8 (ucast h) OR ucast l"

definition u16_at :: "byte list \<Rightarrow> nat \<Rightarrow> u16 option" where
  "u16_at b i = do { h \<leftarrow> rd b i; l \<leftarrow> rd b (i + 1); Some (be16 h l) }"

definition view :: "byte list \<Rightarrow> nat \<Rightarrow> nat \<Rightarrow> byte list option" where
  "view b i n = (if i + n \<le> length b then Some (take n (drop i b)) else None)"

section \<open>Link layer\<close>

definition is_vlan_type :: "u16 \<Rightarrow> bool" where
  "is_vlan_type t \<longleftrightarrow> t = 0x8100 \<or> t = 0x88a8"

text \<open>The tag loop; the first argument counts the rounds left (\<open>depth < 2\<close>).\<close>

fun skip_vlan :: "nat \<Rightarrow> byte list \<Rightarrow> u16 \<Rightarrow> nat \<Rightarrow> (unit + u16 \<times> nat) option" where
  "skip_vlan 0 b t offset = Some (Inr (t, offset))"
| "skip_vlan (Suc rounds) b t offset =
     (if is_vlan_type t
      then if length b < offset + 4 then Some (Inl ())
           else do { t' \<leftarrow> u16_at b (offset + 2); skip_vlan rounds b t' (offset + 4) }
      else Some (Inr (t, offset)))"

section \<open>Network layer\<close>

text \<open>What the network layer hands on: metadata, protocol number, offset, end and completeness.\<close>

type_synonym net_result = "PacketMetadata + PacketMetadata \<times> byte \<times> nat \<times> nat \<times> bool"

definition dissect_ipv4 :: "ntop \<Rightarrow> byte list \<Rightarrow> PacketMetadata \<Rightarrow> nat \<Rightarrow> net_result option" where
  "dissect_ipv4 ntop4 b p offset =
     (if length b < offset + 20 then Some (Inl p)
      else do {
        v \<leftarrow> rd b offset;
        if drop_bit 4 v \<noteq> 4 then Some (Inl p)
        else do {
          tot \<leftarrow> u16_at b (offset + 2);
          let header = unat (v AND 15) * 4;
          let total = unat tot;
          if header < 20 \<or> total < header \<or> length b < offset + header then Some (Inl p)
          else do {
            let stop = min (length b) (offset + total);
            let whole = (length b \<ge> offset + total);
            src \<leftarrow> view b (offset + 12) 4;
            dst \<leftarrow> view b (offset + 16) 4;
            let p = p\<lparr>source_ip := ntop4 src, destination_ip := ntop4 dst\<rparr>;
            proto \<leftarrow> rd b (offset + 9);
            frag \<leftarrow> u16_at b (offset + 6);
            if frag AND 0x3fff \<noteq> 0 then Some (Inl p)
            else Some (Inr (p, proto, offset + header, stop, whole)) } } })"

definition dissect_ipv6 :: "ntop \<Rightarrow> byte list \<Rightarrow> PacketMetadata \<Rightarrow> nat \<Rightarrow> net_result option" where
  "dissect_ipv6 ntop6 b p offset =
     (if length b < offset + 40 then Some (Inl p)
      else do {
        v \<leftarrow> rd b offset;
        if drop_bit 4 v \<noteq> 6 then Some (Inl p)
        else do {
          len \<leftarrow> u16_at b (offset + 4);
          let stop = min (length b) (offset + 40 + unat len);
          let whole = (length b \<ge> offset + 40 + unat len);
          src \<leftarrow> view b (offset + 8) 16;
          dst \<leftarrow> view b (offset + 24) 16;
          let p = p\<lparr>source_ip := ntop6 src, destination_ip := ntop6 dst\<rparr>;
          proto \<leftarrow> rd b (offset + 6);
          Some (Inr (p, proto, offset + 40, stop, whole)) } })"

section \<open>Transport layer\<close>

type_synonym transport_result = "PacketMetadata + PacketMetadata \<times> nat \<times> nat \<times> bool"

text \<open>The result carries metadata with ports, the payload offset, its end and completeness.\<close>

definition with_ports :: "byte list \<Rightarrow> PacketMetadata \<Rightarrow> nat \<Rightarrow> PacketMetadata option" where
  "with_ports b p offset =
     do { s \<leftarrow> u16_at b offset; d \<leftarrow> u16_at b (offset + 2);
          Some (p\<lparr>source_port := Some s, destination_port := Some d\<rparr>) }"

definition dissect_transport ::
    "byte list \<Rightarrow> PacketMetadata \<Rightarrow> byte \<Rightarrow> nat \<Rightarrow> nat \<Rightarrow> bool \<Rightarrow> transport_result option" where
  "dissect_transport b p proto offset stop whole =
     (if proto = 6 then
        (let p = p\<lparr>protocol := Tcp\<rparr>
         in if stop < offset + 20 then Some (Inl p)
            else do {
              d \<leftarrow> rd b (offset + 12);
              let header = unat (drop_bit 4 d) * 4;
              if header < 20 \<or> stop < offset + header then Some (Inl p)
              else do { p \<leftarrow> with_ports b p offset; Some (Inr (p, offset + header, stop, whole)) } })
      else if proto = 17 then
        (let p = p\<lparr>protocol := Udp\<rparr>
         in if stop < offset + 8 then Some (Inl p)
            else do {
              len \<leftarrow> u16_at b (offset + 4);
              if len < 8 then Some (Inl p)
              else do {
                p \<leftarrow> with_ports b p offset;
                Some (Inr (p, offset + 8, min stop (offset + unat len),
                           whole \<and> offset + unat len \<le> stop)) } })
      else Some (Inl (if proto = 1 \<or> proto = 58 then p\<lparr>protocol := Icmp\<rparr> else p)))"

section \<open>Application hints\<close>

definition bytes_of :: "string \<Rightarrow> byte list" where
  "bytes_of s = map (\<lambda>c. of_nat (code_of c)) s"

definition starts_with :: "byte list \<Rightarrow> byte list \<Rightarrow> bool" where
  "starts_with content pre \<longleftrightarrow> take (length pre) content = pre"

definition http_prefixes :: "string list" where
  "http_prefixes = [''GET '', ''POST '', ''HEAD '', ''PUT '', ''DELETE '', ''OPTIONS '', ''HTTP/1.'']"

definition looks_tls :: "byte list \<Rightarrow> nat \<Rightarrow> byte list \<Rightarrow> bool option" where
  "looks_tls b payload content =
     (if length content < 6 then Some False
      else do {
        b0 \<leftarrow> rd b payload; b1 \<leftarrow> rd b (payload + 1);
        b2 \<leftarrow> rd b (payload + 2); b5 \<leftarrow> rd b (payload + 5);
        Some (b0 = 22 \<and> b1 = 3 \<and> b2 \<le> 4 \<and> (b5 = 1 \<or> b5 = 2)) })"

definition looks_dns :: "byte list \<Rightarrow> PacketMetadata \<Rightarrow> nat \<Rightarrow> byte list \<Rightarrow> bool option" where
  "looks_dns b p payload content =
     (if (source_port p = Some 53 \<or> destination_port p = Some 53) \<and> length content \<ge> 12
      then do {
        flags \<leftarrow> rd b (payload + 2);
        if flags AND 0x78 \<noteq> 0 then Some False
        else do { count \<leftarrow> u16_at b (payload + 4); Some (count > 0) } }
      else Some False)"

definition dissect_application ::
    "byte list \<Rightarrow> PacketMetadata \<Rightarrow> nat \<Rightarrow> nat \<Rightarrow> bool \<Rightarrow> PacketMetadata option" where
  "dissect_application b p payload stop whole =
     (if \<not> whole then Some p
      else if stop < payload then None
      else do {
        content \<leftarrow> view b payload (stop - payload);
        if protocol p = Tcp then do {
          let p = (if list_ex (\<lambda>pre. starts_with content (bytes_of pre)) http_prefixes
                   then p\<lparr>application := Http\<rparr> else p);
          tls \<leftarrow> looks_tls b payload content;
          Some (if tls then p\<lparr>application := Tls\<rparr> else p) }
        else do {
          dns \<leftarrow> looks_dns b p payload content;
          Some (if dns then p\<lparr>application := Dns\<rparr> else p) } })"

section \<open>The dissector\<close>

definition dissect_network :: "ntop \<Rightarrow> ntop \<Rightarrow> byte list \<Rightarrow> PacketMetadata \<Rightarrow> u16 \<Rightarrow> nat \<Rightarrow> net_result option"
  where
  "dissect_network ntop4 ntop6 b p t offset =
     (if t = 0x0800 then dissect_ipv4 ntop4 b p offset
      else if t = 0x86dd then dissect_ipv6 ntop6 b p offset
      else Some (Inl p))"

definition dissect_upper :: "byte list \<Rightarrow> net_result \<Rightarrow> PacketMetadata option" where
  "dissect_upper b r =
     (case r of
        Inl p \<Rightarrow> Some p
      | Inr (p, proto, offset, stop, whole) \<Rightarrow> do {
          t \<leftarrow> dissect_transport b p proto offset stop whole;
          case t of
            Inl p \<Rightarrow> Some p
          | Inr (p, payload, stop, whole) \<Rightarrow> dissect_application b p payload stop whole })"

definition dissect ::
    "ntop \<Rightarrow> ntop \<Rightarrow> byte list \<Rightarrow> u32 \<Rightarrow> int \<Rightarrow> PacketMetadata option" where
  "dissect ntop4 ntop6 b wire time =
     (let p = empty_packet\<lparr>timestamp := time, wire_bytes := wire\<rparr>
      in if length b < 14 then Some p
         else do {
           t \<leftarrow> u16_at b 12;
           l \<leftarrow> skip_vlan 2 b t 14;
           case l of
             Inl _ \<Rightarrow> Some p
           | Inr (t, offset) \<Rightarrow> do {
               n \<leftarrow> dissect_network ntop4 ntop6 b p t offset;
               dissect_upper b n } })"

section \<open>No read leaves the frame\<close>

lemma rd_Some [simp]: "i < length b \<Longrightarrow> rd b i = Some (b ! i)"
  by (simp add: rd_def)

lemma u16_at_Some [simp]: "i + 1 < length b \<Longrightarrow> u16_at b i = Some (be16 (b ! i) (b ! (i + 1)))"
  by (simp add: u16_at_def)

lemma view_Some [simp]: "i + n \<le> length b \<Longrightarrow> view b i n = Some (take n (drop i b))"
  by (simp add: view_def)

lemma with_ports_Some:
  "offset + 4 \<le> length b \<Longrightarrow>
   with_ports b p offset = Some (p\<lparr>source_port := Some (be16 (b ! offset) (b ! (offset + 1))),
     destination_port := Some (be16 (b ! (offset + 2)) (b ! (offset + 3)))\<rparr>)"
  by (simp add: with_ports_def numeral_3_eq_3)

lemma skip_vlan_safe: "\<exists>r. skip_vlan n b t offset = Some r"
  by (induction n b t offset rule: skip_vlan.induct) auto

lemma dissect_ipv4_safe: "\<exists>r. dissect_ipv4 ntop4 b p offset = Some r"
  by (auto simp: dissect_ipv4_def Let_def not_less)

lemma dissect_ipv6_safe: "\<exists>r. dissect_ipv6 ntop6 b p offset = Some r"
  by (auto simp: dissect_ipv6_def Let_def not_less)


text \<open>Metadata on which no transport information has been recorded.\<close>

definition fresh :: "PacketMetadata \<Rightarrow> bool" where
  "fresh p \<longleftrightarrow> source_port p = None \<and> destination_port p = None \<and> protocol p = Other \<and>
     application p = Unknown"

text \<open>What every later stage keeps of the link layer's time stamp and length.\<close>

definition same_frame :: "PacketMetadata \<Rightarrow> PacketMetadata \<Rightarrow> bool" where
  "same_frame p q \<longleftrightarrow> timestamp q = timestamp p \<and> wire_bytes q = wire_bytes p"

definition net_ok :: "byte list \<Rightarrow> PacketMetadata \<Rightarrow> net_result \<Rightarrow> bool" where
  "net_ok b p r = (case r of
     Inl q \<Rightarrow> fresh q \<and> same_frame p q
   | Inr (q, proto, offset, stop, whole) \<Rightarrow> fresh q \<and> same_frame p q \<and> stop \<le> length b)"

lemma dissect_ipv4_ok:
  "dissect_ipv4 ntop4 b p offset = Some r \<Longrightarrow> fresh p \<Longrightarrow> net_ok b p r"
  by (auto simp: dissect_ipv4_def Let_def net_ok_def fresh_def same_frame_def
      split: if_splits Option.bind_splits)

lemma dissect_ipv6_ok:
  "dissect_ipv6 ntop6 b p offset = Some r \<Longrightarrow> fresh p \<Longrightarrow> net_ok b p r"
  by (auto simp: dissect_ipv6_def Let_def net_ok_def fresh_def same_frame_def
      split: if_splits Option.bind_splits)

lemma dissect_network_ok:
  "dissect_network ntop4 ntop6 b p t offset = Some r \<Longrightarrow> fresh p \<Longrightarrow> net_ok b p r"
  by (auto simp: dissect_network_def net_ok_def same_frame_def split: if_splits
      dest: dissect_ipv4_ok dissect_ipv6_ok)

lemma dissect_network_safe: "\<exists>r. dissect_network ntop4 ntop6 b p t offset = Some r"
  by (simp add: dissect_network_def dissect_ipv4_safe dissect_ipv6_safe)

text \<open>The transport stage: early results carry no ports, later ones point inside the frame.\<close>

definition transport_ok :: "byte list \<Rightarrow> PacketMetadata \<Rightarrow> transport_result \<Rightarrow> bool" where
  "transport_ok b p r = (case r of
     Inl q \<Rightarrow> source_port q = None \<and> destination_port q = None \<and> application q = Unknown \<and>
       same_frame p q
   | Inr (q, payload, stop, whole) \<Rightarrow>
       source_port q \<noteq> None \<and> destination_port q \<noteq> None \<and> application q = Unknown \<and>
       (protocol q = Tcp \<or> protocol q = Udp) \<and> same_frame p q \<and> payload \<le> stop \<and> stop \<le> length b)"

lemma dissect_transport_safe:
  "stop \<le> length b \<Longrightarrow> \<exists>r. dissect_transport b p proto offset stop whole = Some r"
  by (auto simp: dissect_transport_def Let_def with_ports_Some not_less)

lemma unat_word_ge_8: "\<not> (len :: u16) < 8 \<Longrightarrow> 8 \<le> unat len"
  by (simp add: word_less_nat_alt)

lemma dissect_transport_ok:
  assumes "dissect_transport b p proto offset stop whole = Some r"
    and "fresh p" "stop \<le> length b"
  shows "transport_ok b p r"
  using assms
  by (auto simp: dissect_transport_def Let_def with_ports_Some transport_ok_def fresh_def
      same_frame_def not_less word_le_nat_alt split: if_splits Option.bind_splits)

definition hint_ok :: "PacketMetadata \<Rightarrow> bool" where
  "hint_ok p = (case application p of
     Unknown \<Rightarrow> True
   | Http \<Rightarrow> protocol p = Tcp
   | Tls \<Rightarrow> protocol p = Tcp
   | Dns \<Rightarrow> protocol p = Udp \<and> (source_port p = Some 53 \<or> destination_port p = Some 53))"

lemma looks_tls_safe:
  "payload + length content \<le> length b \<Longrightarrow> \<exists>r. looks_tls b payload content = Some r"
  by (auto simp: looks_tls_def)

lemma looks_dns_safe:
  "payload + length content \<le> length b \<Longrightarrow> \<exists>r. looks_dns b p payload content = Some r"
  by (auto simp: looks_dns_def)

lemma dissect_application_safe:
  assumes "payload \<le> stop" "stop \<le> length b"
  shows "\<exists>q. dissect_application b p payload stop whole = Some q"
proof -
  let ?c = "take (stop - payload) (drop payload b)"
  have "payload + length ?c \<le> length b" using assms by simp
  from looks_tls_safe [OF this] looks_dns_safe [OF this, of p] assms show ?thesis
    by (auto simp: dissect_application_def Let_def split: if_splits)
qed

lemma dissect_application_result:
  assumes "dissect_application b p payload stop whole = Some q"
  shows "\<exists>a. q = p\<lparr>application := a\<rparr>" and "\<not> whole \<Longrightarrow> q = p"
    and "application p = Unknown \<Longrightarrow> protocol p = Tcp \<or> protocol p = Udp \<Longrightarrow> hint_ok q"
proof -
  show "\<exists>a. q = p\<lparr>application := a\<rparr>"
    using assms by (auto simp: dissect_application_def Let_def split: if_splits Option.bind_splits)
      (metis PacketMetadata.surjective PacketMetadata.update_convs(8))+
  show "\<not> whole \<Longrightarrow> q = p"
    using assms by (simp add: dissect_application_def)
  show "application p = Unknown \<Longrightarrow> protocol p = Tcp \<or> protocol p = Udp \<Longrightarrow> hint_ok q"
    using assms by (auto simp: dissect_application_def hint_ok_def looks_dns_def Let_def
        split: if_splits Option.bind_splits)
qed


lemma dissect_upper_safe:
  assumes "net_ok b p r"
  shows "\<exists>q. dissect_upper b r = Some q"
proof (cases r)
  case (Inl q)
  then show ?thesis by (simp add: dissect_upper_def)
next
  case (Inr x)
  obtain q proto offset stop whole where x: "x = (q, proto, offset, stop, whole)"
    by (cases x) auto
  have net: "fresh q" "stop \<le> length b"
    using assms by (simp_all add: Inr x net_ok_def)
  obtain t where t: "dissect_transport b q proto offset stop whole = Some t"
    using dissect_transport_safe [OF net(2)] by blast
  show ?thesis
    using dissect_transport_ok [OF t net] dissect_application_safe
    by (auto simp: dissect_upper_def Inr x t transport_ok_def split: sum.splits)
qed

text \<open>The facts that the finished metadata keeps whatever stage produced it.\<close>

definition meta_ok :: "PacketMetadata \<Rightarrow> PacketMetadata \<Rightarrow> bool" where
  "meta_ok p q \<longleftrightarrow> same_frame p q \<and> hint_ok q \<and>
     (source_port q = None \<longleftrightarrow> destination_port q = None) \<and>
     (source_port q \<noteq> None \<longrightarrow> protocol q = Tcp \<or> protocol q = Udp) \<and>
     (application q \<noteq> Unknown \<longrightarrow> source_port q \<noteq> None)"

lemma dissect_upper_ok:
  assumes "net_ok b p r" "dissect_upper b r = Some q"
  shows "meta_ok p q"
proof (cases r)
  case (Inl q')
  with assms show ?thesis
    by (simp add: dissect_upper_def net_ok_def meta_ok_def hint_ok_def fresh_def)
next
  case (Inr x)
  obtain q' proto offset stop whole where x: "x = (q', proto, offset, stop, whole)"
    by (cases x) auto
  have net: "fresh q'" "stop \<le> length b" "same_frame p q'"
    using assms(1) by (simp_all add: Inr x net_ok_def)
  obtain t where t: "dissect_transport b q' proto offset stop whole = Some t"
    using dissect_transport_safe [OF net(2)] by blast
  note ok = dissect_transport_ok [OF t net(1,2)]
  show ?thesis
  proof (cases t)
    case (Inl q'')
    with assms(2) ok net(3) show ?thesis
      by (simp add: dissect_upper_def Inr x t transport_ok_def meta_ok_def hint_ok_def same_frame_def)
  next
    case y: (Inr y)
    obtain q'' payload stop' whole' where y': "y = (q'', payload, stop', whole')"
      by (cases y) auto
    have app: "dissect_application b q'' payload stop' whole' = Some q"
      using assms(2) by (simp add: dissect_upper_def Inr x t y y')
    obtain a where "q = q''\<lparr>application := a\<rparr>"
      using dissect_application_result(1) [OF app] by blast
    moreover have "hint_ok q"
      using dissect_application_result(3) [OF app] ok by (simp add: transport_ok_def y y')
    ultimately show ?thesis
      using ok net(3) by (auto simp: transport_ok_def y y' meta_ok_def same_frame_def)
  qed
qed

abbreviation frame_start :: "u32 \<Rightarrow> int \<Rightarrow> PacketMetadata" where
  "frame_start wire time \<equiv> empty_packet\<lparr>timestamp := time, wire_bytes := wire\<rparr>"

lemma fresh_start [simp]: "fresh (frame_start wire time)"
  by (simp add: fresh_def empty_packet_def)

lemma meta_ok_start: "meta_ok (frame_start wire time) (frame_start wire time)"
  by (simp add: meta_ok_def same_frame_def hint_ok_def empty_packet_def)

lemma dissect_cases:
  assumes "14 \<le> length b"
  obtains (short) "dissect ntop4 ntop6 b wire time = Some (frame_start wire time)"
  | (net) t offset r where "skip_vlan 2 b (be16 (b ! 12) (b ! 13)) 14 = Some (Inr (t, offset))"
      "dissect_network ntop4 ntop6 b (frame_start wire time) t offset = Some r"
      "dissect ntop4 ntop6 b wire time = dissect_upper b r"
proof -
  obtain l where l: "skip_vlan 2 b (be16 (b ! 12) (b ! 13)) 14 = Some l"
    using skip_vlan_safe by blast
  show thesis
  proof (cases l)
    case (Inl u)
    with l assms show thesis
      by (intro short) (simp add: dissect_def Let_def)
  next
    case (Inr x)
    obtain t offset where x: "x = (t, offset)" by (cases x) auto
    obtain r where "dissect_network ntop4 ntop6 b (frame_start wire time) t offset = Some r"
      using dissect_network_safe by blast
    with l assms show thesis
      by (intro net [of t offset r]) (simp_all add: Inr x dissect_def Let_def)
  qed
qed

lemma dissect_some: "\<exists>p. dissect ntop4 ntop6 b wire time = Some p"
proof (cases "length b < 14")
  case True
  then show ?thesis by (simp add: dissect_def)
next
  case False
  then have "14 \<le> length b" by simp
  then show ?thesis
  proof (cases rule: dissect_cases [of b ntop4 ntop6 wire time])
    case (net t offset r)
    then show ?thesis
      using dissect_upper_safe [OF dissect_network_ok [OF net(2)]] by simp
  qed simp
qed

text \<open>
  C8. Memory safety: on every frame, however short or malformed, the dissector returns metadata; no
  read is outside the captured bytes and no view has negative length.
\<close>

theorem dissect_never_out_of_bounds: "\<exists>p. dissect ntop4 ntop6 b wire time = Some p"
  by (rule dissect_some)

lemma dissect_meta_ok:
  assumes "dissect ntop4 ntop6 b wire time = Some p"
  shows "meta_ok (frame_start wire time) p"
proof (cases "length b < 14")
  case True
  then show ?thesis
    using assms meta_ok_start [of wire time] by (simp add: dissect_def)
next
  case False
  then have "14 \<le> length b" by simp
  then show ?thesis
  proof (cases rule: dissect_cases [of b ntop4 ntop6 wire time])
    case short
    then show ?thesis using assms meta_ok_start by simp
  next
    case (net t offset r)
    then show ?thesis
      using assms dissect_upper_ok [OF dissect_network_ok [OF net(2)]] by simp
  qed
qed

lemma dissect_keeps:
  "dissect ntop4 ntop6 b wire time = Some p \<Longrightarrow> timestamp p = time \<and> wire_bytes p = wire"
  by (drule dissect_meta_ok) (simp add: meta_ok_def same_frame_def)

text \<open>
  Consistent classification: the metadata keeps the capture time and wire length; ports come in
  pairs and only with TCP or UDP; an HTTP or TLS hint is given only to TCP, a DNS hint only to UDP
  with port 53, and no hint without ports.
\<close>

theorem dissect_classification:
  assumes "dissect ntop4 ntop6 b wire time = Some p"
  shows "timestamp p = time \<and> wire_bytes p = wire \<and> hint_ok p \<and>
     (source_port p = None \<longleftrightarrow> destination_port p = None) \<and>
     (source_port p \<noteq> None \<longrightarrow> protocol p = Tcp \<or> protocol p = Udp) \<and>
     (application p \<noteq> Unknown \<longrightarrow> source_port p \<noteq> None)"
  using dissect_meta_ok [OF assms] by (auto simp: meta_ok_def same_frame_def)


section \<open>Fragments and truncated datagrams\<close>

text \<open>A captured frame whose link layer ends at \<open>offset\<close> with the given type.\<close>

definition carries :: "byte list \<Rightarrow> u16 \<Rightarrow> nat \<Rightarrow> bool" where
  "carries b t offset \<longleftrightarrow> 14 \<le> length b \<and>
     skip_vlan 2 b (be16 (b ! 12) (b ! 13)) 14 = Some (Inr (t, offset))"

lemma dissect_carries:
  "carries b t offset \<Longrightarrow> dissect ntop4 ntop6 b wire time =
     do { n \<leftarrow> dissect_network ntop4 ntop6 b (frame_start wire time) t offset; dissect_upper b n }"
  by (simp add: carries_def dissect_def Let_def)

lemma dissect_ipv4_fragment:
  assumes "dissect_ipv4 ntop4 b p offset = Some r" "u16_at b (offset + 6) = Some f" "f AND 0x3fff \<noteq> 0"
  shows "\<exists>q. r = Inl q"
  using assms by (auto simp: dissect_ipv4_def Let_def split: if_splits Option.bind_splits)

text \<open>
  No guessing on fragments: an IPv4 packet with a fragment offset or more-fragments flag keeps
  addresses only; it gets no ports, no transport protocol and no application hint.
\<close>

theorem ipv4_fragment_not_dissected:
  assumes "carries b 0x0800 offset"
    and "u16_at b (offset + 6) = Some f" "f AND 0x3fff \<noteq> 0"
    and "dissect ntop4 ntop6 b wire time = Some p"
  shows "source_port p = None \<and> destination_port p = None \<and> protocol p = Other \<and>
    application p = Unknown"
proof -
  obtain r where r: "dissect_network ntop4 ntop6 b (frame_start wire time) 0x0800 offset = Some r"
    using dissect_network_safe by blast
  then obtain q where "r = Inl q"
    using dissect_ipv4_fragment [of ntop4 b _ offset r f] assms(2,3)
    by (auto simp: dissect_network_def)
  moreover have "net_ok b (frame_start wire time) r"
    using dissect_network_ok [OF r] by simp
  ultimately show ?thesis
    using assms(4) r
    by (simp add: dissect_carries [OF assms(1)] dissect_upper_def net_ok_def fresh_def)
qed

lemma dissect_upper_incomplete:
  assumes "net_ok b p r" "dissect_upper b r = Some q"
    and "\<And>q' proto offset stop whole. r = Inr (q', proto, offset, stop, whole) \<Longrightarrow> \<not> whole"
  shows "application q = Unknown"
proof (cases r)
  case (Inl q')
  with assms show ?thesis by (simp add: dissect_upper_def net_ok_def fresh_def)
next
  case (Inr x)
  obtain q' proto offset stop whole where x: "x = (q', proto, offset, stop, whole)"
    by (cases x) auto
  have net: "fresh q'" "stop \<le> length b" and not_whole: "\<not> whole"
    using assms(1,3) by (simp_all add: Inr x net_ok_def)
  obtain t where t: "dissect_transport b q' proto offset stop whole = Some t"
    using dissect_transport_safe [OF net(2)] by blast
  have "\<not> w" if "t = Inr (q'', payload, stop', w)" for q'' payload stop' w
    using t that not_whole
    by (auto simp: dissect_transport_def Let_def split: if_splits Option.bind_splits)
  then show ?thesis
    using assms(2) dissect_transport_ok [OF t net] dissect_application_result(2)
    by (fastforce simp: dissect_upper_def Inr x t transport_ok_def split: sum.splits)
qed

text \<open>
  No hints from truncated datagrams: when the capture is shorter than the length the IP header
  announces, the dissector gives no application hint, for IPv4 and for IPv6.
\<close>

theorem truncated_datagram_no_hint:
  assumes "carries b 0x0800 offset \<and> u16_at b (offset + 2) = Some n \<and> length b < offset + unat n \<or>
      carries b 0x86dd offset \<and> u16_at b (offset + 4) = Some n \<and> length b < offset + 40 + unat n"
    and "dissect ntop4 ntop6 b wire time = Some p"
  shows "application p = Unknown"
proof -
  obtain t where t: "carries b t offset" "t = 0x0800 \<or> t = 0x86dd"
    using assms(1) by blast
  obtain r where r: "dissect_network ntop4 ntop6 b (frame_start wire time) t offset = Some r"
    using dissect_network_safe by blast
  have "\<not> whole" if "r = Inr (q', proto, off, stop, whole)" for q' proto off stop whole
    using r that assms(1) t(1)
    by (auto simp: dissect_network_def dissect_ipv4_def dissect_ipv6_def Let_def carries_def
        split: if_splits Option.bind_splits)
  moreover have "dissect_upper b r = Some p"
    using assms(2) r by (simp add: dissect_carries [OF t(1)])
  ultimately show ?thesis
    using dissect_upper_incomplete [OF dissect_network_ok [OF r]] by auto
qed


section \<open>Well-formed frames\<close>

text \<open>
  An Ethernet frame with up to two VLAN tags around an IPv4 datagram with a UDP header, as a sender
  builds it: the reference against which dissection is measured.
\<close>

definition enc16 :: "u16 \<Rightarrow> byte list" where
  "enc16 w = [ucast (drop_bit 8 w), ucast w]"

fun enc_tags :: "(u16 \<times> u16) list \<Rightarrow> byte list" where
  "enc_tags [] = []"
| "enc_tags ((t, tci) # tags) = enc16 t @ enc16 tci @ enc_tags tags"

definition udp_datagram :: "byte list \<Rightarrow> byte list \<Rightarrow> u16 \<Rightarrow> u16 \<Rightarrow> byte list \<Rightarrow> byte list" where
  "udp_datagram src dst sport dport payload =
     [0x45, 0] @ enc16 (of_nat (28 + length payload)) @ [0, 0, 0, 0, 64, 17, 0, 0] @ src @ dst @
     enc16 sport @ enc16 dport @ enc16 (of_nat (8 + length payload)) @ [0, 0] @ payload"

definition ethernet :: "byte list \<Rightarrow> (u16 \<times> u16) list \<Rightarrow> u16 \<Rightarrow> byte list \<Rightarrow> byte list" where
  "ethernet macs tags t body = macs @ enc_tags tags @ enc16 t @ body"

lemma be16_enc16: "be16 (ucast (drop_bit 8 w)) (ucast w) = w"
proof (rule bit_word_eqI)
  fix n
  assume "n < LENGTH(16)"
  then have "n < 16" by simp
  then show "bit (be16 (ucast (drop_bit 8 w)) (ucast w)) n = bit w n"
    by (cases "n < 8") (auto simp: be16_def bit_simps)
qed

lemma be16_zero: "be16 0 0 = 0"
  by (simp add: be16_def)

lemma length_enc16 [simp]: "length (enc16 w) = 2"
  by (simp add: enc16_def)

lemma length_enc_tags [simp]: "length (enc_tags tags) = 4 * length tags"
  by (induction tags rule: enc_tags.induct) simp_all

lemma rd_append: "rd (xs @ ys) (length xs + i) = rd ys i"
  by (simp add: rd_def nth_append)

lemma u16_at_append: "u16_at (xs @ ys) (length xs + i) = u16_at ys i"
  using rd_append [of xs ys "i + 1"] by (simp add: u16_at_def rd_append)

lemma view_append: "view (xs @ ys) (length xs + i) n = view ys i n"
  by (simp add: view_def)

lemma be16_nth_enc16 [simp]: "be16 ((enc16 w @ ys) ! 0) ((enc16 w @ ys) ! Suc 0) = w"
  by (simp add: enc16_def be16_enc16)

text \<open>The tag loop walks over the encoded tags and stops at the real type.\<close>

lemma skip_vlan_tags:
  assumes "length tags \<le> n" "\<forall>x \<in> set tags. is_vlan_type (fst x)" "\<not> is_vlan_type t"
  shows "skip_vlan n (pre @ enc_tags tags @ enc16 t @ body)
      (case tags of [] \<Rightarrow> t | x # _ \<Rightarrow> fst x) (length pre + 2)
    = Some (Inr (t, length pre + 4 * length tags + 2))"
  using assms
proof (induction tags arbitrary: n pre)
  case Nil
  then show ?case by (cases n) simp_all
next
  case (Cons x tags)
  obtain v tci where x: "x = (v, tci)" by (cases x)
  from Cons.prems obtain m where n: "n = Suc m" and m: "length tags \<le> m"
    by (cases n) auto
  let ?pre = "pre @ enc16 v @ enc16 tci"
  let ?next = "case tags of [] \<Rightarrow> t | x # _ \<Rightarrow> fst x"
  have "u16_at (?pre @ enc_tags tags @ enc16 t @ body) (length ?pre + 0) = Some ?next"
    unfolding u16_at_append by (auto split: list.split)
  moreover have "skip_vlan m (?pre @ enc_tags tags @ enc16 t @ body) ?next (length ?pre + 2)
      = Some (Inr (t, length ?pre + 4 * length tags + 2))"
    using Cons.IH [OF m, of ?pre] Cons.prems by simp
  moreover have "pre @ enc_tags (x # tags) @ enc16 t @ body = ?pre @ enc_tags tags @ enc16 t @ body"
    by (simp add: x)
  ultimately show ?case
    using Cons.prems by (simp add: n x add.commute add.left_commute
        del: u16_at_Some add_2_eq_Suc add_2_eq_Suc')
qed

lemma ethernet_carries:
  assumes "length macs = 12" "length tags \<le> 2" "\<forall>x \<in> set tags. is_vlan_type (fst x)"
    and "\<not> is_vlan_type t"
  shows "carries (ethernet macs tags t body) t (14 + 4 * length tags)"
proof -
  let ?b = "ethernet macs tags t body"
  have "u16_at ?b (length macs + 0) = Some (case tags of [] \<Rightarrow> t | x # _ \<Rightarrow> fst x)"
    unfolding ethernet_def u16_at_append by (auto split: list.split)
  moreover have "14 \<le> length ?b"
    using assms(1) by (simp add: ethernet_def)
  ultimately have "be16 (?b ! 12) (?b ! 13) = (case tags of [] \<Rightarrow> t | x # _ \<Rightarrow> fst x)"
    using assms(1) by simp
  with skip_vlan_tags [OF assms(2-4), of macs body] \<open>14 \<le> length ?b\<close> show ?thesis
    using assms(1) by (simp add: carries_def ethernet_def)
qed


definition dns_payload :: "u16 \<Rightarrow> u16 \<Rightarrow> byte list \<Rightarrow> bool" where
  "dns_payload sport dport payload \<longleftrightarrow>
     (sport = 53 \<or> dport = 53) \<and> 12 \<le> length payload \<and> payload ! 2 AND 0x78 = 0 \<and>
     be16 (payload ! 4) (payload ! 5) > 0"

lemma length_udp_datagram:
  "length src = 4 \<Longrightarrow> length dst = 4 \<Longrightarrow>
   length (udp_datagram src dst sport dport payload) = 28 + length payload"
  by (simp add: udp_datagram_def)

lemma length_4_obtain:
  assumes "length xs = 4"
  obtains a b c d where "xs = [a, b, c, d]"
  using assms by (auto simp: numeral_eq_Suc length_Suc_conv)

lemma unat_of_nat_u16: "n < 65536 \<Longrightarrow> unat (of_nat n :: u16) = n"
  by (simp add: unat_of_nat take_bit_nat_eq_self)

lemmas shift_reads = rd_append u16_at_append view_append
  rd_append [where i = 0, simplified] u16_at_append [where i = 0, simplified]

fun shift_net :: "nat \<Rightarrow> net_result \<Rightarrow> net_result" where
  "shift_net k (Inl p) = Inl p"
| "shift_net k (Inr (p, proto, offset, stop, whole)) = Inr (p, proto, k + offset, k + stop, whole)"

text \<open>Dissection of a datagram does not depend on where in the frame it starts.\<close>

lemma dissect_ipv4_shift:
  "dissect_ipv4 ntop4 (pre @ b) p (length pre) =
   map_option (shift_net (length pre)) (dissect_ipv4 ntop4 b p 0)"
  by (simp add: dissect_ipv4_def Let_def shift_reads map_option_do if_distrib min_add_distrib_right
      del: rd_Some u16_at_Some view_Some add_2_eq_Suc add_2_eq_Suc' cong: if_cong)

lemma with_ports_shift: "with_ports (pre @ b) p (length pre + offset) = with_ports b p offset"
  by (simp add: with_ports_def shift_reads add.assoc del: u16_at_Some add_2_eq_Suc add_2_eq_Suc')

fun shift_transport :: "nat \<Rightarrow> transport_result \<Rightarrow> transport_result" where
  "shift_transport k (Inl p) = Inl p"
| "shift_transport k (Inr (p, payload, stop, whole)) = Inr (p, k + payload, k + stop, whole)"

lemma dissect_transport_shift:
  "dissect_transport (pre @ b) p proto (length pre + offset) (length pre + stop) whole =
   map_option (shift_transport (length pre)) (dissect_transport b p proto offset stop whole)"
proof -
  have "dissect_transport (pre @ b) p 6 (length pre + offset) (length pre + stop) whole =
     map_option (shift_transport (length pre)) (dissect_transport b p 6 offset stop whole)"
    by (simp add: dissect_transport_def Let_def shift_reads with_ports_shift map_option_do add.assoc
        if_distrib [of "map_option f" for f] del: rd_Some cong: if_cong)
  moreover have "dissect_transport (pre @ b) p 17 (length pre + offset) (length pre + stop) whole =
     map_option (shift_transport (length pre)) (dissect_transport b p 17 offset stop whole)"
    by (simp add: dissect_transport_def Let_def shift_reads with_ports_shift map_option_do add.assoc
        if_distrib [of "map_option f" for f] min_add_distrib_right del: u16_at_Some cong: if_cong)
  ultimately show ?thesis
    by (cases "proto = 6 \<or> proto = 17") (auto simp: dissect_transport_def)
qed

lemma looks_tls_shift: "looks_tls (pre @ b) (length pre + payload) c = looks_tls b payload c"
  by (simp add: looks_tls_def shift_reads add.assoc
      del: rd_Some add_2_eq_Suc add_2_eq_Suc' add_Suc_right One_nat_def)

lemma looks_dns_shift: "looks_dns (pre @ b) p (length pre + payload) c = looks_dns b p payload c"
  by (simp add: looks_dns_def shift_reads add.assoc
      del: rd_Some u16_at_Some add_2_eq_Suc add_2_eq_Suc' cong: if_cong)

lemma dissect_application_shift:
  "dissect_application (pre @ b) p (length pre + payload) (length pre + stop) whole =
   dissect_application b p payload stop whole"
  by (simp add: dissect_application_def looks_tls_shift looks_dns_shift shift_reads Let_def
      del: view_Some cong: if_cong)

lemma dissect_upper_shift:
  "dissect_upper (pre @ b) (shift_net (length pre) r) = dissect_upper b r"
  by (cases r) (auto simp: dissect_upper_def dissect_transport_shift dissect_application_shift
      split: sum.split Option.bind_split)

lemma dissect_carries_ipv4:
  "carries (pre @ d) 0x0800 (length pre) \<Longrightarrow> dissect ntop4 ntop6 (pre @ d) wire time =
     do { n \<leftarrow> dissect_ipv4 ntop4 d (frame_start wire time) 0; dissect_upper d n }"
  by (cases "dissect_ipv4 ntop4 d (frame_start wire time) 0")
    (simp_all add: dissect_carries dissect_network_def dissect_ipv4_shift dissect_upper_shift)

lemma udp_datagram_network:
  assumes "length src = 4" "length dst = 4" "28 + length payload < 65536"
  shows "dissect_ipv4 ntop4 (udp_datagram src dst sport dport payload) p 0 =
    Some (Inr (p\<lparr>source_ip := ntop4 src, destination_ip := ntop4 dst\<rparr>, 17, 20,
      28 + length payload, True))"
proof -
  obtain tot :: u16 where tot: "of_nat (28 + length payload) = tot" "unat tot = 28 + length payload"
    using unat_of_nat_u16 [OF assms(3)] by blast
  obtain s1 s2 s3 s4 where src: "src = [s1, s2, s3, s4]"
    using assms(1) by (rule length_4_obtain)
  obtain d1 d2 d3 d4 where dst: "dst = [d1, d2, d3, d4]"
    using assms(2) by (rule length_4_obtain)
  show ?thesis
    unfolding udp_datagram_def tot(1) src dst dissect_ipv4_def enc16_def
    by (simp add: be16_enc16 be16_zero tot(2) Let_def)
qed


lemma udp_datagram_upper:
  assumes "length src = 4" "length dst = 4" "28 + length payload < 65536" "application p = Unknown"
  shows "dissect_upper (udp_datagram src dst sport dport payload)
      (Inr (p, 17, 20, 28 + length payload, True)) =
    Some (p\<lparr>protocol := Udp, source_port := Some sport, destination_port := Some dport,
      application := (if dns_payload sport dport payload then Dns else Unknown)\<rparr>)"
proof -
  obtain len :: u16 where len: "of_nat (8 + length payload) = len" "unat len = 8 + length payload"
    using unat_of_nat_u16 [of "8 + length payload"] assms(3) by auto
  then have len8: "\<not> len < 8"
    by (simp add: word_less_nat_alt)
  obtain s1 s2 s3 s4 where src: "src = [s1, s2, s3, s4]"
    using assms(1) by (rule length_4_obtain)
  obtain d1 d2 d3 d4 where dst: "dst = [d1, d2, d3, d4]"
    using assms(2) by (rule length_4_obtain)
  show ?thesis
    unfolding udp_datagram_def len(1) src dst enc16_def
    using assms(4)
    by (simp add: dissect_upper_def dissect_transport_def dissect_application_def with_ports_def
        looks_dns_def dns_payload_def be16_enc16 len(2) len8)
qed

lemma dissect_ethernet_udp:
  assumes "length macs = 12" "length tags \<le> 2" "\<forall>x \<in> set tags. is_vlan_type (fst x)"
    and "length src = 4" "length dst = 4" "28 + length payload < 65536"
  shows "dissect ntop4 ntop6
      (ethernet macs tags 0x0800 (udp_datagram src dst sport dport payload)) wire time =
    Some \<lparr>timestamp = time, wire_bytes = wire, source_ip = ntop4 src, destination_ip = ntop4 dst,
      source_port = Some sport, destination_port = Some dport, protocol = Udp,
      application = (if dns_payload sport dport payload then Dns else Unknown)\<rparr>"
proof -
  let ?d = "udp_datagram src dst sport dport payload"
  let ?pre = "macs @ enc_tags tags @ enc16 0x0800"
  have frame: "ethernet macs tags 0x0800 ?d = ?pre @ ?d" and pre: "length ?pre = 14 + 4 * length tags"
    using assms(1) by (simp_all add: ethernet_def)
  have "carries (?pre @ ?d) 0x0800 (length ?pre)"
    using ethernet_carries [OF assms(1-3), of "0x0800" ?d] unfolding frame pre
    by (simp add: is_vlan_type_def)
  then show ?thesis
    unfolding frame dissect_carries_ipv4 [OF \<open>carries (?pre @ ?d) 0x0800 (length ?pre)\<close>]
    by (simp add: udp_datagram_network udp_datagram_upper assms empty_packet_def)
qed

text \<open>
  C38. Functional correctness on well-formed traffic: an Ethernet frame with up to two VLAN tags that
  carries a UDP datagram over IPv4 is dissected into exactly its addresses and ports, and is marked
  as DNS exactly when it uses port 53 and has a query or response header with a question.
\<close>

theorem dissect_udp_frame:
  assumes "length macs = 12" "length tags \<le> 2" "\<forall>x \<in> set tags. is_vlan_type (fst x)"
    and "length src = 4" "length dst = 4" "28 + length payload < 65536"
  shows "dissect ntop4 ntop6
      (ethernet macs tags 0x0800 (udp_datagram src dst sport dport payload)) wire time =
    Some \<lparr>timestamp = time, wire_bytes = wire, source_ip = ntop4 src, destination_ip = ntop4 dst,
      source_port = Some sport, destination_port = Some dport, protocol = Udp,
      application = (if dns_payload sport dport payload then Dns else Unknown)\<rparr>"
  using assms by (rule dissect_ethernet_udp)

section \<open>Witnesses\<close>

text \<open>A printer for IPv4 addresses, and a DNS query behind one VLAN tag.\<close>

fun quad_text :: ntop where
  "quad_text [a, b, c, d] =
     to_string (unat a) @ ''.'' @ to_string (unat b) @ ''.'' @ to_string (unat c) @ ''.'' @
     to_string (unat d)"
| "quad_text _ = []"

definition hex_text :: ntop where
  "hex_text b = concat (map (\<lambda>x. to_string (unat x) @ '':'') b)"

definition dns_query :: "byte list" where
  "dns_query = [0, 7, 1, 0, 0, 1, 0, 0, 0, 0, 0, 0]"

definition sample_frame :: "byte list" where
  "sample_frame = ethernet (replicate 12 2) [(0x8100, 100)] 0x0800
     (udp_datagram [10, 0, 0, 5] [8, 8, 8, 8] 12345 53 dns_query)"

theorem dissect_udp_frame_witness:
  "length (replicate 12 (2 :: byte)) = 12 \<and> is_vlan_type 0x8100 \<and>
   map_option destination_port (dissect quad_text hex_text sample_frame 58 1000) = Some (Some 53) \<and>
   map_option application (dissect quad_text hex_text sample_frame 58 1000) = Some Dns"
  using dissect_udp_frame [of "replicate 12 2" "[(0x8100, 100)]" "[10, 0, 0, 5]" "[8, 8, 8, 8]"
      dns_query quad_text hex_text 12345 53 58 1000]
  by (simp add: sample_frame_def is_vlan_type_def dns_query_def dns_payload_def be16_def)

lemma sample_frame_dissected:
  "dissect quad_text hex_text sample_frame 58 1000 =
     Some \<lparr>timestamp = 1000, wire_bytes = 58, source_ip = quad_text [10, 0, 0, 5],
       destination_ip = quad_text [8, 8, 8, 8], source_port = Some 12345,
       destination_port = Some 53, protocol = Udp, application = Dns\<rparr>"
  unfolding sample_frame_def
  by (subst dissect_ethernet_udp) (simp_all add: is_vlan_type_def dns_query_def dns_payload_def be16_def)

theorem dissect_classification_witness:
  "\<exists>p. dissect quad_text hex_text sample_frame 58 1000 = Some p \<and> hint_ok p \<and>
     wire_bytes p = 58 \<and> application p \<noteq> Unknown \<and> source_port p \<noteq> None"
  using sample_frame_dissected dissect_classification [OF sample_frame_dissected] by auto

text \<open>
  The first fragment of the same query, and the query cut off by the capture: the datagrams and the
  frames around them.
\<close>

abbreviation plain_ethernet :: "byte list \<Rightarrow> byte list" where
  "plain_ethernet body \<equiv> (replicate 12 2 @ enc16 0x0800) @ body"

lemma plain_ethernet_carries: "carries (plain_ethernet body) 0x0800 14"
  using ethernet_carries [of "replicate 12 2" "[]" "0x0800" body]
  by (simp add: ethernet_def is_vlan_type_def)

lemma dissect_plain_ethernet:
  "dissect ntop4 ntop6 (plain_ethernet d) wire time =
     do { n \<leftarrow> dissect_ipv4 ntop4 d (frame_start wire time) 0; dissect_upper d n }"
  using dissect_carries_ipv4 [of "replicate 12 2 @ enc16 0x0800" d ntop4 ntop6 wire time]
    plain_ethernet_carries [of d] by simp

lemma u16_at_plain_ethernet: "u16_at (plain_ethernet d) (14 + i) = u16_at d i"
  using u16_at_append [of "replicate 12 2 @ enc16 0x0800" d i] by simp

definition fragment_datagram :: "byte list" where
  "fragment_datagram = [0x45, 0, 0, 28, 0, 0, 0x20, 0, 64, 17, 0, 0, 10, 0, 0, 5, 8, 8, 8, 8,
     48, 57, 0, 53, 0, 8, 0, 0]"

lemma fragment_facts:
  "u16_at (plain_ethernet fragment_datagram) (14 + 6) = Some 0x2000"
  "dissect quad_text hex_text (plain_ethernet fragment_datagram) 42 0 =
     Some ((frame_start 42 0)\<lparr>source_ip := quad_text [10, 0, 0, 5],
       destination_ip := quad_text [8, 8, 8, 8]\<rparr>)"
  unfolding u16_at_plain_ethernet dissect_plain_ethernet
  by (simp_all add: fragment_datagram_def be16_def dissect_ipv4_def dissect_upper_def Let_def
      del: quad_text.simps)

theorem ipv4_fragment_not_dissected_witness:
  "carries (plain_ethernet fragment_datagram) 0x0800 14 \<and>
   (\<exists>p. dissect quad_text hex_text (plain_ethernet fragment_datagram) 42 0 = Some p \<and>
     source_port p = None \<and> application p = Unknown)"
  using plain_ethernet_carries fragment_facts(2)
    ipv4_fragment_not_dissected [OF plain_ethernet_carries fragment_facts(1) _ fragment_facts(2)]
  by simp

definition truncated_datagram :: "byte list" where
  "truncated_datagram = [0x45, 0, 0, 48, 0, 0, 0, 0, 64, 17, 0, 0, 10, 0, 0, 5, 8, 8, 8, 8,
     48, 57, 0, 53, 0, 28, 0, 0]"

lemma truncated_facts:
  "u16_at (plain_ethernet truncated_datagram) (14 + 2) = Some 48"
  "\<exists>p. dissect quad_text hex_text (plain_ethernet truncated_datagram) 62 0 = Some p"
  unfolding u16_at_plain_ethernet dissect_plain_ethernet
  by (simp_all add: truncated_datagram_def be16_def dissect_ipv4_def dissect_upper_def
      dissect_transport_def dissect_application_def with_ports_def Let_def del: quad_text.simps)

theorem truncated_datagram_no_hint_witness:
  "length (plain_ethernet truncated_datagram) < 14 + unat (48 :: u16) \<and>
   (\<exists>p. dissect quad_text hex_text (plain_ethernet truncated_datagram) 62 0 = Some p \<and>
     application p = Unknown)"
proof -
  have short: "length (plain_ethernet truncated_datagram) < 14 + unat (48 :: u16)"
    by (simp add: truncated_datagram_def)
  obtain p where p: "dissect quad_text hex_text (plain_ethernet truncated_datagram) 62 0 = Some p"
    using truncated_facts(2) by blast
  have "application p = Unknown"
    using truncated_datagram_no_hint [OF _ p, of 14 48] plain_ethernet_carries truncated_facts(1)
      short by blast
  with p short show ?thesis by blast
qed

end
