(* ===== verification/Engine.thy ===== *)
theory Engine
  imports Packet "HOL-Library.Sublist"
begin

text \<open>
  The capture engine, \<open>CaptureEngine\<close> of \<open>include/magicbox/engine.hpp\<close> and \<open>src/engine.cpp\<close>: a
  worker thread that pulls packets from a source into a bounded queue, and a control thread that
  starts and stops it, drains the queue and reads the counters. Every critical section under the
  mutex is one definition; \<open>engine_step\<close> interleaves them. What the source returns is a label of the
  step, so the theorems hold for every source.

  The interface \<open>bounded_fifo\<close> states what the queue promises to its client; the engine's own round
  and drain are its interpretation.
\<close>

section \<open>State\<close>

datatype next_result = Next_packet PacketMetadata | Next_idle | Next_throw exn

record CaptureSnapshot =
  packets :: u64
  wire_total :: u64
  metadata_dropped :: u64
  kernel_dropped :: "u64 option"
  queued :: nat
  running :: bool
  capture_error :: string

text \<open>
  Where the worker is: not created, at the head of its loop, inside \<open>source_->next\<close>, out of the loop
  and its handlers, returned from \<open>run\<close>, joined.
\<close>

datatype worker_pc = No_worker | At_head | In_next | After_loop | Exited | Joined

record CaptureEngine =
  capacity :: nat
  queue :: "PacketMetadata list"
  counters :: CaptureSnapshot
  started :: bool
  worker :: worker_pc
  stop_requested :: bool

definition zero_counters :: CaptureSnapshot where
  "zero_counters = \<lparr>packets = 0, wire_total = 0, metadata_dropped = 0, kernel_dropped = None,
     queued = 0, running = False, capture_error = []\<rparr>"

section \<open>Operations\<close>

definition new_engine :: "bool \<Rightarrow> nat \<Rightarrow> CaptureEngine result" where
  "new_engine has_source cap =
     guard_exn (\<not> has_source \<or> cap = 0)
       (Invalid_argument ''Capture requires a source and positive queue capacity'')
       (Inr \<lparr>capacity = cap, queue = [], counters = zero_counters, started = False,
             worker = No_worker, stop_requested = False\<rparr>)"

text \<open>\<open>start\<close>; the flag says whether the thread could be created.\<close>

definition start :: "bool \<Rightarrow> CaptureEngine \<Rightarrow> exn option \<times> CaptureEngine" where
  "start thread_ok e =
     (if started e then (Some (Logic_error ''Capture engine can only be started once''), e)
      else
        let e = e\<lparr>counters := (counters e)\<lparr>running := True\<rparr>\<rparr>
        in if thread_ok then (None, e\<lparr>worker := At_head, started := True\<rparr>)
           else (Some (Runtime_error ''thread''), e\<lparr>counters := (counters e)\<lparr>running := False\<rparr>\<rparr>))"

definition joinable :: "CaptureEngine \<Rightarrow> bool" where
  "joinable e \<longleftrightarrow> worker e \<noteq> No_worker \<and> worker e \<noteq> Joined"

text \<open>The two halves of \<open>stop\<close>: the request, and the join once the worker has returned.\<close>

definition request_stop :: "CaptureEngine \<Rightarrow> CaptureEngine" where
  "request_stop e = (if joinable e then e\<lparr>stop_requested := True\<rparr> else e)"

definition join :: "CaptureEngine \<Rightarrow> CaptureEngine" where
  "join e = (if worker e = Exited then e\<lparr>worker := Joined\<rparr> else e)"

text \<open>The critical section of one round of \<open>run\<close>, after \<open>next\<close> has returned normally.\<close>

definition count_packet :: "PacketMetadata \<Rightarrow> CaptureEngine \<Rightarrow> CaptureEngine" where
  "count_packet p e =
     e\<lparr>counters := (counters e)\<lparr>packets := packets (counters e) + 1,
                                wire_total := wire_total (counters e) + ucast (wire_bytes p)\<rparr>\<rparr>"

definition enqueue :: "PacketMetadata \<Rightarrow> CaptureEngine \<Rightarrow> CaptureEngine" where
  "enqueue p e =
     (if length (queue e) = capacity e
      then e\<lparr>counters := (counters e)\<lparr>metadata_dropped := metadata_dropped (counters e) + 1\<rparr>\<rparr>
      else e\<lparr>queue := queue e @ [p]\<rparr>)"

definition set_kernel_dropped :: "u64 option \<Rightarrow> CaptureEngine \<Rightarrow> CaptureEngine" where
  "set_kernel_dropped k e = e\<lparr>counters := (counters e)\<lparr>kernel_dropped := k\<rparr>\<rparr>"

definition error_text :: "exn \<Rightarrow> string" where
  "error_text x = (if is_std_exception x then what x else ''Unknown capture failure'')"

definition run_round :: "next_result \<Rightarrow> u64 option \<Rightarrow> CaptureEngine \<Rightarrow> CaptureEngine" where
  "run_round r kdrops e =
     (case r of
        Next_idle \<Rightarrow> (set_kernel_dropped kdrops e)\<lparr>worker := At_head\<rparr>
      | Next_packet p \<Rightarrow>
          (enqueue p (count_packet p (set_kernel_dropped kdrops e)))\<lparr>worker := At_head\<rparr>
      | Next_throw x \<Rightarrow>
          e\<lparr>counters := (counters e)\<lparr>capture_error := error_text x\<rparr>, worker := After_loop\<rparr>)"

text \<open>The loop test, and the last critical section of \<open>run\<close>.\<close>

definition loop_test :: "CaptureEngine \<Rightarrow> CaptureEngine" where
  "loop_test e = e\<lparr>worker := (if stop_requested e then After_loop else In_next)\<rparr>"

definition run_exit :: "CaptureEngine \<Rightarrow> CaptureEngine" where
  "run_exit e = e\<lparr>counters := (counters e)\<lparr>running := False\<rparr>, worker := Exited\<rparr>"

definition snapshot :: "CaptureEngine \<Rightarrow> CaptureSnapshot" where
  "snapshot e = (counters e)\<lparr>queued := length (queue e)\<rparr>"

definition drain :: "nat \<Rightarrow> CaptureEngine \<Rightarrow> PacketMetadata list \<times> CaptureEngine" where
  "drain limit e =
     (let n = min limit (length (queue e))
      in (take n (queue e), e\<lparr>queue := drop n (queue e)\<rparr>))"

section \<open>Interleaving\<close>

datatype engine_event =
    Ev_start bool
  | Ev_test
  | Ev_next next_result "u64 option"
  | Ev_exit
  | Ev_request_stop
  | Ev_join
  | Ev_drain nat "PacketMetadata list"

inductive engine_step :: "CaptureEngine \<Rightarrow> engine_event \<Rightarrow> CaptureEngine \<Rightarrow> bool" where
  step_start: "start ok e = (None, e') \<Longrightarrow> engine_step e (Ev_start ok) e'"
| step_test: "worker e = At_head \<Longrightarrow> engine_step e Ev_test (loop_test e)"
| step_next: "worker e = In_next \<Longrightarrow> engine_step e (Ev_next r k) (run_round r k e)"
| step_exit: "worker e = After_loop \<Longrightarrow> engine_step e Ev_exit (run_exit e)"
| step_request: "engine_step e Ev_request_stop (request_stop e)"
| step_join: "worker e = Exited \<Longrightarrow> engine_step e Ev_join (join e)"
| step_drain: "drain limit e = (out, e') \<Longrightarrow> engine_step e (Ev_drain limit out) e'"

inductive engine_trace :: "nat \<Rightarrow> engine_event list \<Rightarrow> CaptureEngine \<Rightarrow> bool" for cap where
  trace_new: "new_engine True cap = Inr e \<Longrightarrow> engine_trace cap [] e"
| trace_step: "engine_trace cap tr e \<Longrightarrow> engine_step e ev e' \<Longrightarrow> engine_trace cap (tr @ [ev]) e'"

inductive_cases engine_step_testE: "engine_step e Ev_test e'"
inductive_cases engine_step_nextE: "engine_step e (Ev_next r k) e'"
inductive_cases engine_step_exitE: "engine_step e Ev_exit e'"

fun received_ev :: "engine_event \<Rightarrow> PacketMetadata list" where
  "received_ev (Ev_next (Next_packet p) k) = [p]"
| "received_ev _ = []"

fun drained_ev :: "engine_event \<Rightarrow> PacketMetadata list" where
  "drained_ev (Ev_drain limit out) = out"
| "drained_ev _ = []"

text \<open>What a trace received from the source and handed to the control thread.\<close>

definition received :: "engine_event list \<Rightarrow> PacketMetadata list" where
  "received tr = concat (map received_ev tr)"

definition drained :: "engine_event list \<Rightarrow> PacketMetadata list" where
  "drained tr = concat (map drained_ev tr)"

section \<open>The queue as an interface\<close>

locale bounded_fifo =
  fixes push :: "'a \<Rightarrow> 's \<Rightarrow> 's"
    and take_out :: "nat \<Rightarrow> 's \<Rightarrow> 'a list \<times> 's"
    and contents :: "'s \<Rightarrow> 'a list"
    and room :: "'s \<Rightarrow> nat"
  assumes contents_push:
      "contents (push x s) = (if length (contents s) = room s then contents s else contents s @ [x])"
    and room_push: "room (push x s) = room s"
    and take_out_order: "take_out n s = (out, s') \<Longrightarrow> out @ contents s' = contents s"
    and take_out_amount: "take_out n s = (out, s') \<Longrightarrow> length out = min n (length (contents s))"
    and room_take_out: "take_out n s = (out, s') \<Longrightarrow> room s' = room s"
begin

text \<open>
  The client's view: what came out, followed by what is still inside, is a subsequence of what went
  in, in order, and the store never exceeds its room.
\<close>

definition fifo_inv :: "'a list \<Rightarrow> 'a list \<Rightarrow> 's \<Rightarrow> bool" where
  "fifo_inv inp out s \<longleftrightarrow> subseq (out @ contents s) inp \<and> length (contents s) \<le> room s"

lemma fifo_inv_push: "fifo_inv inp out s \<Longrightarrow> fifo_inv (inp @ [x]) out (push x s)"
  unfolding fifo_inv_def contents_push room_push
  by (auto intro: list_emb_append_mono subseq_rev_drop_many simp flip: append_assoc)

lemma fifo_inv_take_out:
  assumes "fifo_inv inp out s" "take_out n s = (got, s')"
  shows "fifo_inv inp (out @ got) s'"
proof -
  have "length (contents s') \<le> length (contents s)"
    using take_out_order [OF assms(2)] by (metis le_add2 length_append)
  then show ?thesis
    using assms by (auto simp: fifo_inv_def take_out_order room_take_out)
qed

lemma push_lossless: "length (contents s) < room s \<Longrightarrow> contents (push x s) = contents s @ [x]"
  by (simp add: contents_push)

end

lemma queue_enqueue:
  "queue (enqueue p e) = (if length (queue e) = capacity e then queue e else queue e @ [p])"
  by (simp add: enqueue_def)

interpretation eq: bounded_fifo enqueue drain queue capacity
  by unfold_locales (auto simp: queue_enqueue enqueue_def drain_def Let_def)

section \<open>Invariants of every interleaving\<close>

definition bytes_sum :: "PacketMetadata list \<Rightarrow> u64" where
  "bytes_sum ps = sum_list (map (\<lambda>p. ucast (wire_bytes p)) ps)"

definition accounted :: "engine_event list \<Rightarrow> CaptureEngine \<Rightarrow> bool" where
  "accounted tr e \<longleftrightarrow>
     packets (counters e) = of_nat (length (received tr)) \<and>
     wire_total (counters e) = bytes_sum (received tr) \<and>
     packets (counters e) = metadata_dropped (counters e) + of_nat (length (drained tr @ queue e))"

definition lifecycle_ok :: "CaptureEngine \<Rightarrow> bool" where
  "lifecycle_ok e \<longleftrightarrow>
     (started e \<longleftrightarrow> worker e \<noteq> No_worker) \<and>
     (running (counters e) \<longleftrightarrow> worker e \<in> {At_head, In_next, After_loop}) \<and>
     (stop_requested e \<longrightarrow> started e)"

lemma received_snoc [simp]: "received (tr @ [ev]) = received tr @ received_ev ev"
  by (simp add: received_def)

lemma drained_snoc [simp]: "drained (tr @ [ev]) = drained tr @ drained_ev ev"
  by (simp add: drained_def)

lemma bytes_sum_snoc [simp]: "bytes_sum (ps @ [p]) = bytes_sum ps + ucast (wire_bytes p)"
  by (simp add: bytes_sum_def)

lemma fifo_inv_cong:
  "queue e' = queue e \<Longrightarrow> capacity e' = capacity e \<Longrightarrow> eq.fifo_inv inp out e' = eq.fifo_inv inp out e"
  by (simp add: eq.fifo_inv_def)

lemma engine_step_capacity: "engine_step e ev e' \<Longrightarrow> capacity e' = capacity e"
  by (induction rule: engine_step.induct)
    (auto simp: start_def Let_def loop_test_def run_round_def enqueue_def count_packet_def
      set_kernel_dropped_def run_exit_def request_stop_def join_def drain_def
      split: if_splits next_result.splits)

lemma engine_step_lifecycle: "engine_step e ev e' \<Longrightarrow> lifecycle_ok e \<Longrightarrow> lifecycle_ok e'"
  by (induction rule: engine_step.induct)
    (auto simp: lifecycle_ok_def start_def Let_def loop_test_def run_round_def enqueue_def
      count_packet_def set_kernel_dropped_def run_exit_def request_stop_def joinable_def join_def
      drain_def split: if_splits next_result.splits)

lemma engine_step_accounted: "engine_step e ev e' \<Longrightarrow> accounted tr e \<Longrightarrow> accounted (tr @ [ev]) e'"
  by (induction rule: engine_step.induct)
    (auto simp: accounted_def start_def Let_def loop_test_def run_round_def enqueue_def
      count_packet_def set_kernel_dropped_def run_exit_def request_stop_def join_def drain_def
      split: if_splits next_result.splits)

lemma engine_step_fifo:
  assumes "engine_step e ev e'" "eq.fifo_inv inp out e"
  shows "eq.fifo_inv (inp @ received_ev ev) (out @ drained_ev ev) e'"
  using assms
proof (induction rule: engine_step.induct)
  case (step_next e r k)
  show ?case
  proof (cases r)
    case (Next_packet p)
    let ?e = "count_packet p (set_kernel_dropped k e)"
    have "eq.fifo_inv inp out ?e"
      using step_next.prems by (simp add: eq.fifo_inv_def count_packet_def set_kernel_dropped_def)
    then have "eq.fifo_inv (inp @ [p]) out (enqueue p ?e)"
      by (rule eq.fifo_inv_push)
    then show ?thesis
      by (simp add: Next_packet run_round_def eq.fifo_inv_def)
  qed (use step_next.prems in \<open>simp_all add: run_round_def set_kernel_dropped_def eq.fifo_inv_def\<close>)
next
  case (step_drain limit e out' e')
  then show ?case
    using eq.fifo_inv_take_out by simp
qed (auto simp: eq.fifo_inv_def start_def Let_def loop_test_def run_exit_def request_stop_def join_def
    split: if_splits)

definition engine_inv :: "nat \<Rightarrow> engine_event list \<Rightarrow> CaptureEngine \<Rightarrow> bool" where
  "engine_inv cap tr e \<longleftrightarrow> 0 < cap \<and> capacity e = cap \<and> lifecycle_ok e \<and> accounted tr e \<and>
     eq.fifo_inv (received tr) (drained tr) e"

lemma engine_trace_inv: "engine_trace cap tr e \<Longrightarrow> engine_inv cap tr e"
proof (induction rule: engine_trace.induct)
  case (trace_new e)
  then show ?case
    by (auto simp: new_engine_def guard_exn_def engine_inv_def lifecycle_ok_def accounted_def
        received_def drained_def bytes_sum_def eq.fifo_inv_def zero_counters_def split: if_splits)
next
  case (trace_step tr e ev e')
  then show ?case
    using engine_step_capacity [of e ev e'] engine_step_lifecycle [of e ev e']
      engine_step_accounted [of e ev e' tr]
      engine_step_fifo [of e ev e' "received tr" "drained tr"]
    by (simp add: engine_inv_def)
qed

text \<open>
  C10. Queue safety under every interleaving of the capture and the control thread: packets reach the
  control thread in arrival order, none is invented or duplicated, and the queue never holds more
  than its capacity.
\<close>

theorem capture_queue_fifo:
  assumes "engine_trace cap tr e"
  shows "subseq (drained tr @ queue e) (received tr) \<and> length (queue e) \<le> cap"
  using engine_trace_inv [OF assms] by (simp add: engine_inv_def eq.fifo_inv_def)

text \<open>
  C26. Exact accounting: the packet and byte counters cover every packet the source delivered, also
  those that overflowed, and received = dropped + drained + queued, all modulo 64-bit wrap-around.
\<close>

theorem capture_accounting:
  assumes "engine_trace cap tr e"
  shows "packets (snapshot e) = of_nat (length (received tr)) \<and>
    wire_total (snapshot e) = bytes_sum (received tr) \<and>
    packets (snapshot e) =
      metadata_dropped (snapshot e) + of_nat (length (drained tr)) + of_nat (queued (snapshot e))"
  using engine_trace_inv [OF assms]
  by (auto simp: engine_inv_def accounted_def snapshot_def add.assoc)

lemma engine_trace_lossless:
  "engine_trace cap tr e \<Longrightarrow> length (received tr) \<le> cap \<Longrightarrow> drained tr @ queue e = received tr"
proof (induction rule: engine_trace.induct)
  case (trace_new e)
  then show ?case
    by (auto simp: new_engine_def guard_exn_def received_def drained_def split: if_splits)
next
  case (trace_step tr e ev e')
  then have eq: "drained tr @ queue e = received tr" and cap: "capacity e = cap"
    using engine_trace_inv by (simp_all add: engine_inv_def)
  have "length (queue e) < capacity e" if "received_ev ev = [p]" for p
  proof -
    have "length (queue e) \<le> length (received tr)"
      using arg_cong [OF eq, of length] by simp
    then show ?thesis
      using that trace_step.prems cap by simp
  qed
  with \<open>engine_step e ev e'\<close> eq show ?case
    by (auto simp: start_def Let_def loop_test_def run_round_def enqueue_def count_packet_def
        set_kernel_dropped_def run_exit_def request_stop_def join_def drain_def
        elim!: engine_step.cases split: if_splits next_result.splits)
qed

text \<open>
  No loss while the backlog fits: as long as the source has delivered no more packets than the
  queue can hold, every packet is either already drained or still queued, in order.
\<close>

theorem capture_lossless_within_capacity:
  "engine_trace cap tr e \<Longrightarrow> length (received tr) \<le> cap \<Longrightarrow> drained tr @ queue e = received tr"
  by (rule engine_trace_lossless)

section \<open>Lifecycle\<close>

fun is_start :: "engine_event \<Rightarrow> bool" where
  "is_start (Ev_start ok) = True"
| "is_start _ = False"

lemma engine_trace_starts:
  "engine_trace cap tr e \<Longrightarrow> length (filter is_start tr) = (if started e then 1 else 0)"
proof (induction rule: engine_trace.induct)
  case (trace_new e)
  then show ?case by (auto simp: new_engine_def guard_exn_def split: if_splits)
next
  case (trace_step tr e ev e')
  then show ?case
    by (auto simp: start_def Let_def loop_test_def run_round_def enqueue_def count_packet_def
        set_kernel_dropped_def run_exit_def request_stop_def join_def drain_def
        elim!: engine_step.cases split: if_splits next_result.splits)
qed

text \<open>
  One life: in every interleaving the engine is started at most once, a second \<open>start\<close> throws
  and changes nothing, and the running flag is up exactly while the worker is between creation and
  its last critical section.
\<close>

theorem engine_single_start:
  assumes "engine_trace cap tr e"
  shows "length (filter is_start tr) \<le> 1 \<and>
    (1 \<le> length (filter is_start tr) \<longrightarrow>
       start ok e = (Some (Logic_error ''Capture engine can only be started once''), e)) \<and>
    (running (snapshot e) \<longleftrightarrow> worker e \<in> {At_head, In_next, After_loop})"
  using engine_trace_inv [OF assms] engine_trace_starts [OF assms]
  by (auto simp: engine_inv_def lifecycle_ok_def snapshot_def start_def)

text \<open>The worker's own next step, given what the source would answer.\<close>

definition worker_advance :: "next_result \<times> u64 option \<Rightarrow> CaptureEngine \<Rightarrow> CaptureEngine" where
  "worker_advance x e = (case worker e of
     At_head \<Rightarrow> loop_test e
   | In_next \<Rightarrow> run_round (fst x) (snd x) e
   | After_loop \<Rightarrow> run_exit e
   | _ \<Rightarrow> e)"

lemma worker_advance_exited [simp]: "worker e = Exited \<Longrightarrow> fold worker_advance xs e = e"
  by (induction xs) (simp_all add: worker_advance_def)

lemma worker_advance_after_loop:
  "worker e = After_loop \<Longrightarrow> fold worker_advance (x # xs) e = run_exit e"
  by (simp add: worker_advance_def run_exit_def)

lemma worker_advance_at_head:
  "worker e = At_head \<Longrightarrow> stop_requested e \<Longrightarrow>
   fold worker_advance (x # y # xs) e = run_exit (e\<lparr>worker := After_loop\<rparr>)"
  using worker_advance_after_loop [of "e\<lparr>worker := After_loop\<rparr>" y xs]
  by (simp add: worker_advance_def loop_test_def)

lemma run_round_result:
  "worker (run_round r k e) = At_head \<or> worker (run_round r k e) = After_loop"
  "stop_requested (run_round r k e) = stop_requested e"
  "packets (counters (run_round r k e)) = packets (counters e) \<or>
   packets (counters (run_round r k e)) = packets (counters e) + 1"
  by (auto simp: run_round_def enqueue_def count_packet_def set_kernel_dropped_def
      split: next_result.splits)

text \<open>
  C27. Stopping ends: once a stop is requested, the worker leaves its loop within four of its own
  steps, whatever the source answers, so the join returns; it takes in at most one more packet and
  leaves the running flag down.
\<close>

theorem stop_terminates:
  assumes "stop_requested e" "worker e \<in> {At_head, In_next, After_loop}" "4 \<le> length xs"
  shows "worker (fold worker_advance xs e) = Exited \<and>
    \<not> running (snapshot (fold worker_advance xs e)) \<and>
    worker (join (fold worker_advance xs e)) = Joined \<and>
    (packets (counters (fold worker_advance xs e)) = packets (counters e) \<or>
     packets (counters (fold worker_advance xs e)) = packets (counters e) + 1)"
proof -
  obtain w x y z xs' where xs: "xs = w # x # y # z # xs'"
    using assms(3) by (cases xs; cases "tl xs"; cases "tl (tl xs)"; cases "tl (tl (tl xs))") auto
  let ?e = "run_round (fst w) (snd w) e"
  consider "worker e = At_head" | "worker e = After_loop" | "worker e = In_next" "worker ?e = At_head"
    | "worker e = In_next" "worker ?e = After_loop"
    using assms(2) run_round_result(1) [of "fst w" "snd w" e] by blast
  then show ?thesis
  proof cases
    case 1
    with assms(1) show ?thesis
      unfolding xs worker_advance_at_head [OF 1 assms(1)]
      by (simp add: run_exit_def snapshot_def join_def)
  next
    case 2
    then show ?thesis
      unfolding xs worker_advance_after_loop [OF 2]
      by (simp add: run_exit_def snapshot_def join_def)
  next
    case 3
    have "fold worker_advance xs e = fold worker_advance (x # y # z # xs') ?e"
      by (simp add: xs worker_advance_def 3(1))
    also have "\<dots> = run_exit (?e\<lparr>worker := After_loop\<rparr>)"
      using worker_advance_at_head [OF 3(2)] run_round_result(2) assms(1) by metis
    finally show ?thesis
      using run_round_result(3) [of "fst w" "snd w" e]
      by (simp add: run_exit_def snapshot_def join_def)
  next
    case 4
    have "fold worker_advance xs e = fold worker_advance (x # y # z # xs') ?e"
      by (simp add: xs worker_advance_def 4(1))
    also have "\<dots> = run_exit ?e"
      by (rule worker_advance_after_loop [OF 4(2)])
    finally show ?thesis
      using run_round_result(3) [of "fst w" "snd w" e]
      by (simp add: run_exit_def snapshot_def join_def)
  qed
qed

section \<open>Running a trace, witnesses\<close>

text \<open>The step relation as a function of the event, and that it is the same relation.\<close>

fun exec_event :: "engine_event \<Rightarrow> CaptureEngine \<Rightarrow> CaptureEngine option" where
  "exec_event (Ev_start ok) e = (if fst (start ok e) = None then Some (snd (start ok e)) else None)"
| "exec_event Ev_test e = (if worker e = At_head then Some (loop_test e) else None)"
| "exec_event (Ev_next r k) e = (if worker e = In_next then Some (run_round r k e) else None)"
| "exec_event Ev_exit e = (if worker e = After_loop then Some (run_exit e) else None)"
| "exec_event Ev_request_stop e = Some (request_stop e)"
| "exec_event Ev_join e = (if worker e = Exited then Some (join e) else None)"
| "exec_event (Ev_drain limit out) e =
     (if fst (drain limit e) = out then Some (snd (drain limit e)) else None)"

lemma exec_event_iff: "exec_event ev e = Some e' \<longleftrightarrow> engine_step e ev e'"
proof
  show "exec_event ev e = Some e' \<Longrightarrow> engine_step e ev e'"
    by (cases ev) (auto intro: engine_step.intros simp: prod_eq_iff split: if_splits)
  show "engine_step e ev e' \<Longrightarrow> exec_event ev e = Some e'"
    by (induction rule: engine_step.induct) auto
qed

fun exec_events :: "engine_event list \<Rightarrow> CaptureEngine \<Rightarrow> CaptureEngine option" where
  "exec_events [] e = Some e"
| "exec_events (ev # evs) e = Option.bind (exec_event ev e) (exec_events evs)"

lemma exec_events_trace:
  "engine_trace cap tr e \<Longrightarrow> exec_events evs e = Some e' \<Longrightarrow> engine_trace cap (tr @ evs) e'"
proof (induction evs arbitrary: tr e)
  case (Cons ev evs)
  then obtain e1 where "exec_event ev e = Some e1" and rest: "exec_events evs e1 = Some e'"
    by (auto split: Option.bind_splits)
  then have "engine_trace cap (tr @ [ev]) e1"
    using Cons.prems(1) by (auto simp: exec_event_iff intro: trace_step)
  from Cons.IH [OF this rest] show ?case by simp
qed simp

definition sample_packet :: "u32 \<Rightarrow> PacketMetadata" where
  "sample_packet n = empty_packet\<lparr>wire_bytes := n\<rparr>"

text \<open>Three packets arrive at a queue of two; one overflows; the control thread drains one.\<close>

definition sample_events :: "engine_event list" where
  "sample_events =
     [Ev_start True,
      Ev_test, Ev_next (Next_packet (sample_packet 60)) None,
      Ev_test, Ev_next (Next_packet (sample_packet 70)) None,
      Ev_test, Ev_next (Next_packet (sample_packet 80)) (Some 1),
      Ev_drain 1 [sample_packet 60]]"

definition sample_engine :: CaptureEngine where
  "sample_engine =
     \<lparr>capacity = 2, queue = [sample_packet 70],
      counters = zero_counters\<lparr>packets := 3, wire_total := 210, metadata_dropped := 1,
        kernel_dropped := Some 1, running := True\<rparr>,
      started = True, worker = At_head, stop_requested = False\<rparr>"

lemmas engine_defs = start_def loop_test_def run_round_def enqueue_def count_packet_def
  set_kernel_dropped_def run_exit_def request_stop_def joinable_def join_def drain_def

lemma fresh_engine: "new_engine True 2 = Inr \<lparr>capacity = 2, queue = [], counters = zero_counters,
    started = False, worker = No_worker, stop_requested = False\<rparr>"
  by (simp add: new_engine_def)

lemma sample_trace: "engine_trace 2 sample_events sample_engine"
proof -
  have "exec_events sample_events \<lparr>capacity = 2, queue = [], counters = zero_counters,
      started = False, worker = No_worker, stop_requested = False\<rparr> = Some sample_engine"
    by (simp add: sample_events_def sample_engine_def sample_packet_def engine_defs zero_counters_def
        empty_packet_def)
  from exec_events_trace [OF trace_new [OF fresh_engine] this] show ?thesis by simp
qed

lemma sample_received:
  "received sample_events = [sample_packet 60, sample_packet 70, sample_packet 80]"
  "drained sample_events = [sample_packet 60]"
  by (simp_all add: sample_events_def received_def drained_def)

theorem capture_queue_fifo_witness:
  "engine_trace 2 sample_events sample_engine \<and>
   subseq [sample_packet 60, sample_packet 70] [sample_packet 60, sample_packet 70, sample_packet 80]"
  using sample_trace capture_queue_fifo [OF sample_trace]
  by (simp add: sample_received sample_engine_def)

theorem capture_accounting_witness:
  "engine_trace 2 sample_events sample_engine \<and> packets (snapshot sample_engine) = 3 \<and>
   metadata_dropped (snapshot sample_engine) = 1"
  using sample_trace capture_accounting [OF sample_trace]
  by (simp add: sample_received sample_engine_def snapshot_def zero_counters_def)

definition short_events :: "engine_event list" where
  "short_events = [Ev_start True, Ev_test, Ev_next (Next_packet (sample_packet 60)) None]"

lemma short_trace: "\<exists>e. engine_trace 2 short_events e"
proof -
  have "\<exists>e. exec_events short_events \<lparr>capacity = 2, queue = [], counters = zero_counters,
      started = False, worker = No_worker, stop_requested = False\<rparr> = Some e"
    by (simp add: short_events_def engine_defs zero_counters_def)
  then show ?thesis
    using exec_events_trace [OF trace_new [OF fresh_engine]] by fastforce
qed

theorem capture_lossless_within_capacity_witness:
  "length (received short_events) \<le> 2 \<and>
   (\<exists>e. engine_trace 2 short_events e \<and> drained short_events @ queue e = received short_events)"
proof -
  have fits: "length (received short_events) \<le> 2"
    by (simp add: short_events_def received_def)
  obtain e where e: "engine_trace 2 short_events e"
    using short_trace by blast
  from capture_lossless_within_capacity [OF e fits] e fits show ?thesis by blast
qed

theorem engine_single_start_witness:
  "engine_trace 2 sample_events sample_engine \<and>
   start True sample_engine =
     (Some (Logic_error ''Capture engine can only be started once''), sample_engine)"
  using sample_trace engine_single_start [OF sample_trace, of True]
  by (simp add: sample_events_def)

theorem stop_terminates_witness:
  "worker (fold worker_advance
     (replicate 4 (Next_idle, None)) (sample_engine\<lparr>stop_requested := True\<rparr>)) = Exited"
  using stop_terminates [of "sample_engine\<lparr>stop_requested := True\<rparr>" "replicate 4 (Next_idle, None)"]
  by (simp add: sample_engine_def)

end
