(* ===== verification/Os_Env.thy ===== *)
theory Os_Env
  imports Json_Config
begin

text \<open>
  The operating system as the network controller sees it, and the programs that run against it. Each
  call to the system (a file of \<open>/proc/sys\<close>, the interface table, a Netlink transaction, a command, a
  journal write, the monotonic clock) appends one event to the trace, with the answer the system
  gave. The answers are functions of the trace so far, so an environment is any deterministic system
  whatever; the theorems quantify over it. Library functions the controller calls (\<open>inet_pton\<close>, the
  JSON reader, \<open>strerror\<close>) are fields of the same record.

  A program is a function from the environment and the controller's state to a result, which is an
  exception or a value, and the new state. \<open>emits P m\<close> says that every event \<open>m\<close> adds satisfies \<open>P\<close>.
\<close>

section \<open>Netlink messages\<close>

datatype nl_type =
    RTM_NEWLINK | RTM_DELLINK | RTM_NEWADDR | RTM_DELADDR
  | RTM_NEWROUTE | RTM_DELROUTE | RTM_NEWRULE | RTM_DELRULE | CT_DELETE

datatype nl_flag = NLM_F_REQUEST | NLM_F_ACK | NLM_F_CREATE | NLM_F_EXCL

datatype nl_protocol = NETLINK_ROUTE | NETLINK_NETFILTER

datatype rt_scope = RT_SCOPE_UNIVERSE | RT_SCOPE_LINK

text \<open>
  The fixed headers. \<open>Ifinfomsg\<close> holds the interface index and whether \<open>IFF_UP\<close> is in \<open>ifi_change\<close>
  and in \<open>ifi_flags\<close>; the fields the code always sets to the same constant are left out.
\<close>

datatype nl_header =
    Ifinfomsg u32 bool bool
  | Ifaddrmsg byte u32
  | Rtmsg rt_scope byte
  | Fib_rule_hdr byte
  | Nfgenmsg

datatype nl_attr =
    IFLA_ADDRESS "byte list"
  | IFLA_LINK u32
  | IFLA_IFNAME string
  | IFLA_LINKINFO "nl_attr list"
  | IFLA_INFO_KIND string
  | IFLA_INFO_DATA "nl_attr list"
  | IFLA_VLAN_ID u16
  | IFA_LOCAL in_addr
  | IFA_ADDRESS in_addr
  | RTA_TABLE u32
  | RTA_OIF u32
  | RTA_GATEWAY in_addr
  | RTA_DST in_addr
  | FRA_TABLE u32
  | FRA_PRIORITY u32
  | FRA_SRC in_addr
  | FRA_IIFNAME string
  | CTA_MARK in_addr
  | CTA_MARK_MASK in_addr

record nl_message =
  nl_type :: nl_type
  nl_flags :: "nl_flag list"
  nl_header :: nl_header
  nl_attrs :: "nl_attr list"

datatype errno = ENOENT | ESRCH | ENODEV | EADDRNOTAVAIL | Other_errno nat

datatype nl_reply = Nl_ack | Nl_send_failed | Nl_timeout | Nl_errno errno

section \<open>Events and environments\<close>

datatype event =
    Read_file string "string option"
  | Write_file string string bool
  | If_index string u32
  | Nl_open nl_protocol bool
  | Nl_transact nl_protocol nl_message nl_reply
  | Command "string list" string "string + string"
  | Store_put string json "string option"
  | Store_get string "string + string option"
  | Make_directories string "string option"
  | Stat_netns "nat option"
  | Lock_file string bool
  | Clock int

record env =
  pton_fun :: pton
  json_fun :: json_lib
  strerror :: "errno \<Rightarrow> string"
  read_reply :: "event list \<Rightarrow> string \<Rightarrow> string option"
  write_reply :: "event list \<Rightarrow> string \<Rightarrow> string \<Rightarrow> bool"
  index_reply :: "event list \<Rightarrow> string \<Rightarrow> u32"
  open_reply :: "event list \<Rightarrow> nl_protocol \<Rightarrow> bool"
  netlink_reply :: "event list \<Rightarrow> nl_protocol \<Rightarrow> nl_message \<Rightarrow> nl_reply"
  command_reply :: "event list \<Rightarrow> string list \<Rightarrow> string \<Rightarrow> string + string"
  put_reply :: "event list \<Rightarrow> string \<Rightarrow> json \<Rightarrow> string option"
  get_reply :: "event list \<Rightarrow> string \<Rightarrow> string + string option"
  directory_reply :: "event list \<Rightarrow> string \<Rightarrow> string option"
  netns_reply :: "event list \<Rightarrow> nat option"
  lock_reply :: "event list \<Rightarrow> string \<Rightarrow> bool"
  clock_reply :: "event list \<Rightarrow> int"

text \<open>The controller's mutable state, and the trace of its calls.\<close>

record ctl =
  enabled :: bool
  net_state :: json
  deadline :: int
  trace :: "event list"

text \<open>Programs over any environment and state; \<open>prog\<close> is the controller's instance.\<close>

type_synonym ('e, 's, 'a) act = "'e \<Rightarrow> 's \<Rightarrow> 'a result \<times> 's"

type_synonym 'a prog = "(env, ctl, 'a) act"

section \<open>Programs\<close>

definition returnP :: "'a \<Rightarrow> ('e, 's, 'a) act" where
  "returnP x E s = (Inr x, s)"

definition throwP :: "exn \<Rightarrow> ('e, 's, 'a) act" where
  "throwP e E s = (Inl e, s)"

definition bindP :: "('e, 's, 'a) act \<Rightarrow> ('a \<Rightarrow> ('e, 's, 'b) act) \<Rightarrow> ('e, 's, 'b) act" where
  "bindP m f E s = (case m E s of (Inl e, s') \<Rightarrow> (Inl e, s') | (Inr x, s') \<Rightarrow> f x E s')"

definition thenP :: "('e, 's, 'a) act \<Rightarrow> ('e, 's, 'b) act \<Rightarrow> ('e, 's, 'b) act" where
  "thenP m n = bindP m (\<lambda>_. n)"

definition liftP :: "'a result \<Rightarrow> ('e, 's, 'a) act" where
  "liftP r E s = (r, s)"

definition askP :: "('e \<Rightarrow> ('e, 's, 'a) act) \<Rightarrow> ('e, 's, 'a) act" where
  "askP f E s = f E E s"

definition getP :: "('s \<Rightarrow> ('e, 's, 'a) act) \<Rightarrow> ('e, 's, 'a) act" where
  "getP f E s = f s E s"

definition whenP :: "bool \<Rightarrow> ('e, 's, unit) act \<Rightarrow> ('e, 's, unit) act" where
  "whenP b m = (if b then m else returnP ())"

definition throw_if :: "bool \<Rightarrow> exn \<Rightarrow> ('e, 's, unit) act" where
  "throw_if b e = (if b then throwP e else returnP ())"

text \<open>\<open>catch (const std::exception&)\<close>.\<close>

definition catchP :: "('e, 's, 'a) act \<Rightarrow> (exn \<Rightarrow> ('e, 's, 'a) act) \<Rightarrow> ('e, 's, 'a) act" where
  "catchP m h E s = (case m E s of
     (Inl e, s') \<Rightarrow> if is_std_exception e then h e E s' else (Inl e, s')
   | (Inr x, s') \<Rightarrow> (Inr x, s'))"

fun run_steps :: "('e, 's, unit) act list \<Rightarrow> ('e, 's, unit) act" where
  "run_steps [] = returnP ()"
| "run_steps (m # ms) = thenP m (run_steps ms)"

text \<open>
  \<open>state_[k] = v\<close> and \<open>state_[k]\<close> read in place: the library throws unless the value is null or an object,
  and reading a missing member inserts it as null.
\<close>

definition indexable :: "json \<Rightarrow> bool" where
  "indexable v \<longleftrightarrow> v = JNull \<or> is_object v"

definition jtouch :: "json \<Rightarrow> string \<Rightarrow> json" where
  "jtouch v k = (if is_member v k then v else jset v k JNull)"

definition set_state :: "string \<Rightarrow> json \<Rightarrow> unit prog" where
  "set_state k v E s =
     (if indexable (net_state s) then (Inr (), s\<lparr>net_state := jset (net_state s) k v\<rparr>)
      else (Inl Json_exception, s))"

definition state_at :: "string \<Rightarrow> json prog" where
  "state_at k E s =
     (if indexable (net_state s)
      then (Inr (jfield (net_state s) k), s\<lparr>net_state := jtouch (net_state s) k\<rparr>)
      else (Inl Json_exception, s))"

definition set_deadline :: "int \<Rightarrow> unit prog" where
  "set_deadline t E s = (Inr (), s\<lparr>deadline := t\<rparr>)"

definition emit :: "event \<Rightarrow> ctl \<Rightarrow> ctl" where
  "emit ev s = s\<lparr>trace := trace s @ [ev]\<rparr>"

section \<open>System calls\<close>

definition is_space :: "char \<Rightarrow> bool" where
  "is_space c \<longleftrightarrow> code_of c = 32 \<or> (9 \<le> code_of c \<and> code_of c \<le> 13)"

text \<open>\<open>in >> value\<close>: the first token of the file.\<close>

definition first_token :: "string \<Rightarrow> string" where
  "first_token s = takeWhile (\<lambda>c. \<not> is_space c) (dropWhile is_space s)"

definition read_file :: "string \<Rightarrow> string prog" where
  "read_file path E s =
     (let r = read_reply E (trace s) path; s' = emit (Read_file path r) s
      in case r of
           None \<Rightarrow> (Inl (Runtime_error (''Cannot read '' @ path)), s')
         | Some text \<Rightarrow>
             if first_token text = [] then (Inl (Runtime_error (''Cannot read '' @ path)), s')
             else (Inr (first_token text), s'))"

definition write_file :: "string \<Rightarrow> string \<Rightarrow> unit prog" where
  "write_file path value E s =
     (let ok = write_reply E (trace s) path value; s' = emit (Write_file path value ok) s
      in if ok then (Inr (), s') else (Inl (Runtime_error (''Cannot write '' @ path)), s'))"

definition if_nametoindex :: "string \<Rightarrow> u32 prog" where
  "if_nametoindex name E s =
     (let i = index_reply E (trace s) (c_str name) in (Inr i, emit (If_index (c_str name) i) s))"

definition index_of :: "string \<Rightarrow> u32 prog" where
  "index_of name = bindP (if_nametoindex name) (\<lambda>index.
     if index = 0 then throwP (Runtime_error (''Missing interface '' @ name)) else returnP index)"

definition ipv4 :: "string \<Rightarrow> in_addr prog" where
  "ipv4 value = askP (\<lambda>E. case pton_fun E (c_str value) of
     None \<Rightarrow> throwP (Invalid_argument ''Invalid IPv4'') | Some address \<Rightarrow> returnP address)"

definition command :: "string list \<Rightarrow> string \<Rightarrow> string prog" where
  "command argv input E s =
     (let r = command_reply E (trace s) argv input; s' = emit (Command argv input r) s
      in case r of Inl message \<Rightarrow> (Inl (Runtime_error message), s') | Inr output \<Rightarrow> (Inr output, s'))"

definition put_state :: "unit prog" where
  "put_state E s =
     (let r = put_reply E (trace s) ''network'' (net_state s);
          s' = emit (Store_put ''network'' (net_state s) r) s
      in case r of Some message \<Rightarrow> (Inl (Runtime_error message), s') | None \<Rightarrow> (Inr (), s'))"

definition now :: "int prog" where
  "now E s = (let t = clock_reply E (trace s) in (Inr t, emit (Clock t) s))"

definition create_directories :: "string \<Rightarrow> unit prog" where
  "create_directories path E s =
     (let r = directory_reply E (trace s) path; s' = emit (Make_directories path r) s
      in case r of Some message \<Rightarrow> (Inl (Runtime_error message), s') | None \<Rightarrow> (Inr (), s'))"

definition stat_netns :: "nat option prog" where
  "stat_netns E s = (let r = netns_reply E (trace s) in (Inr r, emit (Stat_netns r) s))"

definition lock_file :: "string \<Rightarrow> bool prog" where
  "lock_file path E s = (let ok = lock_reply E (trace s) path in (Inr ok, emit (Lock_file path ok) s))"

definition parse_jsonP :: "string \<Rightarrow> json prog" where
  "parse_jsonP text = askP (\<lambda>E. liftP (parse_json (json_fun E) text))"

definition as_stringP :: "json \<Rightarrow> string prog" where
  "as_stringP v = askP (\<lambda>E. liftP (as_string (json_fun E) v))"

text \<open>\<open>Store::get\<close>: null when the table has no such key.\<close>

definition store_get :: "string \<Rightarrow> json prog" where
  "store_get key E s =
     (let r = get_reply E (trace s) key; s' = emit (Store_get key r) s
      in case r of
           Inl message \<Rightarrow> (Inl (Runtime_error message), s')
         | Inr None \<Rightarrow> (Inr JNull, s')
         | Inr (Some text) \<Rightarrow> parse_jsonP text E s')"

section \<open>Running programs\<close>

lemma bindP_simps [simp]:
  "bindP (returnP x) f = f x"
  "bindP (throwP e) f = throwP e"
  by (simp_all add: bindP_def returnP_def throwP_def fun_eq_iff)

lemma bindP_assoc: "bindP (bindP m f) g = bindP m (\<lambda>x. bindP (f x) g)"
  by (auto simp: bindP_def fun_eq_iff split: prod.splits sum.splits)

lemma run_steps_append: "run_steps (ms @ ns) = thenP (run_steps ms) (run_steps ns)"
  by (induction ms) (simp_all add: thenP_def bindP_assoc)

lemma bindP_Inr:
  "bindP m f E s = (Inr y, t) \<longleftrightarrow> (\<exists>x s'. m E s = (Inr x, s') \<and> f x E s' = (Inr y, t))"
  by (auto simp: bindP_def split: prod.splits sum.splits)

lemma thenP_Inr:
  "thenP m n E s = (Inr y, t) \<longleftrightarrow> (\<exists>x s'. m E s = (Inr x, s') \<and> n E s' = (Inr y, t))"
  by (simp add: thenP_def bindP_Inr)

lemma throw_if_Inr [simp]: "throw_if b e E s = (Inr x, t) \<longleftrightarrow> \<not> b \<and> t = s"
  by (auto simp: throw_if_def throwP_def returnP_def)

text \<open>Running a sequence from its first step.\<close>

lemma run_first:
  "m E s = (Inr x, s') \<Longrightarrow> bindP m f E s = f x E s'"
  "m E s = (Inl e, s') \<Longrightarrow> bindP m f E s = (Inl e, s')"
  "m E s = (Inr x, s') \<Longrightarrow> thenP m n E s = n E s'"
  "m E s = (Inl e, s') \<Longrightarrow> thenP m n E s = (Inl e, s')"
  by (simp_all add: bindP_def thenP_def)

lemma thenP_bindP: "thenP (bindP m f) n = bindP m (\<lambda>x. thenP (f x) n)"
  by (simp add: thenP_def bindP_assoc)

lemma thenP_return [simp]: "thenP m (returnP ()) = m"
  by (auto simp: thenP_def bindP_def returnP_def fun_eq_iff split: prod.splits sum.splits)

lemma run_throw_if: "thenP (throw_if b e) n E s = (if b then (Inl e, s) else n E s)"
  by (simp add: throw_if_def throwP_def returnP_def thenP_def bindP_def)

section \<open>Events a program can add\<close>

text \<open>
  \<open>emits P m\<close>: every event \<open>m\<close> adds satisfies \<open>P\<close>, \<open>m\<close> leaves the controller's state as it was, up
  to members read as null, and whatever \<open>m\<close> throws is a \<open>std::exception\<close>.
\<close>

definition same_state :: "ctl \<Rightarrow> ctl \<Rightarrow> bool" where
  "same_state s t \<longleftrightarrow>
     (\<forall>k. jfield (net_state t) k = jfield (net_state s) k) \<and>
     indexable (net_state t) = indexable (net_state s) \<and>
     enabled t = enabled s \<and> deadline t = deadline s"

lemma same_state_refl [simp]: "same_state s s"
  by (simp add: same_state_def)

lemma same_state_trans: "same_state s t \<Longrightarrow> same_state t u \<Longrightarrow> same_state s u"
  by (simp add: same_state_def)

lemma same_state_trace [simp]: "same_state s (s\<lparr>trace := evs\<rparr>)"
  by (simp add: same_state_def)

definition emits :: "(event \<Rightarrow> bool) \<Rightarrow> 'a prog \<Rightarrow> bool" where
  "emits P m \<longleftrightarrow> (\<forall>E s. fst (m E s) \<noteq> Inl Foreign_exception \<and> same_state s (snd (m E s)) \<and>
     (\<exists>evs. trace (snd (m E s)) = trace s @ evs \<and> list_all P evs))"

lemma emitsI:
  "(\<And>E s. fst (m E s) \<noteq> Inl Foreign_exception \<and> same_state s (snd (m E s)) \<and> (\<exists>evs. trace (snd (m E s)) = trace s @ evs \<and> list_all P evs))
   \<Longrightarrow> emits P m"
  by (simp add: emits_def)

lemma emitsD:
  assumes "emits P m" "m E s = (r, t)"
  obtains evs where "trace t = trace s @ evs" "list_all P evs" "same_state s t"
    "r \<noteq> Inl Foreign_exception"
  using assms by (metis emits_def fst_conv snd_conv)

lemma emits_mono: "emits P m \<Longrightarrow> (\<And>e. P e \<Longrightarrow> Q e) \<Longrightarrow> emits Q m"
  unfolding emits_def by (metis list.pred_mono_strong)

named_theorems emits_rules

lemma emits_returnP [emits_rules]: "emits P (returnP x)"
  by (simp add: emits_def returnP_def)

lemma emits_throwP [emits_rules]: "e \<noteq> Foreign_exception \<Longrightarrow> emits P (throwP e)"
  by (simp add: emits_def throwP_def)

lemma emits_liftP [emits_rules]: "r \<noteq> Inl Foreign_exception \<Longrightarrow> emits P (liftP r)"
  by (simp add: emits_def liftP_def)

lemma emits_bindP [emits_rules]:
  assumes "emits P m" "\<And>x. emits P (f x)"
  shows "emits P (bindP m f)"
proof (rule emitsI)
  fix E s
  obtain r t where m: "m E s = (r, t)" by (cases "m E s")
  obtain evs where evs: "trace t = trace s @ evs" "list_all P evs" "same_state s t"
      "r \<noteq> Inl Foreign_exception"
    using emitsD [OF assms(1) m] .
  show "fst (bindP m f E s) \<noteq> Inl Foreign_exception \<and> same_state s (snd (bindP m f E s)) \<and>
      (\<exists>evs. trace (snd (bindP m f E s)) = trace s @ evs \<and> list_all P evs)"
  proof (cases r)
    case (Inl e)
    with m evs show ?thesis by (auto simp: bindP_def intro: same_state_trans)
  next
    case (Inr x)
    obtain r' t' where f: "f x E t = (r', t')" by (cases "f x E t")
    obtain evs' where "trace t' = trace t @ evs'" "list_all P evs'" "same_state t t'"
        "r' \<noteq> Inl Foreign_exception"
      using emitsD [OF assms(2) f] .
    with m evs f Inr show ?thesis by (auto simp: bindP_def intro: same_state_trans)
  qed
qed

lemma emits_thenP [emits_rules]: "emits P m \<Longrightarrow> emits P n \<Longrightarrow> emits P (thenP m n)"
  by (simp add: thenP_def emits_bindP)

lemma emits_askP [emits_rules]: "(\<And>E. emits P (f E)) \<Longrightarrow> emits P (askP f)"
  by (simp add: emits_def askP_def)

lemma emits_getP [emits_rules]: "(\<And>s. emits P (f s)) \<Longrightarrow> emits P (getP f)"
  by (simp add: emits_def getP_def)

lemma emits_whenP [emits_rules]: "emits P m \<Longrightarrow> emits P (whenP b m)"
  by (simp add: whenP_def emits_returnP)

lemma emits_throw_if [emits_rules]: "e \<noteq> Foreign_exception \<Longrightarrow> emits P (throw_if b e)"
  by (simp add: throw_if_def emits_returnP emits_throwP)

lemma emits_if [emits_rules]: "emits P m \<Longrightarrow> emits P n \<Longrightarrow> emits P (if b then m else n)"
  by simp

lemma emits_option [emits_rules]:
  "emits P m \<Longrightarrow> (\<And>x. emits P (f x)) \<Longrightarrow> emits P (case v of None \<Rightarrow> m | Some x \<Rightarrow> f x)"
  by (cases v) simp_all

lemma jfield_jtouch [simp]: "jfield (jtouch v k) j = jfield v j"
  by (auto simp: jtouch_def jfield_not_member)

lemma indexable_jset [simp]: "indexable (jset v k x)"
  by (simp add: indexable_def)

lemma indexable_jtouch [simp]: "indexable v \<Longrightarrow> indexable (jtouch v k)"
  by (simp add: jtouch_def)

lemma emits_state_at [emits_rules]: "emits P (state_at k)"
  by (rule emitsI) (auto simp: state_at_def same_state_def)

lemma emits_run_steps [emits_rules]: "(\<And>m. m \<in> set ms \<Longrightarrow> emits P m) \<Longrightarrow> emits P (run_steps ms)"
  by (induction ms) (simp_all add: emits_rules)

lemma emits_catchP [emits_rules]:
  assumes "emits P m" "\<And>e. emits P (h e)"
  shows "emits P (catchP m h)"
proof (rule emitsI)
  fix E s
  obtain r t where m: "m E s = (r, t)" by (cases "m E s")
  obtain evs where evs: "trace t = trace s @ evs" "list_all P evs" "same_state s t"
      "r \<noteq> Inl Foreign_exception"
    using emitsD [OF assms(1) m] .
  show "fst (catchP m h E s) \<noteq> Inl Foreign_exception \<and> same_state s (snd (catchP m h E s)) \<and>
      (\<exists>evs. trace (snd (catchP m h E s)) = trace s @ evs \<and> list_all P evs)"
  proof (cases "\<exists>e. r = Inl e \<and> is_std_exception e")
    case True
    then obtain e where e: "r = Inl e" "is_std_exception e" by blast
    obtain r' t' where h: "h e E t = (r', t')" by (cases "h e E t")
    obtain evs' where "trace t' = trace t @ evs'" "list_all P evs'" "same_state t t'"
        "r' \<noteq> Inl Foreign_exception"
      using emitsD [OF assms(2) h] .
    with m evs h e show ?thesis by (auto simp: catchP_def intro: same_state_trans)
  next
    case False
    with m evs show ?thesis by (auto simp: catchP_def is_std_exception_def split: sum.splits)
  qed
qed

text \<open>The primitive calls.\<close>

lemma emits_read_file: "(\<And>r. P (Read_file path r)) \<Longrightarrow> emits P (read_file path)"
  by (rule emitsI) (auto simp: read_file_def emit_def Let_def split: option.splits)

lemma emits_write_file: "(\<And>ok. P (Write_file path v ok)) \<Longrightarrow> emits P (write_file path v)"
  by (rule emitsI) (auto simp: write_file_def emit_def Let_def)

lemma emits_if_nametoindex: "(\<And>i. P (If_index (c_str name) i)) \<Longrightarrow> emits P (if_nametoindex name)"
  by (rule emitsI) (auto simp: if_nametoindex_def emit_def Let_def)

lemma emits_index_of: "(\<And>i. P (If_index (c_str name) i)) \<Longrightarrow> emits P (index_of name)"
  by (simp add: index_of_def emits_rules emits_if_nametoindex)

lemma emits_ipv4 [emits_rules]: "emits P (ipv4 v)"
  unfolding ipv4_def by (intro emits_rules) simp

lemma emits_command: "(\<And>r. P (Command argv input r)) \<Longrightarrow> emits P (command argv input)"
  by (rule emitsI) (auto simp: command_def emit_def Let_def split: sum.splits)

lemma emits_put_state: "(\<And>v r. P (Store_put ''network'' v r)) \<Longrightarrow> emits P put_state"
  by (rule emitsI) (auto simp: put_state_def emit_def Let_def split: option.splits)

lemma emits_store_get: "(\<And>r. P (Store_get key r)) \<Longrightarrow> emits P (store_get key)"
  by (rule emitsI)
    (auto simp: store_get_def parse_jsonP_def askP_def liftP_def emit_def Let_def
      split: sum.splits option.splits)

lemma emits_create_directories: "(\<And>r. P (Make_directories path r)) \<Longrightarrow> emits P (create_directories path)"
  by (rule emitsI) (auto simp: create_directories_def emit_def Let_def split: option.splits)

lemma emits_stat_netns: "(\<And>r. P (Stat_netns r)) \<Longrightarrow> emits P stat_netns"
  by (rule emitsI) (auto simp: stat_netns_def emit_def Let_def)

lemma emits_lock_file: "(\<And>r. P (Lock_file path r)) \<Longrightarrow> emits P (lock_file path)"
  by (rule emitsI) (auto simp: lock_file_def emit_def Let_def)

lemma emits_now: "(\<And>t. P (Clock t)) \<Longrightarrow> emits P now"
  by (rule emitsI) (auto simp: now_def emit_def Let_def)

lemma emits_parse_jsonP [emits_rules]: "emits P (parse_jsonP t)"
  unfolding parse_jsonP_def by (intro emits_rules) simp

lemma emits_as_stringP [emits_rules]: "emits P (as_stringP v)"
  unfolding as_stringP_def by (intro emits_rules) simp

end
