(* ===== verification/Netlink.thy ===== *)
theory Netlink
  imports Os_Env
begin

text \<open>
  Acknowledged Netlink transactions and the operations built on them, the first part of
  \<open>src/network.cpp\<close>: link state and MAC address, the VLAN interface, addresses, the two routes of
  table 4242, the policy rule, and the deletion of marked connections. The lemmas give the content of
  the messages: a validated MAC is sent as its six bytes, and the outer route is the outer block.
\<close>

section \<open>Transactions\<close>

definition table_id :: u32 where
  "table_id = 4242"

definition rule_priority :: u32 where
  "rule_priority = 10424"

definition missing_errno :: "errno \<Rightarrow> bool" where
  "missing_errno e \<longleftrightarrow> e = ENOENT \<or> e = ESRCH \<or> e = ENODEV \<or> e = EADDRNOTAVAIL"

definition nl_open :: "nl_protocol \<Rightarrow> unit prog" where
  "nl_open proto E s =
     (let ok = open_reply E (trace s) proto; s' = emit (Nl_open proto ok) s
      in if ok then (Inr (), s') else (Inl (Runtime_error ''Cannot open Netlink socket''), s'))"

definition nl_transact :: "nl_protocol \<Rightarrow> nl_message \<Rightarrow> bool \<Rightarrow> unit prog" where
  "nl_transact proto msg missing_ok E s =
     (let r = netlink_reply E (trace s) proto msg; s' = emit (Nl_transact proto msg r) s
      in case r of
           Nl_ack \<Rightarrow> (Inr (), s')
         | Nl_send_failed \<Rightarrow> (Inl (Runtime_error ''Netlink send failed''), s')
         | Nl_timeout \<Rightarrow> (Inl (Runtime_error ''Netlink acknowledgement timed out''), s')
         | Nl_errno e \<Rightarrow>
             if missing_ok \<and> missing_errno e then (Inr (), s')
             else (Inl (Runtime_error (''Netlink: '' @ strerror E e)), s'))"

text \<open>The template: open, let \<open>fill\<close> complete the message, send it and wait for the answer.\<close>

definition netlink ::
    "nl_type \<Rightarrow> nl_flag list \<Rightarrow> (nl_header \<times> nl_attr list) prog \<Rightarrow> bool \<Rightarrow> nl_protocol \<Rightarrow> unit prog"
  where
  "netlink type flags fill missing_ok proto =
     thenP (nl_open proto) (bindP fill (\<lambda>(header, attrs).
       nl_transact proto
         \<lparr>nl_type = type, nl_flags = [NLM_F_REQUEST, NLM_F_ACK] @ flags, nl_header = header,
          nl_attrs = attrs\<rparr> missing_ok))"

definition add_flags :: "bool \<Rightarrow> nl_flag list" where
  "add_flags add = (if add then [NLM_F_CREATE, NLM_F_EXCL] else [])"

section \<open>MAC text\<close>

text \<open>\<open>std::stoul(text, nullptr, 16)\<close> on at most two characters.\<close>

definition is_hex :: "char \<Rightarrow> bool" where
  "is_hex c \<longleftrightarrow> is_digit_in 16 c"

definition strip_sign :: "string \<Rightarrow> bool \<times> string" where
  "strip_sign s = (case s of
     [] \<Rightarrow> (False, [])
   | c # cs \<Rightarrow> if c = CHR ''-'' then (True, cs) else if c = CHR ''+'' then (False, cs) else (False, s))"

definition strip_0x :: "string \<Rightarrow> string" where
  "strip_0x s = (case s of
     z # x # d # cs \<Rightarrow>
       if z = CHR ''0'' \<and> (x = CHR ''x'' \<or> x = CHR ''X'') \<and> is_hex d then d # cs else s
   | _ \<Rightarrow> s)"

definition stoul16 :: "string \<Rightarrow> u64 result" where
  "stoul16 s =
     (let (neg, t) = strip_sign (dropWhile is_space s); ds = takeWhile is_hex (strip_0x t);
          n = of_nat (digits_val 16 ds)
      in if ds = [] then Inl (Invalid_argument ''stoul'') else Inr (if neg then - n else n))"

definition mac_octet :: "string \<Rightarrow> nat \<Rightarrow> byte result" where
  "mac_octet mac i =
     guard_exn (length mac < i * 3) Out_of_range
       (ebind (stoul16 (take 2 (drop (i * 3) mac))) (\<lambda>n. Inr (ucast n)))"

fun mac_octets :: "string \<Rightarrow> nat list \<Rightarrow> byte list result" where
  "mac_octets mac [] = Inr []"
| "mac_octets mac (i # is) =
     ebind (mac_octet mac i) (\<lambda>b. ebind (mac_octets mac is) (\<lambda>bs. Inr (b # bs)))"

section \<open>Operations\<close>

definition link_state :: "string \<Rightarrow> bool \<Rightarrow> string \<Rightarrow> unit prog" where
  "link_state name up mac =
     netlink RTM_NEWLINK []
       (bindP (index_of name) (\<lambda>i.
          if mac = [] then returnP (Ifinfomsg i True up, [])
          else bindP (liftP (mac_octets mac [0..<6])) (\<lambda>bytes.
                 returnP (Ifinfomsg i True up, [IFLA_ADDRESS bytes]))))
       False NETLINK_ROUTE"

text \<open>Called with \<open>add\<close> only for a tagged configuration.\<close>

definition vlan :: "NetworkConfig \<Rightarrow> bool \<Rightarrow> unit prog" where
  "vlan c add =
     bindP (if add then returnP 1 else if_nametoindex ''mbx-outer'') (\<lambda>present.
       whenP (present \<noteq> 0)
        (netlink (if add then RTM_NEWLINK else RTM_DELLINK) (add_flags add)
          (if \<not> add
           then bindP (index_of ''mbx-outer'') (\<lambda>i. returnP (Ifinfomsg i False False, []))
           else bindP (index_of (outer_interface c)) (\<lambda>i.
                  returnP (Ifinfomsg 0 False False,
                    [IFLA_LINK i, IFLA_IFNAME ''mbx-outer'',
                     IFLA_LINKINFO [IFLA_INFO_KIND ''vlan'',
                       IFLA_INFO_DATA [IFLA_VLAN_ID (case vlan_id c of None \<Rightarrow> 0 | Some v \<Rightarrow> v)]]])))
          (\<not> add) NETLINK_ROUTE))"

definition address :: "string \<Rightarrow> string \<Rightarrow> u32 \<Rightarrow> bool \<Rightarrow> unit prog" where
  "address iface ip prefix add =
     netlink (if add then RTM_NEWADDR else RTM_DELADDR) (add_flags add)
       (bindP (index_of iface) (\<lambda>i.
        bindP (ipv4 ip) (\<lambda>a. returnP (Ifaddrmsg (ucast prefix) i, [IFA_LOCAL a, IFA_ADDRESS a]))))
       (\<not> add) NETLINK_ROUTE"

definition outer_name :: "NetworkConfig \<Rightarrow> string" where
  "outer_name c = (if vlan_id c \<noteq> None then ''mbx-outer'' else outer_interface c)"

definition route :: "NetworkConfig \<Rightarrow> bool \<Rightarrow> bool \<Rightarrow> unit prog" where
  "route c gateway add =
     netlink (if add then RTM_NEWROUTE else RTM_DELROUTE) (add_flags add)
       (bindP (index_of (outer_name c)) (\<lambda>i.
          if gateway
          then bindP (ipv4 (outer_gateway_ipv4 c)) (\<lambda>g.
                 returnP (Rtmsg RT_SCOPE_UNIVERSE 0, [RTA_TABLE table_id, RTA_OIF i, RTA_GATEWAY g]))
          else bindP (ipv4 (outer_ipv4 c)) (\<lambda>a.
                 returnP (Rtmsg RT_SCOPE_LINK (ucast (outer_prefix c)),
                   [RTA_TABLE table_id, RTA_OIF i,
                    RTA_DST (htonl (ntohl a AND prefix_mask (outer_prefix c)))]))))
       (\<not> add) NETLINK_ROUTE"

definition rule :: "NetworkConfig \<Rightarrow> bool \<Rightarrow> unit prog" where
  "rule c add =
     netlink (if add then RTM_NEWRULE else RTM_DELRULE) (add_flags add)
       (bindP (ipv4 (device_ipv4 c)) (\<lambda>d.
          returnP (Fib_rule_hdr 32,
            [FRA_TABLE table_id, FRA_PRIORITY rule_priority, FRA_SRC d,
             FRA_IIFNAME (c_str (inner_interface c))])))
       (\<not> add) NETLINK_ROUTE"

definition connection_mark :: u32 where
  "connection_mark = 0x4d425800"

definition clear_connections :: "unit prog" where
  "clear_connections =
     netlink CT_DELETE [] (returnP (Nfgenmsg,
       [CTA_MARK (htonl connection_mark), CTA_MARK_MASK (htonl 0xffffffff)]))
       False NETLINK_NETFILTER"

section \<open>Events of the operations\<close>

lemma mac_octets_std [simp]: "mac_octets mac is \<noteq> Inl Foreign_exception"
proof (induction "is")
  case (Cons i "is")
  have "mac_octet mac i \<noteq> Inl Foreign_exception"
    by (auto simp: mac_octet_def guard_exn_def stoul16_def ebind_def Let_def split: prod.splits)
  with Cons show ?case by (simp add: ebind_std)
qed simp

lemma emits_nl_open: "(\<And>ok. P (Nl_open proto ok)) \<Longrightarrow> emits P (nl_open proto)"
  by (rule emitsI) (auto simp: nl_open_def emit_def Let_def)

lemma emits_nl_transact: "(\<And>r. P (Nl_transact proto msg r)) \<Longrightarrow> emits P (nl_transact proto msg ok)"
  by (rule emitsI) (auto simp: nl_transact_def emit_def Let_def split: nl_reply.splits)

lemma emits_netlink:
  assumes "\<And>ok. P (Nl_open proto ok)" "emits P fill"
    and "\<And>msg r. nl_type msg = t \<Longrightarrow> P (Nl_transact proto msg r)"
  shows "emits P (netlink t flags fill ok proto)"
  unfolding netlink_def split_def
  by (intro emits_rules emits_nl_open emits_nl_transact assms) simp

text \<open>
  Which Netlink messages an operation may send: the types it names, interface queries and socket
  openings besides.
\<close>

fun nl_only :: "nl_type set \<Rightarrow> event \<Rightarrow> bool" where
  "nl_only T (If_index _ _) = True"
| "nl_only T (Nl_open _ _) = True"
| "nl_only T (Nl_transact _ msg _) = (nl_type msg \<in> T)"
| "nl_only T _ = False"

lemma emits_nl_only:
  "emits (nl_only {RTM_NEWLINK}) (link_state name up mac)"
  "emits (nl_only {RTM_NEWLINK, RTM_DELLINK}) (vlan c add)"
  "emits (nl_only {RTM_NEWADDR, RTM_DELADDR}) (address iface ip prefix add)"
  "emits (nl_only {RTM_NEWROUTE, RTM_DELROUTE}) (route c gateway add)"
  "emits (nl_only {RTM_NEWRULE, RTM_DELRULE}) (rule c add)"
  "emits (nl_only {CT_DELETE}) clear_connections"
  unfolding link_state_def vlan_def address_def route_def rule_def clear_connections_def
  by (intro emits_rules emits_netlink emits_index_of emits_if_nametoindex; simp)+

section \<open>The MAC address that is sent\<close>

lemma hex_not_space: "is_digit_in 16 c \<Longrightarrow> \<not> is_space c"
  by (auto simp: is_digit_in_def digit_val_def char_class_defs is_space_def split: if_splits)

lemma hex_not_sign: "is_digit_in 16 c \<Longrightarrow> c \<noteq> CHR ''-'' \<and> c \<noteq> CHR ''+''"
  by (auto simp: is_digit_in_def digit_val_def char_class_defs)

lemma from_chars_whole:
  assumes "from_chars 16 s = Some (b, [])"
  shows "list_all (is_digit_in 16) s \<and> b = of_nat (digits_val 16 s)"
proof -
  have "dropWhile (is_digit_in 16) s = []"
    using assms by (auto simp: from_chars_def Let_def split: if_splits)
  then have all: "list_all (is_digit_in 16) s"
    by (simp add: list_all_iff)
  then have tw: "takeWhile (is_digit_in 16) s = s"
    by (simp add: list_all_iff)
  show ?thesis
    using assms all by (simp add: from_chars_def Let_def tw split: if_splits)
qed

lemma stoul16_two_digits:
  assumes "list_all (is_digit_in 16) [x, y]"
  shows "stoul16 [x, y] = Inr (of_nat (digits_val 16 [x, y]))"
  using assms hex_not_space hex_not_sign
  by (simp add: stoul16_def strip_sign_def strip_0x_def is_hex_def)

lemma ucast_of_nat_byte: "(ucast (of_nat n :: u64) :: byte) = ucast (of_nat n :: u32)"
  by (simp add: word_unat_eq_iff unat_of_nat unsigned_ucast_eq take_bit_eq_mod mod_mod_cancel)

lemma mac_byte_octet:
  assumes "length mac = 17" "i < 6" "mac_byte mac i = Some b"
  shows "mac_octet mac i = Inr (ucast b)"
proof -
  have "from_chars 16 (take 2 (drop (i * 3) mac)) = Some (b, [])"
    using assms(3) by (auto simp: mac_byte_def Let_def split: option.splits if_splits)
  then have hex: "list_all (is_digit_in 16) (take 2 (drop (i * 3) mac))"
    and b: "b = of_nat (digits_val 16 (take 2 (drop (i * 3) mac)))"
    using from_chars_whole by blast+
  have "length (take 2 (drop (i * 3) mac)) = 2"
    using assms(1,2) by simp
  then obtain x y where xy: "take 2 (drop (i * 3) mac) = [x, y]"
    using list_2_cases by blast
  show ?thesis
    using stoul16_two_digits [of x y] hex b assms(1,2) ucast_of_nat_byte
    unfolding mac_octet_def xy by simp
qed

lemma mac_octets_those:
  assumes "length mac = 17" "\<forall>i \<in> set is. i < 6" "those (map (mac_byte mac) is) = Some bytes"
  shows "mac_octets mac is = Inr (map ucast bytes)"
  using assms
proof (induction "is" arbitrary: bytes)
  case (Cons i "is")
  then obtain b bs where "mac_byte mac i = Some b" "those (map (mac_byte mac) is) = Some bs"
      "bytes = b # bs"
    by (auto split: option.splits)
  with Cons mac_byte_octet [of mac i b] show ?case by simp
qed simp

lemma length_those: "those xs = Some ys \<Longrightarrow> length ys = length xs"
  by (induction xs arbitrary: ys) (auto split: option.splits)

lemma those_elems: "those xs = Some ys \<Longrightarrow> y \<in> set ys \<Longrightarrow> Some y \<in> set xs"
  by (induction xs arbitrary: ys) (auto split: option.splits)

lemma mac_byte_small:
  assumes "mac_byte mac i = Some b"
  shows "unat b < 256"
proof -
  let ?t = "take 2 (drop (i * 3) mac)"
  have "from_chars 16 ?t = Some (b, [])"
    using assms by (auto simp: mac_byte_def Let_def split: option.splits if_splits)
  then have hex: "list_all (is_digit_in 16) ?t" and b: "b = of_nat (digits_val 16 ?t)"
    using from_chars_whole by blast+
  have "length ?t \<le> 2" by simp
  then consider "?t = []" | x where "?t = [x]" | x y where "?t = [x, y]"
    using list_upto_2_cases by blast
  then have "digits_val 16 ?t < 256"
    using hex by cases (simp_all add: digits_val_def is_digit_in_def)
  then show ?thesis
    by (simp add: b unat_of_nat take_bit_nat_eq_self)
qed

lemma ucast_u32_byte_zero: "unat (b :: u32) < 256 \<Longrightarrow> (ucast b :: byte) = 0 \<longleftrightarrow> b = 0"
  by (simp add: word_unat_eq_iff unsigned_ucast_eq take_bit_nat_eq_self)

lemma ucast_u32_byte_even: "b AND 1 = 0 \<Longrightarrow> (ucast (b :: u32) :: byte) AND 1 = 0"
  by (simp add: bit_eq_iff bit_simps)

text \<open>
  A MAC address the validator accepted is always converted, into six bytes that are not all zero and
  whose first byte has the multicast bit clear.
\<close>

lemma mac_octets_unicast:
  assumes "unicast_mac mac"
  shows "\<exists>bs. mac_octets mac [0..<6] = Inr bs \<and> length bs = 6 \<and> hd bs AND 1 = 0 \<and>
    (\<exists>b \<in> set bs. b \<noteq> 0)"
proof -
  obtain bytes where len: "length mac = 17"
    and bytes: "those (map (mac_byte mac) [0..<6]) = Some bytes"
    and nonzero: "list_ex (\<lambda>b. b \<noteq> 0) bytes" and even: "hd bytes AND 1 = 0"
    using assms by (auto simp: unicast_mac_def split: if_splits option.splits)
  have l6: "length bytes = 6"
    using length_those [OF bytes] by simp
  have small: "\<forall>b \<in> set bytes. unat b < 256"
    using those_elems [OF bytes] mac_byte_small by fastforce
  have "mac_octets mac [0..<6] = Inr (map ucast bytes)"
    using mac_octets_those [OF len _ bytes] by simp
  moreover have "hd (map ucast bytes :: byte list) AND 1 = 0"
    using even l6 ucast_u32_byte_even by (cases bytes) auto
  moreover have "\<exists>b \<in> set (map ucast bytes :: byte list). b \<noteq> 0"
    using nonzero small by (auto simp: list_ex_iff ucast_u32_byte_zero)
  ultimately show ?thesis
    using l6 by auto
qed

end
