(* ===== verification/Nft.thy ===== *)
theory Nft
  imports Netlink
begin

text \<open>
  The nftables scripts of \<open>src/network.cpp\<close>: the forwarding guard and the complete rule set. The
  scripts are built by concatenating configuration strings into text that \<open>nft\<close> parses, so the
  lemmas are about injection: with a validated configuration every interpolated string is one word of
  the script, and the punctuation of the script does not depend on the configuration.
\<close>

section \<open>Scripts\<close>

definition quoted :: "string \<Rightarrow> string" where
  "quoted s = CHR 0x22 # s @ [CHR 0x22]"

definition newline :: string where
  "newline = [CHR 0x0A]"

definition guard_script :: "NetworkConfig \<Rightarrow> string" where
  "guard_script c =
     (let i = quoted (inner_interface c); o' = quoted (outer_name c)
      in ''table inet magicbox { chain forward { type filter hook forward priority -10; policy accept; iifname { '' @
         i @ '', '' @ o' @ '' } drop; oifname { '' @ i @ '', '' @ o' @ '' } drop; }'' @ newline @
         ''}'' @ newline)"

definition ruleset :: "NetworkConfig \<Rightarrow> string" where
  "ruleset c =
     (let i = quoted (inner_interface c); o' = quoted (outer_name c)
      in ''table ip magicbox {'' @ newline @
         ''chain prerouting { type nat hook prerouting priority dstnat; policy accept; iifname '' @ o' @
           '' ip daddr '' @ outer_ipv4 c @ '' dnat to '' @ device_ipv4 c @ ''; }'' @ newline @
         ''chain postrouting { type nat hook postrouting priority srcnat; policy accept; oifname '' @ o' @
           '' ip saddr '' @ device_ipv4 c @ '' snat to '' @ outer_ipv4 c @ ''; }'' @ newline @
         ''}'' @ newline @
         ''table inet magicbox { chain forward { type filter hook forward priority -10; policy accept;'' @ newline @
         ''iifname '' @ i @ '' oifname '' @ o' @ '' ip saddr '' @ device_ipv4 c @
           '' ct mark set 0x4d425800 accept'' @ newline @
         ''iifname '' @ o' @ '' oifname '' @ i @ '' ip daddr '' @ device_ipv4 c @
           '' ct mark set 0x4d425800 accept'' @ newline @
         ''iifname { '' @ i @ '', '' @ o' @ '' } drop'' @ newline @
         ''oifname { '' @ i @ '', '' @ o' @ '' } drop'' @ newline @
         ''}'' @ newline @ ''}'' @ newline)"

definition delete_guard_script :: string where
  "delete_guard_script = ''delete table inet magicbox'' @ newline"

section \<open>The words of a script\<close>

text \<open>Words are maximal runs of letters, digits, underscore, dash and dot.\<close>

fun words_from :: "string \<Rightarrow> string \<Rightarrow> string list" where
  "words_from w [] = (if w = [] then [] else [w])"
| "words_from w (c # cs) =
     (if iface_char c then words_from (w @ [c]) cs
      else (if w = [] then [] else [w]) @ words_from [] cs)"

definition words :: "string \<Rightarrow> string list" where
  "words s = words_from [] s"

definition punctuation :: "string \<Rightarrow> string" where
  "punctuation s = filter (\<lambda>c. \<not> iface_char c) s"

lemma words_from_run: "list_all iface_char u \<Longrightarrow> words_from w (u @ s) = words_from (w @ u) s"
  by (induction u arbitrary: w) simp_all

lemma words_from_word:
  "list_all iface_char u \<Longrightarrow> u \<noteq> [] \<Longrightarrow> \<not> iface_char c \<Longrightarrow>
   words_from [] (u @ c # s) = u # words_from [] s"
  by (simp add: words_from_run)

lemma punctuation_word: "list_all iface_char u \<Longrightarrow> filter (\<lambda>c. \<not> iface_char c) u = []"
  by (induction u) simp_all

lemma dotted_iface_char: "dotted_char c \<Longrightarrow> iface_char c"
  by (auto simp: dotted_char_def iface_char_def)

text \<open>The strings a validated configuration puts into a script.\<close>

definition script_words :: "NetworkConfig \<Rightarrow> string list" where
  "script_words c = [inner_interface c, outer_name c, outer_ipv4 c, device_ipv4 c]"

lemma valid_interface_word: "valid_interface n \<Longrightarrow> list_all iface_char n \<and> n \<noteq> []"
  by (simp add: valid_interface_def)

lemma valid_script_words:
  assumes "inet_library pton" "validate pton c = []"
  shows "\<forall>w \<in> set (script_words c). list_all iface_char w \<and> w \<noteq> []"
proof -
  have top: "valid_interface (outer_interface c)" "valid_interface (inner_interface c)"
      "unicast_ipv4 pton (outer_ipv4 c)" "unicast_ipv4 pton (device_ipv4 c)"
    using assms(2) by (auto simp: validate_def syntax_errors_Nil_iff Let_def split: if_splits)
  have ip: "list_all iface_char s \<and> s \<noteq> []" if "unicast_ipv4 pton s" for s
    using inet_library.unicast_ipv4_dotted [OF assms(1) that]
      inet_library.unicast_ipv4_nonempty [OF assms(1) that] dotted_iface_char
    by (auto simp: list_all_iff)
  have "list_all iface_char (outer_name c) \<and> outer_name c \<noteq> []"
    using valid_interface_word [OF top(1)]
    by (simp add: outer_name_def iface_char_def char_class_defs)
  then show ?thesis
    using top ip valid_interface_word by (simp add: script_words_def)
qed

lemmas iface_char_eval = iface_char_def char_class_defs

text \<open>
  The intended words of the two scripts, with the inner interface, the outer interface, the device's
  address and the outer address as single words.
\<close>

definition ruleset_words :: "string \<Rightarrow> string \<Rightarrow> string \<Rightarrow> string \<Rightarrow> string list" where
  "ruleset_words i o' d x =
        [''table'', ''ip'', ''magicbox'',
         ''chain'', ''prerouting'', ''type'', ''nat'', ''hook'', ''prerouting'', ''priority'', ''dstnat'',
         ''policy'', ''accept'', ''iifname'', o', ''ip'', ''daddr'', x, ''dnat'', ''to'', d,
         ''chain'', ''postrouting'', ''type'', ''nat'', ''hook'', ''postrouting'', ''priority'', ''srcnat'',
         ''policy'', ''accept'', ''oifname'', o', ''ip'', ''saddr'', d, ''snat'', ''to'', x,
         ''table'', ''inet'', ''magicbox'', ''chain'', ''forward'', ''type'', ''filter'', ''hook'',
         ''forward'', ''priority'', ''-10'', ''policy'', ''accept'',
         ''iifname'', i, ''oifname'', o', ''ip'', ''saddr'', d,
         ''ct'', ''mark'', ''set'', ''0x4d425800'', ''accept'',
         ''iifname'', o', ''oifname'', i, ''ip'', ''daddr'', d,
         ''ct'', ''mark'', ''set'', ''0x4d425800'', ''accept'',
         ''iifname'', i, o', ''drop'', ''oifname'', i, o', ''drop'']"

definition guard_words :: "string \<Rightarrow> string \<Rightarrow> string list" where
  "guard_words i o' =
     [''table'', ''inet'', ''magicbox'', ''chain'', ''forward'', ''type'', ''filter'', ''hook'',
      ''forward'', ''priority'', ''-10'', ''policy'', ''accept'',
      ''iifname'', i, o', ''drop'', ''oifname'', i, o', ''drop'']"

lemma words_ruleset:
  assumes "\<forall>w \<in> set (script_words c). list_all iface_char w \<and> w \<noteq> []"
  shows "words (ruleset c) =
    ruleset_words (inner_interface c) (outer_name c) (device_ipv4 c) (outer_ipv4 c)"
  using assms
  by (simp add: words_def ruleset_def ruleset_words_def script_words_def quoted_def newline_def
      words_from_word iface_char_eval Let_def)

lemma words_guard:
  assumes "\<forall>w \<in> set (script_words c). list_all iface_char w \<and> w \<noteq> []"
  shows "words (guard_script c) = guard_words (inner_interface c) (outer_name c)"
  using assms
  by (simp add: words_def guard_script_def guard_words_def script_words_def quoted_def newline_def
      words_from_word iface_char_eval Let_def)

lemma punctuation_simps [simp]:
  "punctuation [] = []"
  "punctuation (c # s) = (if iface_char c then punctuation s else c # punctuation s)"
  "punctuation (s @ t) = punctuation s @ punctuation t"
  by (simp_all add: punctuation_def)

lemma punctuation_of_word: "list_all iface_char w \<Longrightarrow> punctuation w = []"
  by (simp add: punctuation_def list_all_iff)

lemma outer_name_word: "\<forall>w \<in> set (script_words c). list_all iface_char w \<and> w \<noteq> [] \<Longrightarrow>
  punctuation (outer_name c) = [] \<and> punctuation (inner_interface c) = [] \<and>
  punctuation (outer_ipv4 c) = [] \<and> punctuation (device_ipv4 c) = []"
  by (simp add: script_words_def punctuation_of_word)

lemma punctuation_quoted: "punctuation (quoted s) = CHR 0x22 # punctuation s @ [CHR 0x22]"
  by (simp add: quoted_def punctuation_def iface_char_eval)

lemma punctuation_ruleset:
  assumes "\<forall>w \<in> set (script_words c). list_all iface_char w \<and> w \<noteq> []"
  shows "punctuation (ruleset c) = punctuation (ruleset default_config)"
    and "punctuation (guard_script c) = punctuation (guard_script default_config)"
proof -
  have "punctuation (outer_name default_config) = []" "punctuation (inner_interface default_config) = []"
      "punctuation (outer_ipv4 default_config) = []" "punctuation (device_ipv4 default_config) = []"
    by (simp_all add: default_config_def outer_name_def punctuation_def)
  with outer_name_word [OF assms]
  show "punctuation (ruleset c) = punctuation (ruleset default_config)"
    and "punctuation (guard_script c) = punctuation (guard_script default_config)"
    by (simp_all add: ruleset_def guard_script_def punctuation_quoted Let_def iface_char_eval)
qed

text \<open>
  C23. No injection into the packet filter. For a configuration the validator accepts, the words of
  the scripts handed to \<open>nft\<close> are exactly the intended ones, each configuration string being a single
  word, and every other character (braces, quotes, semicolons, newlines) is the same as in the script
  with all configuration strings empty.
\<close>

theorem ruleset_no_injection:
  assumes "inet_library pton" and "validate pton c = []"
  shows "words (ruleset c) =
      ruleset_words (inner_interface c) (outer_name c) (device_ipv4 c) (outer_ipv4 c) \<and>
    words (guard_script c) = guard_words (inner_interface c) (outer_name c) \<and>
    punctuation (ruleset c) = punctuation (ruleset default_config) \<and>
    punctuation (guard_script c) = punctuation (guard_script default_config)"
  using valid_script_words [OF assms] words_ruleset words_guard punctuation_ruleset by blast

theorem ruleset_no_injection_witness:
  "words (guard_script sample_config) = guard_words ''inner0'' ''mbx-outer''"
  using ruleset_no_injection [OF dq.inet_library_axioms sample_config_valid]
  by (simp add: sample_config_def outer_name_def)

text \<open>
  The MAC address of an accepted configuration is always sent: \<open>link_state\<close> converts it without an
  exception, into six bytes of which the first is even and not all are zero.
\<close>

theorem validated_mac_sent:
  assumes "validate pton c = []"
  shows "\<exists>bytes. mac_octets (outer_mac c) [0..<6] = Inr bytes \<and> length bytes = 6 \<and>
    hd bytes AND 1 = 0 \<and> (\<exists>b \<in> set bytes. b \<noteq> 0)"
  using assms mac_octets_unicast
  by (auto simp: validate_def syntax_errors_Nil_iff Let_def split: if_splits)

theorem validated_mac_sent_witness:
  "\<exists>bytes. mac_octets ''02:11:22:33:44:55'' [0..<6] = Inr bytes \<and> length bytes = 6 \<and>
    hd bytes AND 1 = 0 \<and> (\<exists>b \<in> set bytes. b \<noteq> 0)"
  using validated_mac_sent [OF sample_config_valid] by (simp add: sample_config_def)

end
