(* ===== verification/Controller.thy ===== *)
theory Controller
  imports Nft
begin

text \<open>
  The transactional network controller, the class \<open>NetworkController\<close> of \<open>src/network.cpp\<close>: its
  construction with crash recovery, \<open>apply\<close>, \<open>install\<close>, \<open>restore\<close>, \<open>confirm\<close>, \<open>rollback\<close> and
  \<open>tick\<close>. The definitions are programs of theory Os_Env; theory Controller_Props has the properties.
\<close>

section \<open>Helpers\<close>

definition run_command :: "string list \<Rightarrow> string \<Rightarrow> unit prog" where
  "run_command argv input = bindP (command argv input) (\<lambda>_. returnP ())"

definition json_command :: "string list \<Rightarrow> json prog" where
  "json_command argv = bindP (command argv []) parse_jsonP"

definition ipv6_path :: "string \<Rightarrow> string" where
  "ipv6_path name = ''/proc/sys/net/ipv6/conf/'' @ name @ ''/disable_ipv6''"

definition rp_filter_path :: "string \<Rightarrow> string" where
  "rp_filter_path name = ''/proc/sys/net/ipv4/conf/'' @ name @ ''/rp_filter''"

definition ip_forward_path :: string where
  "ip_forward_path = ''/proc/sys/net/ipv4/ip_forward''"

definition nft_apply :: "string list" where
  "nft_apply = [''nft'', ''-f'', ''-'']"

definition delete_guard_argv :: "string list" where
  "delete_guard_argv = [''nft'', ''delete'', ''table'', ''inet'', ''magicbox'']"

fun find_table :: "string \<Rightarrow> json list \<Rightarrow> bool result" where
  "find_table family [] = Inr False"
| "find_table family (item # items) =
     ebind (jindex item ''table'') (\<lambda>table.
     ebind (jindex table ''name'') (\<lambda>name.
       if name = JString ''magicbox''
       then ebind (jindex table ''family'') (\<lambda>f.
              if f = JString family then Inr True else find_table family items)
       else find_table family items))"

definition table_exists :: "string \<Rightarrow> bool prog" where
  "table_exists family =
     bindP (json_command [''nft'', ''-j'', ''list'', ''tables'']) (\<lambda>tables.
       liftP (ebind (jindex tables ''nftables'') (\<lambda>items. find_table family (json_items items))))"

definition read_config :: "json \<Rightarrow> NetworkConfig prog" where
  "read_config v = askP (\<lambda>E. liftP (config_from_json (pton_fun E) v))"

section \<open>Preflight checks of apply\<close>

definition reserved_exists :: "bool prog" where
  "reserved_exists =
     bindP (table_exists ''ip'') (\<lambda>a. if a then returnP True else
     bindP (table_exists ''inet'') (\<lambda>b. if b then returnP True else
     bindP (if_nametoindex ''mbx-outer'') (\<lambda>i. returnP (i \<noteq> 0))))"

fun check_routes :: "json list \<Rightarrow> unit result" where
  "check_routes [] = Inr ()"
| "check_routes (r # rs) =
     ebind (jindex r ''table'') (\<lambda>t.
       if is_uint t \<and> as_uint t = table_id then Inl (Runtime_error ''Routing table 4242 is occupied'')
       else check_routes rs)"

fun check_rules :: "json list \<Rightarrow> unit result" where
  "check_rules [] = Inr ()"
| "check_rules (r # rs) =
     ebind (jindex r ''priority'') (\<lambda>p. ebind (to_uint p) (\<lambda>n.
       if n = rule_priority then Inl (Runtime_error ''Rule priority 10424 is occupied'')
       else check_rules rs))"

definition dedicated :: "string \<Rightarrow> json \<Rightarrow> json result" where
  "dedicated name info =
     (let refused = Inl (Runtime_error (name @ '' has addresses or is a bridge/bond member; dedicate unused unmanaged ports first''))
      in if name = ''lo'' then refused
         else ebind (json_is_member info ''master'') (\<lambda>master.
           if master \<or> \<not> json_empty (jfield info ''addr_info'') then refused
           else Inr (jtouch info ''addr_info'')))"

definition interface_baseline :: "string \<Rightarrow> json prog" where
  "interface_baseline name =
     bindP (index_of name) (\<lambda>_.
     bindP (json_command [''ip'', ''-j'', ''address'', ''show'', ''dev'', name]) (\<lambda>v.
     bindP (liftP (json_first v)) (\<lambda>info.
     bindP (liftP (dedicated name info)) (\<lambda>info.
     bindP (read_file (ipv6_path name)) (\<lambda>d.
     bindP (read_file (rp_filter_path name)) (\<lambda>r.
       returnP (jset (jset info ''disable_ipv6'' (JString d)) ''rp_filter'' (JString r))))))))"

definition preflight :: "NetworkConfig \<Rightarrow> json prog" where
  "preflight c =
     thenP (getP (\<lambda>s. throw_if (\<not> enabled s)
       (Runtime_error ''Network changes disabled; restart with --allow-network after assigning dedicated unmanaged ports'')))
     (bindP (state_at ''status'') (\<lambda>st.
     thenP (throw_if (st \<noteq> JString ''inactive'')
       (Runtime_error ''Rollback the current network configuration before applying another''))
     (bindP (read_config (config_json c)) (\<lambda>validated.
     bindP reserved_exists (\<lambda>reserved.
     thenP (throw_if reserved
       (Runtime_error ''Reserved WireLab Experiments network resources already exist''))
     (bindP (json_command [''ip'', ''-j'', ''route'', ''show'', ''table'', ''all'']) (\<lambda>routes.
     thenP (liftP (check_routes (json_items routes)))
     (bindP (json_command [''ip'', ''-j'', ''rule'', ''show'']) (\<lambda>rules.
     thenP (liftP (check_rules (json_items rules)))
     (bindP (interface_baseline (outer_interface c)) (\<lambda>outer.
     bindP (interface_baseline (inner_interface c)) (\<lambda>inner.
     thenP (run_command [''nft'', ''-c'', ''-f'', ''-''] (ruleset c))
       (returnP (JArray [outer, inner]))))))))))))))"

section \<open>Installation\<close>

definition install_vlan :: "NetworkConfig \<Rightarrow> unit prog list" where
  "install_vlan c =
     (if vlan_id c \<noteq> None
      then [vlan c True, write_file (ipv6_path ''mbx-outer'') ''1'',
            write_file (rp_filter_path ''mbx-outer'') ''0'', link_state (outer_name c) True []]
      else [])"

definition install_links :: "NetworkConfig \<Rightarrow> unit prog list" where
  "install_links c =
     [write_file (ipv6_path (outer_interface c)) ''1'',
      write_file (rp_filter_path (outer_interface c)) ''0'',
      write_file (ipv6_path (inner_interface c)) ''1'',
      write_file (rp_filter_path (inner_interface c)) ''0'',
      link_state (outer_interface c) False [],
      link_state (outer_interface c) False (outer_mac c),
      link_state (outer_interface c) True []] @ install_vlan c"

definition install_forwarding :: "NetworkConfig \<Rightarrow> unit prog list" where
  "install_forwarding c =
     [link_state (inner_interface c) True [],
      address (inner_interface c) (inner_gateway_ipv4 c) (inner_prefix c) True,
      address (outer_name c) (outer_ipv4 c) (outer_prefix c) True,
      route c False True, route c True True, rule c True,
      write_file ip_forward_path ''1'',
      write_file (rp_filter_path ''all'') ''0'']"

definition install :: "NetworkConfig \<Rightarrow> unit prog" where
  "install c = run_steps (install_links c @ [run_command nft_apply (guard_script c)] @
     install_forwarding c @ [run_command nft_apply (delete_guard_script @ ruleset c)])"

section \<open>Restoration\<close>

text \<open>The lambda \<open>attempt\<close>: the text it appends to \<open>errors\<close>.\<close>

definition attempt :: "unit prog \<Rightarrow> string prog" where
  "attempt action = catchP (thenP action (returnP [])) (\<lambda>e. returnP (what e @ ''; ''))"

fun attempts :: "unit prog list \<Rightarrow> string \<Rightarrow> string prog" where
  "attempts [] errors = returnP errors"
| "attempts (m # ms) errors = bindP (attempt m) (\<lambda>e. attempts ms (errors @ e))"

definition restore_guard :: "NetworkConfig \<Rightarrow> unit prog" where
  "restore_guard c =
     bindP (table_exists ''inet'') (\<lambda>present.
     thenP (run_command nft_apply ((if present then delete_guard_script else []) @ guard_script c))
       clear_connections)"

definition remove_nat :: "unit prog" where
  "remove_nat = bindP (table_exists ''ip'') (\<lambda>present.
     whenP present (run_command [''nft'', ''delete'', ''table'', ''ip'', ''magicbox''] []))"

definition remove_guard :: "unit prog" where
  "remove_guard = bindP (table_exists ''inet'') (\<lambda>present.
     whenP present (run_command delete_guard_argv []))"

definition restore_sysctl :: "string \<Rightarrow> string \<Rightarrow> unit prog" where
  "restore_sysctl path key =
     bindP (state_at key) (\<lambda>v. bindP (as_stringP v) (\<lambda>text. write_file path text))"

definition field_text :: "json \<Rightarrow> string \<Rightarrow> string prog" where
  "field_text info key = bindP (liftP (jindex info key)) as_stringP"

definition restore_interface :: "json \<Rightarrow> unit prog" where
  "restore_interface info =
     bindP (field_text info ''ifname'') (\<lambda>name.
     bindP (liftP (jindex info ''flags'')) (\<lambda>flags.
     thenP (link_state name False [])
     (bindP (field_text info ''address'') (\<lambda>mac. thenP (link_state name False mac)
     (bindP (field_text info ''disable_ipv6'') (\<lambda>d. thenP (write_file (ipv6_path name) d)
     (bindP (field_text info ''rp_filter'') (\<lambda>r. thenP (write_file (rp_filter_path name) r)
       (link_state name (JString ''UP'' \<in> set (json_items flags)) [])))))))))"

definition restore_addresses :: "NetworkConfig \<Rightarrow> u32 \<Rightarrow> unit prog list" where
  "restore_addresses c index =
     (if index \<noteq> 0
      then [route c True False, route c False False,
            address (outer_name c) (outer_ipv4 c) (outer_prefix c) False]
      else [])"

definition restore_rest :: "NetworkConfig \<Rightarrow> unit prog list" where
  "restore_rest c =
     [address (inner_interface c) (inner_gateway_ipv4 c) (inner_prefix c) False] @
     (if vlan_id c \<noteq> None then [vlan c False] else []) @
     [remove_nat,
      restore_sysctl ip_forward_path ''ip_forward'',
      restore_sysctl (rp_filter_path ''all'') ''rp_filter_all'']"

text \<open>Everything between the two journal writes, except the removal of the guard.\<close>

definition restore_work :: "NetworkConfig \<Rightarrow> string prog" where
  "restore_work c =
     bindP (attempts [restore_guard c, rule c False] []) (\<lambda>errors.
     bindP (if_nametoindex (outer_name c)) (\<lambda>index.
     bindP (attempts (restore_addresses c index) errors) (\<lambda>errors.
     bindP (attempts (restore_rest c) errors) (\<lambda>errors.
     bindP (state_at ''baseline'') (\<lambda>baseline.
       attempts (map restore_interface (json_items baseline)) errors)))))"

definition finish_restore :: "string \<Rightarrow> unit prog" where
  "finish_restore errors =
     run_steps
       [set_state ''status'' (JString (if errors = [] then ''inactive'' else ''rollback_failed'')),
        set_state ''error'' (JString errors),
        put_state,
        throw_if (errors \<noteq> []) (Runtime_error errors)]"

definition restore :: "unit prog" where
  "restore =
     bindP (state_at ''config'') (\<lambda>v.
     bindP (read_config v) (\<lambda>c.
     thenP (set_state ''status'' (JString ''rolling_back''))
     (thenP put_state
     (bindP (restore_work c) (\<lambda>errors.
     bindP (if errors = [] then attempt remove_guard else returnP errors) finish_restore)))))"

section \<open>Public operations\<close>

definition confirmation_window :: int where
  "confirmation_window = 60 * 1000000000"

definition journal :: "NetworkConfig \<Rightarrow> json \<Rightarrow> unit prog" where
  "journal c baseline =
     run_steps
       [set_state ''config'' (config_json c),
        set_state ''baseline'' baseline,
        bindP (read_file ip_forward_path) (\<lambda>v. set_state ''ip_forward'' (JString v)),
        bindP (read_file (rp_filter_path ''all'')) (\<lambda>v. set_state ''rp_filter_all'' (JString v)),
        set_state ''status'' (JString ''applying''),
        put_state]"

definition install_and_wait :: "NetworkConfig \<Rightarrow> unit prog" where
  "install_and_wait c =
     run_steps
       [install c,
        set_state ''status'' (JString ''awaiting_confirmation''),
        bindP now (\<lambda>t. set_deadline (t + confirmation_window)),
        put_state]"

definition undo :: "exn \<Rightarrow> unit prog" where
  "undo error =
     thenP (catchP restore (\<lambda>rollback_error.
       throwP (Runtime_error (what error @ ''; rollback failed: '' @ what rollback_error))))
     (throwP (Runtime_error (what error)))"

definition apply_config :: "NetworkConfig \<Rightarrow> unit prog" where
  "apply_config c =
     bindP (preflight c) (\<lambda>baseline.
     thenP (journal c baseline) (catchP (install_and_wait c) undo))"

definition tick :: "unit prog" where
  "tick =
     getP (\<lambda>s. whenP (enabled s)
       (bindP (state_at ''status'') (\<lambda>st.
        whenP (st = JString ''awaiting_confirmation'')
          (bindP now (\<lambda>t. whenP (deadline s \<le> t) restore)))))"

definition require_enabled :: "unit prog" where
  "require_enabled = getP (\<lambda>s. throw_if (\<not> enabled s) (Runtime_error ''Network changes disabled''))"

definition confirm :: "unit prog" where
  "confirm =
     thenP require_enabled
     (thenP tick
     (bindP (state_at ''status'') (\<lambda>st.
     thenP (throw_if (st \<noteq> JString ''awaiting_confirmation'') (Runtime_error ''No pending configuration''))
     (thenP (set_state ''status'' (JString ''confirmed'')) put_state))))"

definition rollback :: "unit prog" where
  "rollback =
     thenP require_enabled
     (bindP (state_at ''status'') (\<lambda>st. whenP (st \<noteq> JString ''inactive'') restore))"

definition interfaces :: "json prog" where
  "interfaces = json_command [''ip'', ''-j'', ''address'', ''show'']"

definition state_json :: "json prog" where
  "state_json =
     getP (\<lambda>s.
       if \<not> indexable (net_state s) then throwP Json_exception
       else let state = jtouch (jset (net_state s) ''enabled'' (JBool (enabled s))) ''status''
            in if jfield state ''status'' = JString ''awaiting_confirmation''
               then bindP now (\<lambda>t. returnP (jset state ''remaining_seconds''
                      (JInt (max 0 ((deadline s - t) sdiv 1000000000)))))
               else returnP state)"

section \<open>Construction\<close>

definition acquire_lock :: "unit prog" where
  "acquire_lock =
     thenP (create_directories ''/run/magicbox'')
     (bindP stat_netns (\<lambda>ns. case ns of
        None \<Rightarrow> throwP (Runtime_error ''Cannot identify network namespace'')
      | Some ino \<Rightarrow>
          bindP (lock_file (''/run/magicbox/network-'' @ to_string ino @ ''.lock'')) (\<lambda>held.
            throw_if (\<not> held) (Runtime_error ''Another controller owns this network namespace''))))"

definition load_state :: "json \<Rightarrow> unit prog" where
  "load_state v E s = (Inr (), s\<lparr>net_state := v\<rparr>)"

definition recover :: "unit prog" where
  "recover =
     bindP (state_at ''status'') (\<lambda>st.
     getP (\<lambda>s. whenP (st \<noteq> JString ''inactive'' \<and> enabled s)
       (bindP (state_at ''config'') (\<lambda>desired.
        thenP restore
        (whenP (st = JString ''confirmed'')
          (thenP (bindP (read_config desired) apply_config) confirm))))))"

definition start_controller :: "unit prog" where
  "start_controller =
     bindP (store_get ''network'') (\<lambda>v.
     thenP (load_state v)
     (thenP (getP (\<lambda>s. whenP (enabled s) acquire_lock))
     (thenP (getP (\<lambda>s. whenP (net_state s = JNull) (set_state ''status'' (JString ''inactive''))))
       recover)))"

definition new_controller :: "bool \<Rightarrow> ctl" where
  "new_controller allow = \<lparr>enabled = allow, net_state = JNull, deadline = 0, trace = []\<rparr>"

end
