(* ===== verification/Controller_Props.thy ===== *)
theory Controller_Props
  imports Controller
begin

text \<open>
  Properties of the network controller, for every environment: what each operation may do to the
  system, the order of journal writes and mutations, the fail-closed rollback and the documented state
  machine. They rest on two lemmas that give the shape of the trace of \<open>restore\<close> and of
  \<open>apply\<close>; everything else is read off these shapes.
\<close>

section \<open>Kinds of events\<close>

definition inspects :: "string list \<Rightarrow> bool" where
  "inspects argv \<longleftrightarrow>
     take 2 argv \<in> {[''nft'', ''-j''], [''ip'', ''-j''], [''nft'', ''-c'']}"

text \<open>Events that leave the kernel and the journal alone.\<close>

fun read_only :: "event \<Rightarrow> bool" where
  "read_only (Write_file _ _ _) = False"
| "read_only (Nl_transact _ _ _) = False"
| "read_only (Command argv _ _) = inspects argv"
| "read_only (Store_put _ _ _) = False"
| "read_only _ = True"

fun is_put :: "event \<Rightarrow> bool" where
  "is_put (Store_put _ _ _) = True"
| "is_put _ = False"

definition mutates :: "event \<Rightarrow> bool" where
  "mutates e \<longleftrightarrow> \<not> read_only e \<and> \<not> is_put e"

fun removes_guard :: "event \<Rightarrow> bool" where
  "removes_guard (Command argv _ _) = (argv = delete_guard_argv)"
| "removes_guard _ = False"

text \<open>Neither a journal write nor a removal of the guard.\<close>

definition plain :: "event \<Rightarrow> bool" where
  "plain e \<longleftrightarrow> \<not> is_put e \<and> \<not> removes_guard e"

lemma read_only_plain: "read_only e \<Longrightarrow> plain e"
  by (cases e) (auto simp: plain_def inspects_def delete_guard_argv_def)

lemma nl_only_plain: "nl_only T e \<Longrightarrow> plain e"
  by (cases e) (auto simp: plain_def)

section \<open>What the operations may do\<close>

lemma find_table_std [simp]: "find_table f items \<noteq> Inl Foreign_exception"
  by (induction f items rule: find_table.induct) (simp_all add: ebind_std)

lemma check_std [simp]:
  "check_routes rs \<noteq> Inl Foreign_exception" "check_rules rs \<noteq> Inl Foreign_exception"
  by (induction rs) (simp_all add: ebind_std)

lemma dedicated_std [simp]: "dedicated name info \<noteq> Inl Foreign_exception"
  by (simp add: dedicated_def Let_def ebind_std)

lemma emits_run_command: "(\<And>r. P (Command argv input r)) \<Longrightarrow> emits P (run_command argv input)"
  unfolding run_command_def by (intro emits_rules emits_command)

lemma emits_json_command: "inspects argv \<Longrightarrow> emits read_only (json_command argv)"
  unfolding json_command_def by (intro emits_rules emits_command) simp

lemma emits_read_config [emits_rules]: "emits P (read_config v)"
  unfolding read_config_def by (intro emits_rules) simp

lemma emits_table_exists: "emits read_only (table_exists f)"
  unfolding table_exists_def
  by (intro emits_rules emits_json_command) (simp_all add: inspects_def ebind_std)

lemma emits_reserved_exists: "emits read_only reserved_exists"
  unfolding reserved_exists_def
  by (intro emits_rules emits_table_exists emits_if_nametoindex) simp_all

lemma emits_interface_baseline: "emits read_only (interface_baseline name)"
  unfolding interface_baseline_def
  by (intro emits_rules emits_json_command emits_index_of emits_read_file)
    (simp_all add: inspects_def)

lemma emits_preflight: "emits read_only (preflight c)"
  unfolding preflight_def
  by (intro emits_rules emits_json_command emits_reserved_exists emits_interface_baseline
      emits_run_command) (simp_all add: inspects_def)

lemma emits_state_json: "emits read_only state_json"
  unfolding state_json_def Let_def
  by (intro emits_rules emits_now) simp_all

lemma emits_interfaces: "emits read_only interfaces"
  unfolding interfaces_def by (rule emits_json_command) (simp add: inspects_def)

lemma emits_plain_nl [emits_rules]:
  "emits plain (link_state name up mac)"
  "emits plain (vlan c add)"
  "emits plain (address iface ip prefix add)"
  "emits plain (route c gateway add)"
  "emits plain (rule c add)"
  "emits plain clear_connections"
  using emits_nl_only by (blast intro: emits_mono nl_only_plain)+

lemma emits_plain_table_exists [emits_rules]: "emits plain (table_exists f)"
  using emits_table_exists by (rule emits_mono) (rule read_only_plain)

lemma emits_plain_write_file [emits_rules]: "emits plain (write_file path v)"
  by (rule emits_write_file) (simp add: plain_def)

lemma emits_plain_command:
  "argv \<noteq> delete_guard_argv \<Longrightarrow> emits plain (run_command argv input)"
  by (rule emits_run_command) (simp add: plain_def)

lemma nft_apply_not_delete [simp]: "nft_apply \<noteq> delete_guard_argv"
  by (simp add: nft_apply_def delete_guard_argv_def)

lemma emits_install: "emits plain (install c)"
  unfolding install_def install_links_def install_vlan_def install_forwarding_def
  by (rule emits_run_steps) (auto intro: emits_rules emits_plain_command split: if_splits)

lemma emits_attempt [emits_rules]: "emits P m \<Longrightarrow> emits P (attempt m)"
  unfolding attempt_def by (intro emits_rules)

lemma emits_attempts [emits_rules]:
  "(\<And>m. m \<in> set ms \<Longrightarrow> emits P m) \<Longrightarrow> emits P (attempts ms errors)"
  by (induction ms arbitrary: errors) (simp_all add: emits_rules)

lemma emits_field_text [emits_rules]: "emits P (field_text info key)"
  unfolding field_text_def by (intro emits_rules) simp

lemma emits_restore_parts:
  "emits plain (restore_guard c)"
  "emits plain remove_nat"
  "emits plain (restore_sysctl path key)"
  "emits plain (restore_interface info)"
  unfolding restore_guard_def remove_nat_def restore_sysctl_def restore_interface_def
  by (intro emits_rules emits_plain_command; simp add: delete_guard_argv_def nft_apply_def)+

lemma emits_restore_work: "emits plain (restore_work c)"
  unfolding restore_work_def restore_addresses_def restore_rest_def
  by (intro emits_rules emits_if_nametoindex)
    (auto intro: emits_rules emits_restore_parts simp: plain_def split: if_splits)

lemma emits_remove_guard: "emits (\<lambda>e. \<not> is_put e) remove_guard"
proof -
  have "emits (\<lambda>e. \<not> is_put e) (table_exists ''inet'')"
    using emits_table_exists by (rule emits_mono) (auto dest: read_only_plain simp: plain_def)
  then show ?thesis
    unfolding remove_guard_def by (intro emits_rules emits_run_command) simp_all
qed

section \<open>Attempts\<close>

lemma attempt_run:
  assumes "emits P m"
  obtains e t where "attempt m E s = (Inr e, t)"
    "e = [] \<longleftrightarrow> m E s = (Inr (), t)" "snd (m E s) = t"
proof -
  obtain r t where m: "m E s = (r, t)" by (cases "m E s")
  then have "r \<noteq> Inl Foreign_exception"
    using assms by (auto elim: emitsD)
  then show ?thesis
    using that m
    by (cases r) (auto simp: attempt_def catchP_def thenP_def bindP_def returnP_def is_std_exception_def)
qed

text \<open>
  A list of attempts always runs to its end. It leaves no error text exactly when the same steps, run
  in sequence without \<open>attempt\<close>, all succeed.
\<close>

lemma attempts_run:
  assumes "\<forall>m \<in> set ms. emits P m"
  shows "\<exists>e t. attempts ms errors E s = (Inr e, t) \<and>
    (e = [] \<longleftrightarrow> errors = [] \<and> run_steps ms E s = (Inr (), t))"
  using assms
proof (induction ms arbitrary: errors s)
  case Nil
  then show ?case by (simp add: returnP_def)
next
  case (Cons m ms)
  obtain e t where m: "attempt m E s = (Inr e, t)" "e = [] \<longleftrightarrow> m E s = (Inr (), t)"
    "snd (m E s) = t"
    using attempt_run Cons.prems by (metis list.set_intros(1) bspec)
  obtain e' t' where ms: "attempts ms (errors @ e) E t = (Inr e', t')"
    "e' = [] \<longleftrightarrow> errors @ e = [] \<and> run_steps ms E t = (Inr (), t')"
    using Cons by (metis list.set_intros(2))
  have "run_steps (m # ms) E s = (Inr (), t') \<longleftrightarrow> e = [] \<and> run_steps ms E t = (Inr (), t')"
    using m by (auto simp: thenP_def bindP_def split: prod.splits sum.splits)
  then show ?case
    using m(1) ms by (auto simp: bindP_def)
qed

lemma attempt_total: "emits P m \<Longrightarrow> \<exists>e t. attempt m E s = (Inr e, t)"
  by (metis attempt_run)

lemma attempts_total:
  assumes "\<forall>m \<in> set ms. emits P m"
  shows "\<exists>e t. attempts ms errors E s = (Inr e, t)"
  using attempts_run [OF assms, of errors E s] by auto

section \<open>The shape of restore\<close>

abbreviation status :: "ctl \<Rightarrow> json" where
  "status s \<equiv> jfield (net_state s) ''status''"

lemma plain_parts:
  "\<forall>m \<in> set [restore_guard c, rule c False]. emits plain m"
  "\<forall>m \<in> set (restore_addresses c i). emits plain m"
  "\<forall>m \<in> set (restore_rest c). emits plain m"
  "\<forall>m \<in> set (map restore_interface infos). emits plain m"
  by (auto simp: restore_addresses_def restore_rest_def
      intro: emits_rules emits_restore_parts split: if_splits)

lemma emits_attempts_parts:
  "emits plain (attempts [restore_guard c, rule c False] errors)"
  "emits plain (attempts (restore_addresses c i) errors)"
  "emits plain (attempts (restore_rest c) errors)"
  "emits plain (attempts (map restore_interface infos) errors)"
  by (rule emits_attempts, erule plain_parts [THEN bspec])+

lemma indexable_same: "same_state s t \<Longrightarrow> indexable (net_state s) \<Longrightarrow> indexable (net_state t)"
  by (simp add: same_state_def)

lemma restore_work_run:
  assumes "indexable (net_state s)"
  shows "\<exists>errors t. restore_work c E s = (Inr errors, t)"
proof -
  obtain e1 s1 where 1: "attempts [restore_guard c, rule c False] [] E s = (Inr e1, s1)"
    using attempts_total [OF plain_parts(1), of c "[]" E s] by blast
  obtain i s2 where 2: "if_nametoindex (outer_name c) E s1 = (Inr i, s2)"
    by (simp add: if_nametoindex_def Let_def)
  obtain e3 s3 where 3: "attempts (restore_addresses c i) e1 E s2 = (Inr e3, s3)"
    using attempts_total [OF plain_parts(2), of c i e1 E s2] by blast
  obtain e4 s4 where 4: "attempts (restore_rest c) e3 E s3 = (Inr e4, s4)"
    using attempts_total [OF plain_parts(3), of c e3 E s3] by blast
  have "emits plain (if_nametoindex (outer_name c))"
    by (rule emits_if_nametoindex) (simp add: plain_def)
  then have "indexable (net_state s4)"
    using assms emits_attempts_parts 1 2 3 4 by (meson emitsD indexable_same)
  then obtain v s5 where 5: "state_at ''baseline'' E s4 = (Inr v, s5)"
    by (simp add: state_at_def)
  obtain e6 s6 where 6: "attempts (map restore_interface (json_items v)) e4 E s5 = (Inr e6, s6)"
    using attempts_total [OF plain_parts(4), of "json_items v" e4 E s5] by blast
  show ?thesis
    using 1 2 3 4 5 6 by (simp add: restore_work_def bindP_def)
qed

lemma finish_restore_eq:
  assumes "indexable (net_state s)"
  defines "j \<equiv> \<lambda>errors. jset (jset (net_state s) ''status''
      (JString (if errors = [] then ''inactive'' else ''rollback_failed''))) ''error'' (JString errors)"
  shows "finish_restore errors E s =
    (case put_reply E (trace s) ''network'' (j errors) of
       Some m \<Rightarrow> Inl (Runtime_error m)
     | None \<Rightarrow> if errors = [] then Inr () else Inl (Runtime_error errors),
     s\<lparr>net_state := j errors,
       trace := trace s @ [Store_put ''network'' (j errors) (put_reply E (trace s) ''network'' (j errors))]\<rparr>)"
  using assms(1)
  by (auto simp: finish_restore_def j_def thenP_def bindP_def set_state_def put_state_def emit_def
      throw_if_def throwP_def returnP_def Let_def split: option.splits)

text \<open>The result of \<open>restore\<close> once its work is done.\<close>

definition restore_result :: "string \<Rightarrow> string option \<Rightarrow> unit result" where
  "restore_result errors put =
     (case put of Some m \<Rightarrow> Inl (Runtime_error m)
      | None \<Rightarrow> if errors = [] then Inr () else Inl (Runtime_error errors))"

lemma restore_cases:
  assumes "restore E s = (r, t)" "indexable (net_state s)"
  obtains
    (invalid) e where
      "config_from_json (pton_fun E) (jfield (net_state s) ''config'') = Inl e" "r = Inl e"
      "trace t = trace s" "same_state s t"
  | (unjournaled) m where
      "r = Inl (Runtime_error m)"
      "trace t = trace s @ [Store_put ''network'' (net_state t) (Some m)]"
      "status t = JString ''rolling_back''" "enabled t = enabled s" "deadline t = deadline s"
      "\<forall>k. k \<noteq> ''status'' \<longrightarrow> jfield (net_state t) k = jfield (net_state s) k"
      "\<exists>c. config_from_json (pton_fun E) (jfield (net_state s) ''config'') = Inr c"
  | (ran) c s1 s2 s3 work errors gone errors' put where
      "config_from_json (pton_fun E) (jfield (net_state s) ''config'') = Inr c"
      "trace s1 = trace s @ [Store_put ''network'' (net_state s1) None]"
      "status s1 = JString ''rolling_back''"
      "\<forall>k. k \<noteq> ''status'' \<longrightarrow> jfield (net_state s1) k = jfield (net_state s) k"
      "restore_work c E s1 = (Inr errors, s2)" "trace s2 = trace s1 @ work" "list_all plain work"
      "(if errors = [] then attempt remove_guard else returnP errors) E s2 = (Inr errors', s3)"
      "trace s3 = trace s2 @ gone" "list_all (\<lambda>e. \<not> is_put e) gone" "errors \<noteq> [] \<Longrightarrow> gone = [] \<and> errors' = errors"
      "trace t = trace s3 @ [Store_put ''network'' (net_state t) put]"
      "status t = JString (if errors' = [] then ''inactive'' else ''rollback_failed'')"
      "jfield (net_state t) ''error'' = JString errors'"
      "\<forall>k. k \<noteq> ''status'' \<and> k \<noteq> ''error'' \<longrightarrow> jfield (net_state t) k = jfield (net_state s) k"
      "r = restore_result errors' put" "enabled t = enabled s" "deadline t = deadline s"
      "indexable (net_state s1)" "enabled s1 = enabled s"
proof -
  let ?v = "jfield (net_state s) ''config''"
  let ?s0 = "s\<lparr>net_state := jtouch (net_state s) ''config''\<rparr>"
  let ?j = "jset (jtouch (net_state s) ''config'') ''status'' (JString ''rolling_back'')"
  let ?p = "put_reply E (trace s) ''network'' ?j"
  let ?s1 = "s\<lparr>net_state := ?j, trace := trace s @ [Store_put ''network'' ?j ?p]\<rparr>"
  note run = assms(1) [unfolded restore_def thenP_def bindP_def state_at_def read_config_def askP_def
      liftP_def set_state_def put_state_def emit_def Let_def]
  show ?thesis
  proof (cases "config_from_json (pton_fun E) ?v")
    case (Inl e)
    then show ?thesis
      using run assms(2) by (intro invalid [of e]) (auto simp: same_state_def)
  next
    case config: (Inr c)
    show ?thesis
    proof (cases ?p)
      case (Some m)
      then show ?thesis
        using run assms(2) config by (intro unjournaled [of m]) auto
    next
      case None
      have idx: "indexable (net_state ?s1)" by simp
      obtain errors s2 where work: "restore_work c E ?s1 = (Inr errors, s2)"
        using restore_work_run [OF idx] by blast
      obtain w where w: "trace s2 = trace ?s1 @ w" "list_all plain w" "same_state ?s1 s2"
        using emitsD [OF emits_restore_work work] by blast
      let ?g = "if errors = [] then attempt remove_guard else returnP errors"
      have "emits (\<lambda>e. \<not> is_put e) ?g"
        using emits_remove_guard by (simp add: emits_rules)
      moreover obtain r' s3 where g: "?g E s2 = (r', s3)" by (cases "?g E s2")
      ultimately obtain x where x: "trace s3 = trace s2 @ x" "list_all (\<lambda>e. \<not> is_put e) x"
          "same_state s2 s3"
        by (rule emitsD)
      obtain errors' where e': "r' = Inr errors'"
        using g attempt_total [OF emits_remove_guard, of E s2]
        by (cases "errors = []") (auto simp: returnP_def)
      have idx3: "indexable (net_state s3)"
        using w(3) x(3) idx by (meson indexable_same)
      have f: "finish_restore errors' E s3 = (r, t)"
        using run assms(2) config None work g e' by (simp add: bindP_def)
      have t: "net_state t = jset (jset (net_state s3) ''status''
          (JString (if errors' = [] then ''inactive'' else ''rollback_failed''))) ''error'' (JString errors')"
        "trace t = trace s3 @ [Store_put ''network'' (net_state t) (put_reply E (trace s3) ''network'' (net_state t))]"
        "r = restore_result errors' (put_reply E (trace s3) ''network'' (net_state t))"
        "enabled t = enabled s3" "deadline t = deadline s3"
        using f unfolding finish_restore_eq [OF idx3] restore_result_def by auto
      show ?thesis
      proof (rule ran [OF config, of ?s1 errors s2 w errors' s3 x])
        show "errors \<noteq> [] \<Longrightarrow> x = [] \<and> errors' = errors"
          using g e' x(1) by (auto simp: returnP_def)
      qed (use None work w x g e' t in \<open>auto simp: same_state_def\<close>)
    qed
  qed
qed

end
