(* ===== verification/Apply_Props.thy ===== *)
theory Apply_Props
  imports Controller_Props
begin

text \<open>
  The shape of \<open>apply\<close> and the properties of the public operations of the network controller.
\<close>

section \<open>The shape of apply\<close>

lemma config_json_accepted:
  assumes "config_from_json pton (config_json c) = Inr c'"
  shows "c' = c \<and> validate pton c = []"
proof -
  note parts = config_from_json_Inr [OF assms]
  have "inner_prefix c' = inner_prefix c" "outer_prefix c' = outer_prefix c"
    using parts(11,13) by simp_all
  moreover have "vlan_id c' = vlan_id c"
    using parts(14) by (cases "vlan_id c") (auto simp: vlan_field_Inr_iff)
  ultimately have "c' = c"
    using parts(3-9) by (intro NetworkConfig.equality) simp_all
  with parts(15) show ?thesis by simp
qed

lemma state_at_Inr: "state_at k E s = (Inr v, t) \<Longrightarrow> v = jfield (net_state s) k \<and> same_state s t"
  by (auto simp: state_at_def same_state_def split: if_splits)

lemma preflight_Inr:
  assumes "preflight c E s = (Inr b, t)"
  shows "enabled s" "status s = JString ''inactive''" "validate (pton_fun E) c = []"
    and "\<exists>outer inner. b = JArray [outer, inner]"
  using assms unfolding preflight_def
  by (auto simp: thenP_Inr bindP_Inr getP_def read_config_def askP_def liftP_def returnP_def
      dest!: state_at_Inr config_json_accepted)

text \<open>What a complete journal entry records.\<close>

definition journaled :: "NetworkConfig \<Rightarrow> json \<Rightarrow> bool" where
  "journaled c j \<longleftrightarrow>
     jfield j ''status'' = JString ''applying'' \<and> jfield j ''config'' = config_json c \<and>
     (\<exists>outer inner. jfield j ''baseline'' = JArray [outer, inner]) \<and>
     is_string (jfield j ''ip_forward'') \<and> is_string (jfield j ''rp_filter_all'')"

lemma read_file_run:
  obtains (ok) v x where "read_file path E s = (Inr v, s\<lparr>trace := trace s @ [Read_file path x]\<rparr>)"
  | (failed) m x where "read_file path E s = (Inl (Runtime_error m), s\<lparr>trace := trace s @ [Read_file path x]\<rparr>)"
proof (cases "read_reply E (trace s) path")
  case None
  then show ?thesis using failed by (simp add: read_file_def emit_def)
next
  case (Some tx)
  with ok [of "first_token tx" "Some tx"] failed [of "''Cannot read '' @ path" "Some tx"]
  show ?thesis
    by (cases "first_token tx = []") (simp_all add: read_file_def emit_def)
qed

lemma run_set_state:
  "indexable (net_state s) \<Longrightarrow>
   thenP (set_state k v) n E s = n E (s\<lparr>net_state := jset (net_state s) k v\<rparr>)"
  by (simp add: thenP_def bindP_def set_state_def)

lemma run_put_state:
  "put_state E s =
    (case put_reply E (trace s) ''network'' (net_state s) of Some m \<Rightarrow> Inl (Runtime_error m) | None \<Rightarrow> Inr (),
     s\<lparr>trace := trace s @ [Store_put ''network'' (net_state s) (put_reply E (trace s) ''network'' (net_state s))]\<rparr>)"
  by (simp add: put_state_def emit_def Let_def split: option.splits)

lemma run_now:
  "bindP now f E s =
   f (clock_reply E (trace s)) E (s\<lparr>trace := trace s @ [Clock (clock_reply E (trace s))]\<rparr>)"
  by (simp add: bindP_def now_def emit_def Let_def)

lemma run_set_deadline: "thenP (set_deadline x) n E s = n E (s\<lparr>deadline := x\<rparr>)"
  by (simp add: thenP_def bindP_def set_deadline_def)

lemmas run_rules = run_first thenP_bindP run_set_state run_put_state run_now
  run_set_deadline

lemma journal_cases:
  assumes "journal c (JArray [outer, inner]) E s = (r, t)" "indexable (net_state s)"
  obtains
    (unread) m pre where "r = Inl (Runtime_error m)" "trace t = trace s @ pre" "list_all read_only pre"
      "status t = status s" "enabled t = enabled s" "deadline t = deadline s" "indexable (net_state t)"
  | (written) pre put where
      "trace t = trace s @ pre @ [Store_put ''network'' (net_state t) put]" "list_all read_only pre"
      "journaled c (net_state t)" "enabled t = enabled s" "deadline t = deadline s"
      "indexable (net_state t)"
      "r = (case put of Some m \<Rightarrow> Inl (Runtime_error m) | None \<Rightarrow> Inr ())"
proof -
  let ?j1 = "jset (jset (net_state s) ''config'' (config_json c)) ''baseline'' (JArray [outer, inner])"
  let ?s1 = "s\<lparr>net_state := ?j1\<rparr>"
  show ?thesis
  proof (cases rule: read_file_run [of ip_forward_path E ?s1])
    case (failed m x)
    then have "(r, t) = (Inl (Runtime_error m), ?s1\<lparr>trace := trace s @ [Read_file ip_forward_path x]\<rparr>)"
      using assms by (simp add: journal_def run_rules)
    then show ?thesis
      by (intro unread [of m "[Read_file ip_forward_path x]"]) auto
  next
    case 1: (ok v x)
    let ?s2 = "?s1\<lparr>trace := trace s @ [Read_file ip_forward_path x],
      net_state := jset ?j1 ''ip_forward'' (JString v)\<rparr>"
    let ?pre = "\<lambda>y. [Read_file ip_forward_path x, Read_file (rp_filter_path ''all'') y]"
    show ?thesis
    proof (cases rule: read_file_run [of "rp_filter_path ''all''" E ?s2])
      case (failed m y)
      then have "(r, t) = (Inl (Runtime_error m), ?s2\<lparr>trace := trace s @ ?pre y\<rparr>)"
        using assms 1 by (simp add: journal_def run_rules)
      then show ?thesis
        by (intro unread [of m "?pre y"]) auto
    next
      case (ok w y)
      let ?j3 = "jset (jset (net_state ?s2) ''rp_filter_all'' (JString w)) ''status'' (JString ''applying'')"
      let ?put = "put_reply E (trace s @ ?pre y) ''network'' ?j3"
      have "(r, t) = (case ?put of Some m \<Rightarrow> Inl (Runtime_error m) | None \<Rightarrow> Inr (),
          ?s2\<lparr>trace := trace s @ ?pre y, net_state := ?j3, trace := trace s @ ?pre y @ [Store_put ''network'' ?j3 ?put]\<rparr>)"
        using assms 1 ok by (simp add: journal_def run_rules)
      then show ?thesis
        by (intro written [of "?pre y" ?put]) (auto simp: journaled_def)
    qed
  qed
qed

lemma install_and_wait_cases:
  assumes "install_and_wait c E s = (r, t)" "indexable (net_state s)"
  obtains
    (failed) e evs where "install c E s = (Inl e, t)" "r = Inl e" "trace t = trace s @ evs"
      "list_all plain evs" "same_state s t" "is_std_exception e"
  | (waiting) s2 evs \<tau> put where "install c E s = (Inr (), s2)" "trace s2 = trace s @ evs"
      "list_all plain evs" "same_state s s2"
      "trace t = trace s2 @ [Clock \<tau>, Store_put ''network'' (net_state t) put]"
      "net_state t = jset (net_state s2) ''status'' (JString ''awaiting_confirmation'')"
      "deadline t = \<tau> + confirmation_window" "enabled t = enabled s"
      "r = (case put of Some m \<Rightarrow> Inl (Runtime_error m) | None \<Rightarrow> Inr ())"
proof -
  obtain r1 s2 where i: "install c E s = (r1, s2)" by (cases "install c E s")
  then obtain evs where evs: "trace s2 = trace s @ evs" "list_all plain evs" "same_state s s2"
      "r1 \<noteq> Inl Foreign_exception"
    by (rule emitsD [OF emits_install])
  show ?thesis
  proof (cases r1)
    case (Inl e)
    then have "r = Inl e" "t = s2"
      using assms(1) i by (simp_all add: install_and_wait_def run_rules)
    with Inl i evs show ?thesis
      by (intro failed [of e evs]) (auto simp: is_std_exception_def)
  next
    case (Inr u)
    let ?j = "jset (net_state s2) ''status'' (JString ''awaiting_confirmation'')"
    let ?\<tau> = "clock_reply E (trace s2)"
    let ?put = "put_reply E (trace s2 @ [Clock ?\<tau>]) ''network'' ?j"
    have "indexable (net_state s2)"
      using evs(3) assms(2) by (rule indexable_same)
    with Inr assms(1) i have "(r, t) = (case ?put of Some m \<Rightarrow> Inl (Runtime_error m) | None \<Rightarrow> Inr (),
        s2\<lparr>net_state := ?j, trace := trace s2 @ [Clock ?\<tau>], deadline := ?\<tau> + confirmation_window,
          trace := trace s2 @ [Clock ?\<tau>, Store_put ''network'' ?j ?put]\<rparr>)"
      by (simp add: install_and_wait_def run_rules)
    with Inr i evs show ?thesis
      by (intro waiting [of s2 evs ?\<tau> ?put]) (auto simp: same_state_def)
  qed
qed

lemma restore_std: "restore E s = (r, t) \<Longrightarrow> indexable (net_state s) \<Longrightarrow> r \<noteq> Inl Foreign_exception"
  by (erule (1) restore_cases)
    (auto simp: restore_result_def split: option.splits if_splits dest: config_from_json_Inl)

lemma undo_run:
  assumes "indexable (net_state s)"
  obtains r t m where "restore E s = (r, t)" "undo e E s = (Inl (Runtime_error m), t)"
proof -
  obtain r t where "restore E s = (r, t)" by (cases "restore E s")
  with restore_std [OF this assms] that show ?thesis
    by (cases r) (auto simp: undo_def catchP_def thenP_def bindP_def throwP_def is_std_exception_def)
qed

lemma apply_cases:
  assumes "apply_config c E s = (r, t)" "indexable (net_state s)"
  obtains
    (refused) e pre where "r = Inl e" "trace t = trace s @ pre" "list_all read_only pre"
      "status t = status s" "enabled t = enabled s" "deadline t = deadline s"
      "indexable (net_state t)" "status s = JString ''inactive'' \<or> same_state s t"
  | (unjournaled) pre m where "r = Inl (Runtime_error m)"
      "trace t = trace s @ pre @ [Store_put ''network'' (net_state t) (Some m)]"
      "list_all read_only pre" "status t = JString ''applying''" "status s = JString ''inactive''"
      "enabled t = enabled s" "deadline t = deadline s"
      "journaled c (net_state t)" "validate (pton_fun E) c = []"
  | (started) pre s1 where "enabled s" "status s = JString ''inactive''"
      "validate (pton_fun E) c = []"
      "trace s1 = trace s @ pre @ [Store_put ''network'' (net_state s1) None]" "list_all read_only pre"
      "journaled c (net_state s1)" "indexable (net_state s1)" "enabled s1 = enabled s"
      "catchP (install_and_wait c) undo E s1 = (r, t)"
proof -
  obtain r0 s0 where p: "preflight c E s = (r0, s0)" by (cases "preflight c E s")
  then obtain pre where pre: "trace s0 = trace s @ pre" "list_all read_only pre" "same_state s s0"
    by (rule emitsD [OF emits_preflight])
  show ?thesis
  proof (cases r0)
    case (Inl e)
    then have "r = Inl e" "t = s0"
      using assms(1) p by (simp_all add: apply_config_def run_rules)
    with pre show ?thesis
      using indexable_same [OF pre(3) assms(2)] by (intro refused [of e pre]) (auto simp: same_state_def)
  next
    case (Inr b)
    note ok = preflight_Inr [OF p [unfolded Inr]]
    obtain outer inner where b: "b = JArray [outer, inner]" using ok(4) by blast
    obtain r1 s1 where j: "journal c (JArray [outer, inner]) E s0 = (r1, s1)"
      by (cases "journal c (JArray [outer, inner]) E s0")
    have idx: "indexable (net_state s0)"
      using pre(3) assms(2) by (rule indexable_same)
    have rest: "thenP (journal c (JArray [outer, inner])) (catchP (install_and_wait c) undo) E s0 = (r, t)"
      using assms(1) p Inr b by (simp add: apply_config_def run_rules)
    from j idx show ?thesis
    proof (cases rule: journal_cases)
      case (unread m pre')
      with rest j have "r = r1" "t = s1" by (simp_all add: run_rules)
      with unread pre ok(2) show ?thesis
        by (intro refused [of "Runtime_error m" "pre @ pre'"]) (auto simp: same_state_def)
    next
      case (written pre' put)
      show ?thesis
      proof (cases put)
        case None
        with written rest j have "catchP (install_and_wait c) undo E s1 = (r, t)"
          by (simp add: run_rules)
        with None written pre ok show ?thesis
          by (intro started [of s1 "pre @ pre'"]) (auto simp: same_state_def)
      next
        case (Some m)
        with written rest j have "r = r1" "t = s1" by (simp_all add: run_rules)
        with Some written pre ok show ?thesis
          by (intro unjournaled [of m "pre @ pre'"]) (auto simp: same_state_def journaled_def)
      qed
    qed
  qed
qed

text \<open>After the journal write: success, or the restoration of what was installed.\<close>

lemma started_cases:
  assumes "catchP (install_and_wait c) undo E s = (r, t)" "indexable (net_state s)"
  obtains
    (waiting) s2 evs \<tau> where "install c E s = (Inr (), s2)" "trace s2 = trace s @ evs"
      "list_all plain evs" "same_state s s2"
      "trace t = trace s2 @ [Clock \<tau>, Store_put ''network'' (net_state t) None]"
      "net_state t = jset (net_state s2) ''status'' (JString ''awaiting_confirmation'')"
      "deadline t = \<tau> + confirmation_window" "enabled t = enabled s" "r = Inr ()"
  | (undone) s2 evs m r' where "trace s2 = trace s @ evs" "list_all plain evs" "same_state s s2"
      "restore E s2 = (r', t)" "r = Inl (Runtime_error m)" "\<exists>e. install c E s = (Inl e, s2)"
  | (undone_late) s2 evs \<tau> m m' r' where
      "trace s2 = trace s @ evs @ [Clock \<tau>, Store_put ''network'' (net_state s2) (Some m')]"
      "list_all plain evs" "status s2 = JString ''awaiting_confirmation''" "indexable (net_state s2)"
      "\<forall>k. k \<noteq> ''status'' \<longrightarrow> jfield (net_state s2) k = jfield (net_state s) k"
      "enabled s2 = enabled s" "restore E s2 = (r', t)" "r = Inl (Runtime_error m)"
      "\<exists>s'. install c E s = (Inr (), s') \<and> trace s' = trace s @ evs"
proof -
  obtain r1 s1 where i: "install_and_wait c E s = (r1, s1)" by (cases "install_and_wait c E s")
  from i assms(2) show ?thesis
  proof (cases rule: install_and_wait_cases)
    case (failed e evs)
    obtain r' t' m where "restore E s1 = (r', t')" "undo e E s1 = (Inl (Runtime_error m), t')"
      using undo_run indexable_same [OF failed(5) assms(2)] by blast
    with failed i assms(1) show ?thesis
      by (intro undone [of s1 evs r' m]) (auto simp: catchP_def)
  next
    case (waiting s2 evs \<tau> put)
    show ?thesis
    proof (cases put)
      case None
      with waiting i assms(1) show ?thesis
        by (intro that(1) [of s2 evs \<tau>]) (auto simp: catchP_def)
    next
      case (Some m')
      have idx: "indexable (net_state s1)" by (simp add: waiting)
      obtain r' t' m where "restore E s1 = (r', t')"
          "undo (Runtime_error m') E s1 = (Inl (Runtime_error m), t')"
        using undo_run [OF idx] by blast
      with Some waiting i assms(1) show ?thesis
        by (intro undone_late [of s1 evs \<tau> m' r' m])
          (auto simp: catchP_def is_std_exception_def same_state_def)
    qed
  qed
qed

end
