(* ===== verification/Transactions.thy ===== *)
theory Transactions
  imports Apply_Props
begin

text \<open>
  The transactional properties of the network controller, for every environment and every reply of the
  system: the journal precedes the first mutation, the forwarding guard precedes addresses and routes,
  a rollback that removes the guard has completed every other step, and the journal follows the
  documented state machine.
\<close>

section \<open>Write-ahead journal\<close>

lemma first_of_kind:
  assumes "pre @ e # post = xs @ y # ys" "list_all (\<lambda>e. \<not> P e) xs" "P e" "\<not> P y"
  shows "y \<in> set pre"
  using assms
proof (induction xs arbitrary: pre)
  case Nil
  then show ?case by (cases pre) auto
next
  case (Cons x xs)
  then show ?case by (cases pre) auto
qed

lemma in_middle: "xs = pre @ e # post \<Longrightarrow> e \<in> set xs"
  by simp

lemma restore_extends:
  assumes "restore E s = (r, t)" "indexable (net_state s)"
  shows "\<exists>evs. trace t = trace s @ evs"
  using assms by (cases rule: restore_cases) auto

lemma started_extends:
  assumes "catchP (install_and_wait c) undo E s = (r, t)" "indexable (net_state s)"
  shows "\<exists>evs. trace t = trace s @ evs"
  using assms
proof (cases rule: started_cases)
  case (undone s2 evs m r')
  then show ?thesis
    using restore_extends [OF undone(4) indexable_same [OF undone(3) assms(2)]] by auto
next
  case (undone_late s2 evs \<tau> m m' r')
  then show ?thesis
    using restore_extends [OF undone_late(7) undone_late(4)] by auto
qed auto

lemma list_all_weaken: "list_all P xs \<Longrightarrow> (\<And>x. P x \<Longrightarrow> Q x) \<Longrightarrow> list_all Q xs"
  by (rule list.pred_mono_strong)

lemma apply_journals_first:
  assumes "apply_config c E s = (r, t)" "indexable (net_state s)"
    and "trace t = trace s @ pre @ e # post" "mutates e"
  shows "\<exists>j. Store_put ''network'' j None \<in> set pre \<and> journaled c j \<and> validate (pton_fun E) c = []"
  using assms(1,2)
proof (cases rule: apply_cases)
  case (refused x xs)
  then have "e \<in> set xs" using assms(3) in_middle [of xs pre e post] by simp
  then show ?thesis using refused(3) assms(4) by (auto simp: list_all_iff mutates_def)
next
  case (unjournaled xs m)
  then have "e \<in> set (xs @ [Store_put ''network'' (net_state t) (Some m)])"
    using assms(3) by (intro in_middle [of _ pre e post]) simp
  then show ?thesis using unjournaled(3) assms(4) by (auto simp: list_all_iff mutates_def)
next
  case (started xs s1)
  obtain evs where "trace t = trace s1 @ evs"
    using started_extends [OF started(9,7)] by blast
  then have "pre @ e # post = xs @ Store_put ''network'' (net_state s1) None # evs"
    using assms(3) started(4) by simp
  moreover have "list_all (\<lambda>e. \<not> mutates e) xs"
    using started(5) by (rule list_all_weaken) (simp add: mutates_def)
  ultimately have "Store_put ''network'' (net_state s1) None \<in> set pre"
    using assms(4) by (rule first_of_kind) (simp add: mutates_def)
  with started(3,6) show ?thesis by blast
qed

text \<open>
  C1. Write-ahead journal. Whatever \<open>apply\<close> does to the system (a sysctl write, a Netlink
  transaction, a command that is not an inspection) is preceded by a successful journal write that
  records status \<open>applying\<close>, the configuration, the two interface baselines and the two global settings,
  and the configuration has passed validation.
\<close>

theorem apply_write_ahead:
  assumes "apply_config c E s = (r, t)" "indexable (net_state s)"
    and "trace t = trace s @ pre @ e # post" "mutates e"
  shows "\<exists>j. Store_put ''network'' j None \<in> set pre \<and> journaled c j \<and> validate (pton_fun E) c = []"
  using assms by (rule apply_journals_first)

section \<open>The forwarding guard\<close>

text \<open>Events that give the appliance an address or a route, or turn forwarding on.\<close>

fun exposes :: "event \<Rightarrow> bool" where
  "exposes (Nl_transact _ msg _) = (nl_type msg \<in> {RTM_NEWADDR, RTM_NEWROUTE, RTM_NEWRULE})"
| "exposes (Write_file path _ _) = (path = ip_forward_path)"
| "exposes _ = False"

lemma nl_only_unexposed: "nl_only {RTM_NEWLINK, RTM_DELLINK} e \<Longrightarrow> \<not> exposes e"
  by (cases e) auto

lemma paths_distinct [simp]:
  "ipv6_path name \<noteq> ip_forward_path" "rp_filter_path name \<noteq> ip_forward_path"
  by (simp_all add: ipv6_path_def rp_filter_path_def ip_forward_path_def)

lemma emits_install_links: "emits (\<lambda>e. \<not> exposes e) (run_steps (install_links c))"
proof (rule emits_run_steps)
  fix m assume "m \<in> set (install_links c)"
  moreover have "emits (\<lambda>e. \<not> exposes e) (link_state name up mac)" for name up mac
    using emits_nl_only(1) by (rule emits_mono) (rule nl_only_unexposed, auto elim: nl_only.elims)
  moreover have "emits (\<lambda>e. \<not> exposes e) (vlan c True)"
    using emits_nl_only(2) by (rule emits_mono) (rule nl_only_unexposed)
  ultimately show "emits (\<lambda>e. \<not> exposes e) m"
    by (auto simp: install_links_def install_vlan_def intro!: emits_write_file split: if_splits)
qed

lemma run_command_run:
  "run_command argv input E s =
    (case command_reply E (trace s) argv input of Inl m \<Rightarrow> Inl (Runtime_error m) | Inr _ \<Rightarrow> Inr (),
     s\<lparr>trace := trace s @ [Command argv input (command_reply E (trace s) argv input)]\<rparr>)"
  by (simp add: run_command_def bindP_def command_def returnP_def emit_def Let_def split: sum.splits)

lemma emits_install_rest:
  "emits plain (run_steps (install_forwarding c @ [run_command nft_apply (delete_guard_script @ ruleset c)]))"
  unfolding install_forwarding_def
  by (rule emits_run_steps) (auto intro: emits_rules emits_plain_command split: if_splits)

lemma install_guard_precedes:
  assumes "install c E s = (r, t)" "trace t = trace s @ pre @ e # post" "exposes e"
  shows "\<exists>out. Command nft_apply (guard_script c) (Inr out) \<in> set pre"
proof -
  let ?rest = "run_steps (install_forwarding c @ [run_command nft_apply (delete_guard_script @ ruleset c)])"
  have run: "thenP (run_steps (install_links c)) (thenP (run_command nft_apply (guard_script c)) ?rest) E s = (r, t)"
    using assms(1) by (simp add: install_def run_steps_append thenP_def bindP_assoc)
  obtain r1 s1 where 1: "run_steps (install_links c) E s = (r1, s1)"
    by (cases "run_steps (install_links c) E s")
  then obtain xs where xs: "trace s1 = trace s @ xs" "list_all (\<lambda>e. \<not> exposes e) xs"
    by (rule emitsD [OF emits_install_links])
  have not_xs: "e \<notin> set xs" using xs(2) assms(3) by (auto simp: list_all_iff)
  obtain u where u: "r1 = Inr u"
    using run 1 xs(1) assms(2) not_xs by (cases r1) (auto simp: run_rules)
  let ?reply = "command_reply E (trace s1) nft_apply (guard_script c)"
  let ?g = "Command nft_apply (guard_script c) ?reply"
  let ?s2 = "s1\<lparr>trace := trace s1 @ [?g]\<rparr>"
  have "\<exists>out. ?reply = Inr out"
  proof (cases ?reply)
    case (Inl m)
    then have "t = ?s2" using run 1 u by (simp add: run_rules run_command_run)
    then have "e \<in> set (xs @ [?g])"
      using assms(2) xs(1) by (intro in_middle [of _ pre e post]) simp
    then show ?thesis using not_xs assms(3) by simp
  qed blast
  then obtain out where out: "?reply = Inr out" ..
  have rest: "?rest E ?s2 = (r, t)"
    using run 1 u out by (simp add: run_rules run_command_run)
  obtain ys where "trace t = trace ?s2 @ ys"
    using emitsD [OF emits_install_rest rest] by blast
  then have "pre @ e # post = xs @ ?g # ys"
    using assms(2) xs(1) by simp
  then have "?g \<in> set pre"
    using xs(2) assms(3) by (rule first_of_kind) simp
  then show ?thesis using out by auto
qed

text \<open>
  C22. Guard before exposure. In the installation every address, route and policy rule that is added and
  every write to \<open>ip_forward\<close> comes after the successful commit of the rule set that drops all traffic
  between the two ports.
\<close>

theorem install_guard_first:
  assumes "install c E s = (r, t)" "trace t = trace s @ pre @ e # post" "exposes e"
  shows "\<exists>out. Command nft_apply (guard_script c) (Inr out) \<in> set pre"
  using assms by (rule install_guard_precedes)

section \<open>Rollback\<close>

text \<open>
  The restoration as one sequence that stops at the first failure: the specification against which
  the error-collecting \<open>restore_work\<close> is compared.
\<close>

definition restore_all :: "NetworkConfig \<Rightarrow> unit prog" where
  "restore_all c =
     thenP (run_steps [restore_guard c, rule c False])
     (bindP (if_nametoindex (outer_name c)) (\<lambda>index.
     thenP (run_steps (restore_addresses c index))
     (thenP (run_steps (restore_rest c))
     (bindP (state_at ''baseline'') (\<lambda>baseline.
       run_steps (map restore_interface (json_items baseline)))))))"

lemma attempts_ok: "run_steps ms E s = (Inr (), t) \<Longrightarrow> attempts ms errors E s = (Inr errors, t)"
proof (induction ms arbitrary: s errors)
  case Nil
  then show ?case by (simp add: returnP_def)
next
  case (Cons m ms)
  then obtain s1 where "m E s = (Inr (), s1)" "run_steps ms E s1 = (Inr (), t)"
    by (auto simp: thenP_Inr)
  with Cons.IH show ?case
    by (simp add: attempt_def catchP_def thenP_def bindP_def returnP_def)
qed

lemma restore_all_ok:
  assumes "restore_all c E s = (Inr (), t)"
  shows "restore_work c E s = (Inr [], t)"
proof -
  obtain s1 i s2 s3 s4 v s5 where
    "run_steps [restore_guard c, rule c False] E s = (Inr (), s1)"
    "if_nametoindex (outer_name c) E s1 = (Inr i, s2)"
    "run_steps (restore_addresses c i) E s2 = (Inr (), s3)"
    "run_steps (restore_rest c) E s3 = (Inr (), s4)"
    "state_at ''baseline'' E s4 = (Inr v, s5)"
    "run_steps (map restore_interface (json_items v)) E s5 = (Inr (), t)"
    using assms unfolding restore_all_def thenP_Inr bindP_Inr
    by (auto simp del: run_steps.simps)
  then show ?thesis
    unfolding restore_work_def by (simp add: run_first attempts_ok del: run_steps.simps attempts.simps)
qed

lemma attempts_Nil:
  assumes "attempts ms errors E s = (Inr [], t)" "\<forall>m \<in> set ms. emits P m"
  shows "errors = [] \<and> run_steps ms E s = (Inr (), t)"
  using attempts_run [OF assms(2), of errors E s] assms(1) by simp

lemma restore_work_complete:
  assumes "restore_work c E s = (Inr [], t)"
  shows "restore_all c E s = (Inr (), t)"
proof -
  obtain e1 s1 i s2 e3 s3 e4 s4 v s5 where
    1: "attempts [restore_guard c, rule c False] [] E s = (Inr e1, s1)"
    and 2: "if_nametoindex (outer_name c) E s1 = (Inr i, s2)"
    and 3: "attempts (restore_addresses c i) e1 E s2 = (Inr e3, s3)"
    and 4: "attempts (restore_rest c) e3 E s3 = (Inr e4, s4)"
    and 5: "state_at ''baseline'' E s4 = (Inr v, s5)"
    and 6: "attempts (map restore_interface (json_items v)) e4 E s5 = (Inr [], t)"
    using assms unfolding restore_work_def bindP_Inr by blast
  have "e4 = []" and r6: "run_steps (map restore_interface (json_items v)) E s5 = (Inr (), t)"
    using attempts_Nil [OF 6 plain_parts(4)] by simp_all
  then have "e3 = []" and r4: "run_steps (restore_rest c) E s3 = (Inr (), s4)"
    using attempts_Nil [OF 4 [unfolded \<open>e4 = []\<close>] plain_parts(3)] by simp_all
  then have "e1 = []" and r3: "run_steps (restore_addresses c i) E s2 = (Inr (), s3)"
    using attempts_Nil [OF 3 [unfolded \<open>e3 = []\<close>] plain_parts(2)] by simp_all
  then have r1: "run_steps [restore_guard c, rule c False] E s = (Inr (), s1)"
    using attempts_Nil [OF 1 [unfolded \<open>e1 = []\<close>] plain_parts(1)] by simp
  show ?thesis
    using r1 2 r3 r4 5 r6 unfolding restore_all_def thenP_Inr bindP_Inr by blast
qed

text \<open>
  C20. The error-collecting rollback agrees with the plain sequence: it ends without an error text, in a
  given state, exactly when every step, run in order, succeeds and leads to that state.
\<close>

theorem restore_work_refines_sequence:
  "restore_work c E s = (Inr [], t) \<longleftrightarrow> restore_all c E s = (Inr (), t)"
  using restore_all_ok restore_work_complete by blast

lemma plain_not_removes: "list_all plain xs \<Longrightarrow> e \<in> set xs \<Longrightarrow> \<not> removes_guard e"
  by (auto simp: list_all_iff plain_def)

lemma guard_removal_after_restoration:
  assumes "restore E s = (r, t)" "indexable (net_state s)"
    and "trace t = trace s @ evs" "e \<in> set evs" "removes_guard e"
  shows "\<exists>c s1 s2 work rest.
    config_from_json (pton_fun E) (jfield (net_state s) ''config'') = Inr c \<and>
    evs = Store_put ''network'' (net_state s1) None # work @ rest \<and>
    trace s1 = trace s @ [Store_put ''network'' (net_state s1) None] \<and>
    trace s2 = trace s1 @ work \<and> restore_all c E s1 = (Inr (), s2) \<and> e \<in> set rest \<and>
    list_all (\<lambda>e. \<not> removes_guard e) work"
  using assms(1,2)
proof (cases rule: restore_cases)
  case (ran c s1 s2 s3 work errors gone errors' put)
  have "e \<notin> set work" using plain_not_removes [OF ran(7)] assms(5) by blast
  moreover have evs: "evs = Store_put ''network'' (net_state s1) None # work @ gone @ [Store_put ''network'' (net_state t) put]"
    using ran assms(3) by simp
  ultimately have "e \<in> set gone" using assms(4,5) by auto
  then have "errors = []" using ran(11) by fastforce
  then have "restore_all c E s1 = (Inr (), s2)"
    using ran(5) restore_work_complete by simp
  moreover have "list_all (\<lambda>e. \<not> removes_guard e) work"
    using ran(7) by (rule list_all_weaken) (simp add: plain_def)
  ultimately show ?thesis
    using ran(1,2,6) evs \<open>e \<in> set gone\<close> by auto
qed (use assms in auto)

text \<open>
  C2. Fail-closed rollback. If \<open>restore\<close> issues the command that deletes the forwarding guard at all,
  then the journal write succeeded and every other restoration step before it, run in sequence,
  succeeded; before that point the guard table is never deleted.
\<close>

theorem rollback_fail_closed:
  assumes "restore E s = (r, t)" "indexable (net_state s)"
    and "trace t = trace s @ evs" "e \<in> set evs" "removes_guard e"
  shows "\<exists>c s1 s2 work rest.
    config_from_json (pton_fun E) (jfield (net_state s) ''config'') = Inr c \<and>
    evs = Store_put ''network'' (net_state s1) None # work @ rest \<and>
    trace s1 = trace s @ [Store_put ''network'' (net_state s1) None] \<and>
    trace s2 = trace s1 @ work \<and> restore_all c E s1 = (Inr (), s2) \<and> e \<in> set rest \<and>
    list_all (\<lambda>e. \<not> removes_guard e) work"
  using assms by (rule guard_removal_after_restoration)

end
