(* ===== verification/Lifecycle.thy ===== *)
theory Lifecycle
  imports Transactions
begin

text \<open>
  The life cycle of a network configuration: the state machine that \<open>docs/api.md\<close> describes as a
  relation on statuses, the refinement of it by the public operations of the controller, the
  confirmation window, and recovery when the daemon starts.
\<close>

section \<open>The documented state machine\<close>

text \<open>
  \<open>inactive \<rightarrow> applying \<rightarrow> awaiting_confirmation \<rightarrow> confirmed\<close>; a rollback passes through \<open>rolling_back\<close> to
  \<open>inactive\<close> or \<open>rollback_failed\<close>, and can start from every status but \<open>inactive\<close>.
\<close>

inductive status_step :: "json \<Rightarrow> json \<Rightarrow> bool" where
  begin_apply: "status_step (JString ''inactive'') (JString ''applying'')"
| installed: "status_step (JString ''applying'') (JString ''awaiting_confirmation'')"
| confirmed: "status_step (JString ''awaiting_confirmation'') (JString ''confirmed'')"
| begin_rollback: "a \<noteq> JString ''inactive'' \<Longrightarrow> status_step a (JString ''rolling_back'')"
| rolled_back: "status_step (JString ''rolling_back'') (JString ''inactive'')"
| rollback_error: "status_step (JString ''rolling_back'') (JString ''rollback_failed'')"

inductive_simps status_step_iff: "status_step a b"

fun status_path :: "json \<Rightarrow> json list \<Rightarrow> json \<Rightarrow> bool" where
  "status_path a [] z \<longleftrightarrow> a = z"
| "status_path a (b # bs) z \<longleftrightarrow> status_step a b \<and> status_path b bs z"

text \<open>The statuses a stretch of the trace writes to the journal.\<close>

fun journal_statuses :: "event list \<Rightarrow> json list" where
  "journal_statuses [] = []"
| "journal_statuses (Store_put _ j _ # evs) = jfield j ''status'' # journal_statuses evs"
| "journal_statuses (_ # evs) = journal_statuses evs"

lemma status_path_append: "status_path a (xs @ ys) z \<longleftrightarrow> (\<exists>b. status_path a xs b \<and> status_path b ys z)"
  by (induction xs arbitrary: a) auto

lemma journal_statuses_append [simp]:
  "journal_statuses (xs @ ys) = journal_statuses xs @ journal_statuses ys"
  by (induction xs rule: journal_statuses.induct) simp_all

lemma journal_statuses_none:
  "list_all (\<lambda>e. \<not> is_put e) xs \<Longrightarrow> journal_statuses xs = []"
  by (induction xs rule: journal_statuses.induct) simp_all

lemma journal_statuses_plain: "list_all plain xs \<Longrightarrow> journal_statuses xs = []"
  by (rule journal_statuses_none, erule list_all_weaken) (simp add: plain_def)

lemma journal_statuses_read_only: "list_all read_only xs \<Longrightarrow> journal_statuses xs = []"
  by (rule journal_statuses_plain, erule list_all_weaken) (rule read_only_plain)

lemmas journal_statuses_quiet =
  journal_statuses_none journal_statuses_plain journal_statuses_read_only

lemma status_of_same: "same_state s t \<Longrightarrow> status t = status s"
  by (simp add: same_state_def)

definition follows :: "ctl \<Rightarrow> ctl \<Rightarrow> bool" where
  "follows s t \<longleftrightarrow>
     (\<exists>evs. trace t = trace s @ evs \<and> status_path (status s) (journal_statuses evs) (status t))"

lemma follows_trans: "follows s t \<Longrightarrow> follows t u \<Longrightarrow> follows s u"
  unfolding follows_def by (auto simp: status_path_append)

lemma follows_emits: "emits plain m \<Longrightarrow> m E s = (r, t) \<Longrightarrow> follows s t"
  by (erule (1) emitsD) (auto simp: follows_def journal_statuses_quiet dest: status_of_same)

lemma follows_refl: "trace t = trace s \<Longrightarrow> status t = status s \<Longrightarrow> follows s t"
  by (simp add: follows_def)

lemma restore_follows:
  assumes "restore E s = (r, t)" "indexable (net_state s)" "status s \<noteq> JString ''inactive''"
  shows "follows s t"
  using assms(1,2)
proof (cases rule: restore_cases)
  case (invalid e)
  then show ?thesis by (intro follows_refl) (simp_all add: status_of_same)
next
  case (unjournaled m)
  then show ?thesis using assms(3) by (auto simp: follows_def status_step_iff)
next
  case (ran c s1 s2 s3 work errors gone errors' put)
  then show ?thesis
    using assms(3) by (auto simp: follows_def journal_statuses_quiet status_step_iff)
qed

lemma started_follows:
  assumes "catchP (install_and_wait c) undo E s = (r, t)" "indexable (net_state s)"
    and "status s = JString ''applying''"
  shows "follows s t"
  using assms(1,2)
proof (cases rule: started_cases)
  case (waiting s2 evs \<tau>)
  then show ?thesis
    using assms(3) by (auto simp: follows_def journal_statuses_quiet status_step_iff)
next
  case (undone s2 evs m r')
  have "follows s s2"
    using undone(1-3) by (auto simp: follows_def journal_statuses_quiet dest: status_of_same)
  moreover have "follows s2 t"
    using undone(3,4) assms(2,3) by (intro restore_follows) (auto simp: status_of_same indexable_same)
  ultimately show ?thesis by (rule follows_trans)
next
  case (undone_late s2 evs \<tau> m m' r')
  have "follows s s2"
    using undone_late(1-3) assms(3) by (auto simp: follows_def journal_statuses_quiet status_step_iff)
  moreover have "follows s2 t"
    using undone_late by (intro restore_follows) auto
  ultimately show ?thesis by (rule follows_trans)
qed

lemma apply_follows:
  assumes "apply_config c E s = (r, t)" "indexable (net_state s)"
  shows "follows s t"
  using assms
proof (cases rule: apply_cases)
  case (refused e pre)
  then show ?thesis by (auto simp: follows_def journal_statuses_quiet)
next
  case (unjournaled pre m)
  then show ?thesis by (auto simp: follows_def journal_statuses_quiet status_step_iff)
next
  case (started pre s1)
  have "follows s s1"
    using started by (auto simp: follows_def journal_statuses_quiet journaled_def status_step_iff)
  moreover have "follows s1 t"
    using started by (intro started_follows) (auto simp: journaled_def)
  ultimately show ?thesis by (rule follows_trans)
qed

section \<open>Timer, confirmation and manual rollback\<close>

lemma state_at_run:
  "indexable (net_state s) \<Longrightarrow>
   state_at k E s = (Inr (jfield (net_state s) k), s\<lparr>net_state := jtouch (net_state s) k\<rparr>)"
  by (simp add: state_at_def)

text \<open>The state after the status has been read.\<close>

definition peek :: "ctl \<Rightarrow> ctl" where
  "peek s = s\<lparr>net_state := jtouch (net_state s) ''status''\<rparr>"

lemma peek_simps [simp]:
  "trace (peek s) = trace s" "enabled (peek s) = enabled s" "deadline (peek s) = deadline s"
  "jfield (net_state (peek s)) k = jfield (net_state s) k"
  by (simp_all add: peek_def)

lemma indexable_peek [simp]: "indexable (net_state s) \<Longrightarrow> indexable (net_state (peek s))"
  by (simp add: peek_def)

lemma run_status:
  "indexable (net_state s) \<Longrightarrow> bindP (state_at ''status'') f E s = f (status s) E (peek s)"
  by (simp add: bindP_def state_at_run peek_def)

definition clocked :: "env \<Rightarrow> ctl \<Rightarrow> ctl" where
  "clocked E s = s\<lparr>trace := trace s @ [Clock (clock_reply E (trace s))]\<rparr>"

lemma clocked_simps [simp]:
  "trace (clocked E s) = trace s @ [Clock (clock_reply E (trace s))]"
  "net_state (clocked E s) = net_state s" "enabled (clocked E s) = enabled s"
  "deadline (clocked E s) = deadline s"
  by (simp_all add: clocked_def)

lemma tick_eq:
  assumes "indexable (net_state s)"
  shows "tick E s =
    (if \<not> enabled s then (Inr (), s)
     else if status s \<noteq> JString ''awaiting_confirmation'' then (Inr (), peek s)
     else if clock_reply E (trace s) < deadline s then (Inr (), clocked E (peek s))
     else restore E (clocked E (peek s)))"
  using assms
  by (auto simp: tick_def getP_def whenP_def returnP_def run_status run_now clocked_def not_less)

lemma indexable_by_field: "jfield v k = JString x \<Longrightarrow> indexable v"
  by (cases v) (auto simp: jfield_def indexable_def)

lemma restore_indexable:
  assumes "restore E s = (r, t)" "indexable (net_state s)"
  shows "indexable (net_state t)"
  using assms
proof (cases rule: restore_cases)
  case (invalid e)
  then show ?thesis using assms(2) indexable_same by blast
next
  case (unjournaled m)
  show ?thesis by (rule indexable_by_field [OF unjournaled(3)])
next
  case (ran c s1 s2 s3 work errors gone errors' put)
  show ?thesis by (rule indexable_by_field [OF ran(13)])
qed

lemma follows_clocked: "follows s (clocked E (peek s))"
  by (simp add: follows_def)

lemma follows_peek: "follows s (peek s)"
  by (simp add: follows_def)

lemma tick_follows:
  assumes "tick E s = (r, t)" "indexable (net_state s)"
  shows "follows s t" "indexable (net_state t)"
proof -
  have idx: "indexable (net_state (clocked E (peek s)))" using assms(2) by simp
  have "follows s t \<and> indexable (net_state t)"
  proof (cases "restore E (clocked E (peek s)) = (r, t) \<and> status s = JString ''awaiting_confirmation''")
    case True
    then have "follows (clocked E (peek s)) t"
      using idx by (intro restore_follows) auto
    then show ?thesis
      using True idx restore_indexable follows_clocked follows_trans by blast
  next
    case False
    then show ?thesis
      using assms unfolding tick_eq [OF assms(2)]
      by (auto simp: follows_def split: if_splits)
  qed
  then show "follows s t" "indexable (net_state t)" by simp_all
qed

lemma run_require_enabled:
  "thenP require_enabled n E s =
    (if enabled s then n E s else (Inl (Runtime_error ''Network changes disabled''), s))"
  by (simp add: require_enabled_def getP_def throw_if_def throwP_def returnP_def thenP_def bindP_def)

text \<open>What \<open>confirm\<close> does once the timer has been checked.\<close>

definition mark_confirmed :: "unit prog" where
  "mark_confirmed =
     bindP (state_at ''status'') (\<lambda>st.
     thenP (throw_if (st \<noteq> JString ''awaiting_confirmation'') (Runtime_error ''No pending configuration''))
     (thenP (set_state ''status'' (JString ''confirmed'')) put_state))"

lemma confirm_split: "confirm = thenP require_enabled (thenP tick mark_confirmed)"
  by (simp add: confirm_def mark_confirmed_def)

lemma mark_confirmed_eq:
  assumes "indexable (net_state s)"
  defines "j \<equiv> jset (net_state (peek s)) ''status'' (JString ''confirmed'')"
  shows "mark_confirmed E s =
    (if status s \<noteq> JString ''awaiting_confirmation''
     then (Inl (Runtime_error ''No pending configuration''), peek s)
     else (case put_reply E (trace s) ''network'' j of Some m \<Rightarrow> Inl (Runtime_error m) | None \<Rightarrow> Inr (),
           (peek s)\<lparr>net_state := j,
             trace := trace s @ [Store_put ''network'' j (put_reply E (trace s) ''network'' j)]\<rparr>))"
  using assms(1)
  by (simp add: mark_confirmed_def run_status run_throw_if run_set_state run_put_state j_def)

lemma mark_confirmed_follows:
  assumes "mark_confirmed E s = (r, t)" "indexable (net_state s)"
  shows "follows s t"
  using assms unfolding mark_confirmed_eq [OF assms(2)]
  by (auto simp: follows_def status_step_iff split: if_splits)

lemma confirm_follows:
  assumes "confirm E s = (r, t)" "indexable (net_state s)"
  shows "follows s t"
proof (cases "enabled s")
  case False
  then show ?thesis
    using assms by (auto simp: confirm_split run_require_enabled intro: follows_refl)
next
  case True
  obtain r1 s1 where tick: "tick E s = (r1, s1)" by (cases "tick E s")
  note s1 = tick_follows [OF tick assms(2)]
  show ?thesis
  proof (cases r1)
    case (Inl e)
    then show ?thesis
      using assms(1) True tick s1 by (simp add: confirm_split run_require_enabled run_rules)
  next
    case (Inr u)
    then have "mark_confirmed E s1 = (r, t)"
      using assms(1) True tick by (simp add: confirm_split run_require_enabled run_rules)
    then show ?thesis
      using s1 mark_confirmed_follows follows_trans by blast
  qed
qed

lemma rollback_eq:
  assumes "indexable (net_state s)"
  shows "rollback E s =
    (if \<not> enabled s then (Inl (Runtime_error ''Network changes disabled''), s)
     else if status s = JString ''inactive'' then (Inr (), peek s) else restore E (peek s))"
  using assms
  by (simp add: rollback_def run_require_enabled run_status whenP_def returnP_def)

lemma rollback_follows:
  assumes "rollback E s = (r, t)" "indexable (net_state s)"
  shows "follows s t"
proof (cases "enabled s \<and> status s \<noteq> JString ''inactive''")
  case True
  then have "follows (peek s) t"
    using assms rollback_eq by (intro restore_follows) auto
  then show ?thesis using follows_peek follows_trans by blast
next
  case False
  then show ?thesis
    using assms rollback_eq by (auto simp: follows_def split: if_splits)
qed

text \<open>
  C5. The controller refines the documented state machine: whatever the system answers, the statuses
  that \<open>apply\<close>, \<open>confirm\<close>, \<open>rollback\<close> and the timer write to the journal, starting from the current
  status, form a path of it that ends in the status left in memory.
\<close>

theorem journal_follows_state_machine:
  assumes "m \<in> {apply_config c, confirm, rollback, tick}"
    and "m E s = (r, t)" "indexable (net_state s)" "trace t = trace s @ evs"
  shows "status_path (status s) (journal_statuses evs) (status t)"
proof -
  have "follows s t"
    using assms(1-3) apply_follows confirm_follows rollback_follows tick_follows(1) by blast
  then show ?thesis using assms(4) by (simp add: follows_def)
qed

end
