(* ===== verification/Outcomes.thy ===== *)
theory Outcomes
  imports Lifecycle
begin

text \<open>
  The outcome of each public operation of the network controller: when it is refused, what a normal
  return guarantees, what a failure leaves behind, and recovery when the daemon starts.
\<close>

section \<open>Refusal\<close>

lemma preflight_disabled: "\<not> enabled s \<Longrightarrow> \<exists>m. preflight c E s = (Inl (Runtime_error m), s)"
  by (simp add: preflight_def getP_def throw_if_def throwP_def thenP_def bindP_def)

text \<open>
  A controller that was started without permission to change the network is inert: \<open>apply\<close>,
  \<open>confirm\<close> and \<open>rollback\<close> throw at once, the timer returns, and neither the state nor the system is
  touched.
\<close>

theorem disabled_controller_inert:
  assumes "\<not> enabled s"
  shows "(\<exists>m. apply_config c E s = (Inl (Runtime_error m), s)) \<and>
    confirm E s = (Inl (Runtime_error ''Network changes disabled''), s) \<and>
    rollback E s = (Inl (Runtime_error ''Network changes disabled''), s) \<and>
    tick E s = (Inr (), s)"
proof (intro conjI)
  show "\<exists>m. apply_config c E s = (Inl (Runtime_error m), s)"
    using preflight_disabled [OF assms, of c E] by (auto simp: apply_config_def run_first)
  show "tick E s = (Inr (), s)"
    using assms by (simp add: tick_def getP_def whenP_def returnP_def)
qed (use assms in \<open>simp_all add: confirm_def rollback_def run_require_enabled\<close>)

section \<open>Apply\<close>

lemma journaled_config:
  assumes "journaled c j" "validate pton c = []"
  shows "config_from_json pton (jfield j ''config'') = Inr c"
  using assms config_from_config_json by (simp add: journaled_def)

text \<open>
  C13. What a normal return of \<open>apply\<close> guarantees: the configuration is valid, every installation step
  succeeded, the journal holds the configuration with status \<open>awaiting_confirmation\<close>, and the deadline is
  sixty seconds after the clock reading taken when the installation was complete.
\<close>

theorem apply_success:
  assumes "apply_config c E s = (Inr (), t)" "indexable (net_state s)"
  shows "enabled s \<and> status s = JString ''inactive'' \<and> validate (pton_fun E) c = [] \<and>
    (\<exists>s1 s2 \<tau>. install c E s1 = (Inr (), s2) \<and>
       trace t = trace s2 @ [Clock \<tau>, Store_put ''network'' (net_state t) None] \<and>
       deadline t = \<tau> + 60 * 1000000000) \<and>
    status t = JString ''awaiting_confirmation'' \<and> jfield (net_state t) ''config'' = config_json c"
  using assms
proof (cases rule: apply_cases)
  case (started pre s1)
  from started(9,7) show ?thesis
  proof (cases rule: started_cases)
    case (waiting s2 evs \<tau>)
    then have "deadline t = \<tau> + 60 * 1000000000"
      by (simp add: confirmation_window_def)
    moreover have "jfield (net_state t) ''config'' = config_json c"
      using waiting started(6) by (simp add: journaled_def same_state_def)
    moreover have "status t = JString ''awaiting_confirmation''"
      using waiting(6) by simp
    ultimately show ?thesis using started(1-3) waiting(1,5) by blast
  qed auto
qed auto

lemma restore_reached:
  assumes "restore E s = (r, t)" "indexable (net_state s)"
    and "config_from_json (pton_fun E) (jfield (net_state s) ''config'') = Inr c"
  shows "status t \<in> {JString ''rolling_back'', JString ''inactive'', JString ''rollback_failed''}"
  using assms(1,2) by (cases rule: restore_cases) (use assms(3) in auto)

text \<open>
  A rollback of the configuration \<open>c\<close> has been run from the state \<open>s\<close>: its first journal write failed and it
  went no further, or that write succeeded, every step of the restoration was attempted, and the outcome
  was written to the journal. The status is \<open>inactive\<close> only if every step succeeded, the removal of the guard
  included.
\<close>

definition ran_rollback :: "env \<Rightarrow> NetworkConfig \<Rightarrow> ctl \<Rightarrow> unit result \<Rightarrow> ctl \<Rightarrow> bool" where
  "ran_rollback E c s r t \<longleftrightarrow>
     (\<exists>m. r = Inl (Runtime_error m) \<and> status t = JString ''rolling_back'' \<and>
        trace t = trace s @ [Store_put ''network'' (net_state t) (Some m)]) \<or>
     (\<exists>s1 errors s2 rest put.
        trace s1 = trace s @ [Store_put ''network'' (net_state s1) None] \<and> status s1 = JString ''rolling_back'' \<and>
        (\<forall>k. k \<noteq> ''status'' \<longrightarrow> jfield (net_state s1) k = jfield (net_state s) k) \<and>
        restore_work c E s1 = (Inr errors, s2) \<and>
        trace t = trace s2 @ rest @ [Store_put ''network'' (net_state t) put] \<and>
        (status t = JString ''inactive'' \<and> restore_all c E s1 = (Inr (), s2) \<and>
           (\<exists>s3. remove_guard E s2 = (Inr (), s3) \<and> trace s3 = trace s2 @ rest) \<and>
           r = (case put of None \<Rightarrow> Inr () | Some m \<Rightarrow> Inl (Runtime_error m)) \<or>
         status t = JString ''rollback_failed'' \<and> (\<exists>e. r = Inl e)))"

lemma restore_ran:
  assumes "restore E s = (r, t)" "indexable (net_state s)"
    and "config_from_json (pton_fun E) (jfield (net_state s) ''config'') = Inr c"
  shows "ran_rollback E c s r t"
  using assms(1,2)
proof (cases rule: restore_cases)
  case (invalid e)
  then show ?thesis using assms(3) by simp
next
  case (unjournaled m)
  then show ?thesis by (auto simp: ran_rollback_def)
next
  case (ran c' s1 s2 s3 work errors gone errors' put)
  have c: "c' = c" using ran(1) assms(3) by simp
  show ?thesis
  proof (cases "errors' = []")
    case True
    then have "errors = []" using ran(11) by blast
    then have all: "restore_all c E s1 = (Inr (), s2)" using ran(5) restore_work_complete c by simp
    have "attempt remove_guard E s2 = (Inr [], s3)" using ran(8) \<open>errors = []\<close> True by simp
    then have "remove_guard E s2 = (Inr (), s3)"
      using attempt_run [OF emits_remove_guard, of E s2] by fastforce
    moreover have "r = (case put of None \<Rightarrow> Inr () | Some m \<Rightarrow> Inl (Runtime_error m))"
      using ran(16) True by (simp add: restore_result_def split: option.splits)
    ultimately show ?thesis
      unfolding ran_rollback_def using ran(2-5,9,12,13) True all c
      by (intro disjI2 exI [of _ s1] exI [of _ errors] exI [of _ s2] exI [of _ gone] exI [of _ put]) auto
  next
    case False
    then have "\<exists>e. r = Inl e" using ran(16) by (simp add: restore_result_def split: option.splits)
    then show ?thesis
      unfolding ran_rollback_def using ran(2-5,9,12,13) False c
      by (intro disjI2 exI [of _ s1] exI [of _ errors] exI [of _ s2] exI [of _ gone] exI [of _ put]) auto
  qed
qed

text \<open>The error of a failed \<open>apply\<close>: that of the installation, with the one of the rollback when it failed too.\<close>

definition undo_error :: "exn \<Rightarrow> unit result \<Rightarrow> exn" where
  "undo_error e r = Runtime_error (what e @ (case r of Inr _ \<Rightarrow> [] | Inl e' \<Rightarrow> ''; rollback failed: '' @ what e'))"

lemma install_undone:
  assumes "catchP (install_and_wait c) undo E s = (Inl x, t)" "indexable (net_state s)"
  obtains e s2 r where "install_and_wait c E s = (Inl e, s2)" "restore E s2 = (r, t)" "x = undo_error e r"
    "indexable (net_state s2)" "jfield (net_state s2) ''config'' = jfield (net_state s) ''config''"
proof -
  obtain r1 s2 where i: "install_and_wait c E s = (r1, s2)" by (cases "install_and_wait c E s")
  from i assms(2) have s2: "indexable (net_state s2)" "jfield (net_state s2) ''config'' = jfield (net_state s) ''config''"
    "\<forall>e. r1 = Inl e \<longrightarrow> is_std_exception e"
    by (cases rule: install_and_wait_cases; auto simp: same_state_def is_std_exception_def split: option.splits)+
  obtain e where e: "r1 = Inl e" using assms(1) i by (cases r1) (auto simp: catchP_def)
  obtain r t' where r: "restore E s2 = (r, t')" by (cases "restore E s2")
  have "undo e E s2 = (Inl (undo_error e r), t')"
    using r restore_std [OF r s2(1)]
    by (cases r) (auto simp: undo_def catchP_def thenP_def bindP_def throwP_def is_std_exception_def undo_error_def)
  then have "x = undo_error e r" "t' = t" using assms(1) i e s2(3) by (simp_all add: catchP_def)
  with that i e r s2 show ?thesis by blast
qed

lemma apply_failure_undone:
  assumes "apply_config c E s = (Inl x, t)" "indexable (net_state s)"
    and "trace t = trace s @ evs" "e \<in> set evs" "mutates e"
  shows "\<exists>pre s1 error s2 r. trace s1 = trace s @ pre @ [Store_put ''network'' (net_state s1) None] \<and>
    list_all read_only pre \<and> journaled c (net_state s1) \<and>
    install_and_wait c E s1 = (Inl error, s2) \<and> ran_rollback E c s2 r t \<and> x = undo_error error r"
  using assms(1,2)
proof (cases rule: apply_cases)
  case (refused x pre)
  then show ?thesis using assms(3-5) by (auto simp: list_all_iff mutates_def)
next
  case (unjournaled pre m)
  then show ?thesis using assms(3-5) by (auto simp: list_all_iff mutates_def)
next
  case (started pre s1)
  obtain error s2 r where s2: "install_and_wait c E s1 = (Inl error, s2)" "restore E s2 = (r, t)"
    "x = undo_error error r" "indexable (net_state s2)"
    "jfield (net_state s2) ''config'' = jfield (net_state s1) ''config''"
    using install_undone [OF started(9,7)] .
  have "ran_rollback E c s2 r t"
    by (rule restore_ran [OF s2(2,4)]) (use s2(5) journaled_config [OF started(6,3)] in simp)
  then show ?thesis using started(4,5,6) s2(1,3) by blast
qed

text \<open>
  C7. A failed \<open>apply\<close> rolls back: if it throws after it has touched the system, then it had journaled the
  configuration, its installation (or the journal write after it) failed, and from the state this left a
  rollback of the configuration has been run; the exception carries both messages. So the system has been
  restored and the status is \<open>inactive\<close>, or the status is \<open>rollback_failed\<close> or \<open>rolling_back\<close>.
\<close>

theorem apply_failure_rolls_back:
  assumes "apply_config c E s = (Inl x, t)" "indexable (net_state s)"
    and "trace t = trace s @ evs" "e \<in> set evs" "mutates e"
  shows "\<exists>pre s1 error s2 r. trace s1 = trace s @ pre @ [Store_put ''network'' (net_state s1) None] \<and>
    list_all read_only pre \<and> journaled c (net_state s1) \<and>
    install_and_wait c E s1 = (Inl error, s2) \<and> ran_rollback E c s2 r t \<and> x = undo_error error r"
  using assms by (rule apply_failure_undone)

section \<open>Confirmation window\<close>

lemma restore_status_or_error:
  assumes "restore E s = (Inr (), t)" "indexable (net_state s)"
  shows "status t = JString ''inactive''"
  using assms
  by (cases rule: restore_cases) (auto simp: restore_result_def split: option.splits if_splits)

lemma confirm_in_time:
  assumes "confirm E s = (Inr (), t)" "indexable (net_state s)"
  shows "\<exists>\<tau>. trace t = trace s @ [Clock \<tau>, Store_put ''network'' (net_state t) None] \<and>
    \<tau> < deadline s \<and> status s = JString ''awaiting_confirmation'' \<and>
    status t = JString ''confirmed'' \<and> jfield (net_state t) ''config'' = jfield (net_state s) ''config''"
proof -
  have en: "enabled s"
    using assms(1) by (simp add: confirm_split run_require_enabled split: if_splits)
  obtain s1 where tick: "tick E s = (Inr (), s1)" and mark: "mark_confirmed E s1 = (Inr (), t)"
    using assms(1) en by (auto simp: confirm_split run_require_enabled thenP_Inr)
  note idx = tick_follows(2) [OF tick assms(2)]
  have st1: "status s1 = JString ''awaiting_confirmation''"
    using mark by (simp add: mark_confirmed_eq [OF idx] split: if_splits)
  have idx': "indexable (net_state (clocked E (peek s)))" using assms(2) by simp
  have "restore E (clocked E (peek s)) \<noteq> (Inr (), s1)"
    using restore_status_or_error [OF _ idx'] st1 by fastforce
  then have s1: "s1 = clocked E (peek s)" "clock_reply E (trace s) < deadline s"
      "status s = JString ''awaiting_confirmation''"
    using tick st1 en unfolding tick_eq [OF assms(2)] by (auto split: if_splits)
  then show ?thesis
    using mark st1 unfolding mark_confirmed_eq [OF idx] by (auto split: option.splits)
qed

text \<open>
  C14. Confirmation only within the window: if \<open>confirm\<close> returns, the clock was read before the deadline
  of a configuration that was awaiting confirmation, nothing but the clock reading and one successful
  journal write happened, and the configuration is now \<open>confirmed\<close> in memory and in the journal.
\<close>

theorem confirm_only_before_deadline:
  assumes "confirm E s = (Inr (), t)" "indexable (net_state s)"
  shows "\<exists>\<tau>. trace t = trace s @ [Clock \<tau>, Store_put ''network'' (net_state t) None] \<and>
    \<tau> < deadline s \<and> status s = JString ''awaiting_confirmation'' \<and>
    status t = JString ''confirmed'' \<and> jfield (net_state t) ''config'' = jfield (net_state s) ''config''"
  using assms by (rule confirm_in_time)

text \<open>
  C15. The timer rolls an unconfirmed configuration back: at or after the deadline, \<open>tick\<close> reads the clock
  and then runs a rollback of the configuration, so it returns normally only when everything is restored
  and the status is \<open>inactive\<close>; before the deadline it only reads the clock.
\<close>

theorem tick_enforces_deadline:
  assumes "enabled s" "status s = JString ''awaiting_confirmation''" "indexable (net_state s)"
    and "config_from_json (pton_fun E) (jfield (net_state s) ''config'') = Inr c"
    and "tick E s = (r, t)"
  shows "if clock_reply E (trace s) < deadline s
    then r = Inr () \<and> trace t = trace s @ [Clock (clock_reply E (trace s))] \<and> status t = status s
    else (\<exists>s1. trace s1 = trace s @ [Clock (clock_reply E (trace s))] \<and>
        (\<forall>k. jfield (net_state s1) k = jfield (net_state s) k) \<and> ran_rollback E c s1 r t) \<and>
      status t \<in> {JString ''rolling_back'', JString ''inactive'', JString ''rollback_failed''} \<and>
      (r = Inr () \<longrightarrow> status t = JString ''inactive'')"
proof (cases "clock_reply E (trace s) < deadline s")
  case True
  then show ?thesis using assms by (auto simp: tick_eq)
next
  case False
  let ?s = "clocked E (peek s)"
  have run: "restore E ?s = (r, t)"
    using False assms by (simp add: tick_eq)
  have s1: "indexable (net_state ?s)" "trace ?s = trace s @ [Clock (clock_reply E (trace s))]"
    "\<forall>k. jfield (net_state ?s) k = jfield (net_state s) k"
    using assms(3) by simp_all
  have config: "config_from_json (pton_fun E) (jfield (net_state ?s) ''config'') = Inr c"
    using assms(4) s1(3) by simp
  have ran: "\<exists>s1. trace s1 = trace s @ [Clock (clock_reply E (trace s))] \<and>
      (\<forall>k. jfield (net_state s1) k = jfield (net_state s) k) \<and> ran_rollback E c s1 r t"
    using s1(2,3) restore_ran [OF run s1(1) config] by blast
  have reached: "status t \<in> {JString ''rolling_back'', JString ''inactive'', JString ''rollback_failed''}"
    using run s1(1) config by (rule restore_reached)
  have "r = Inr () \<longrightarrow> status t = JString ''inactive''"
    using restore_status_or_error [of E ?s t] run s1(1) by simp
  with False ran reached show ?thesis by simp
qed

text \<open>
  The timer does not retry. If the rollback it started could not write its first journal entry, the
  status in memory is \<open>rolling_back\<close> and no later \<open>tick\<close> does anything, however far the deadline has
  passed, while everything that was installed is still in place.
\<close>

theorem tick_does_not_retry:
  assumes "enabled s" "status s = JString ''awaiting_confirmation''" "indexable (net_state s)"
    and "config_from_json (pton_fun E) (jfield (net_state s) ''config'') = Inr c"
    and "deadline s \<le> clock_reply E (trace s)"
    and "\<forall>evs j. put_reply E evs ''network'' j = Some (m evs j)"
    and "tick E s = (r, t)"
  shows "status t = JString ''rolling_back'' \<and> (\<exists>x. r = Inl x) \<and>
    (\<forall>e \<in> set (drop (length (trace s)) (trace t)). \<not> mutates e) \<and>
    (\<forall>E'. fst (tick E' t) = Inr () \<and> trace (snd (tick E' t)) = trace t)"
proof -
  let ?s = "clocked E (peek s)"
  have idx: "indexable (net_state ?s)" using assms(3) by simp
  have run: "restore E ?s = (r, t)"
    using assms by (simp add: tick_eq)
  have idx_t: "indexable (net_state t)"
    using run idx by (rule restore_indexable)
  let ?j = "jset (jtouch (net_state ?s) ''config'') ''status'' (JString ''rolling_back'')"
  have "\<exists>x. put_reply E (trace ?s) ''network'' ?j = Some x" using assms(6) by blast
  then obtain x where x: "put_reply E (trace ?s) ''network'' ?j = Some x" ..
  let ?s' = "?s\<lparr>net_state := jtouch (net_state ?s) ''config''\<rparr>"
  have "state_at ''config'' E ?s = (Inr (jfield (net_state s) ''config''), ?s')"
    using idx by (simp add: state_at_run)
  moreover have "read_config (jfield (net_state s) ''config'') E ?s' = (Inr c, ?s')"
    using assms(4) by (simp add: read_config_def askP_def liftP_def)
  moreover have "put_state E (?s'\<lparr>net_state := ?j\<rparr>) = (Inl (Runtime_error x),
      ?s\<lparr>net_state := ?j, trace := trace ?s @ [Store_put ''network'' ?j (Some x)]\<rparr>)"
    using x by (simp add: run_put_state)
  moreover have "indexable (net_state ?s')"
    using idx by simp
  ultimately have "(r, t) = (Inl (Runtime_error x),
      ?s\<lparr>net_state := ?j, trace := trace ?s @ [Store_put ''network'' ?j (Some x)]\<rparr>)"
    using run by (simp add: restore_def run_first run_set_state)
  then show ?thesis
    using idx_t by (auto simp: tick_eq mutates_def)
qed

end
