(* ===== verification/Recovery.thy ===== *)
theory Recovery
  imports Outcomes
begin

text \<open>
  Starting the network controller: the namespace lock precedes every change, an interrupted or
  unconfirmed configuration is rolled back, a confirmed one is restored and applied again; and what a
  completed rollback has written back.
\<close>

section \<open>The namespace lock\<close>

lemma acquire_lock_emits: "emits read_only acquire_lock"
  unfolding acquire_lock_def
  by (intro emits_rules emits_create_directories emits_stat_netns emits_lock_file) simp_all

lemma acquire_lock_Inr:
  assumes "acquire_lock E s = (Inr (), t)"
  shows "\<exists>evs path. trace t = trace s @ evs @ [Lock_file path True] \<and> list_all read_only evs"
  using assms
  by (auto simp: acquire_lock_def thenP_def bindP_def create_directories_def stat_netns_def lock_file_def
      emit_def Let_def throw_if_def throwP_def returnP_def split: option.splits if_splits)

section \<open>Recovery\<close>

definition restart :: "json \<Rightarrow> json \<Rightarrow> unit prog" where
  "restart st desired =
     thenP restore
     (whenP (st = JString ''confirmed'') (thenP (bindP (read_config desired) apply_config) confirm))"

lemma recover_eq:
  assumes "indexable (net_state s)"
  shows "recover E s =
    (if status s \<noteq> JString ''inactive'' \<and> enabled s
     then restart (status s) (jfield (net_state s) ''config'') E
       (s\<lparr>net_state := jtouch (net_state (peek s)) ''config''\<rparr>)
     else (Inr (), peek s))"
proof -
  have "bindP (state_at ''config'') f E (peek s) =
      f (jfield (net_state s) ''config'') E (s\<lparr>net_state := jtouch (net_state (peek s)) ''config''\<rparr>)"
    for f :: "json \<Rightarrow> unit prog"
    using indexable_peek [OF assms] by (simp add: bindP_def state_at_run) (simp add: peek_def)
  then show ?thesis
    using assms by (simp add: recover_def restart_def run_status getP_def whenP_def returnP_def)
qed

lemma apply_indexable:
  assumes "apply_config c E s = (Inr (), t)" "indexable (net_state s)"
  shows "indexable (net_state t)" "status t = JString ''awaiting_confirmation''"
proof -
  show "status t = JString ''awaiting_confirmation''"
    using assms
  proof (cases rule: apply_cases)
    case (started pre s1)
    from started(9,7) show ?thesis by (cases rule: started_cases) auto
  qed auto
  then show "indexable (net_state t)" by (rule indexable_by_field)
qed

lemma read_config_run: "bindP (read_config v) f E s =
  (case config_from_json (pton_fun E) v of Inl e \<Rightarrow> (Inl e, s) | Inr c \<Rightarrow> f c E s)"
  by (simp add: read_config_def askP_def liftP_def bindP_def split: sum.splits)

lemma restart_Inr:
  assumes "restart st desired E s = (Inr (), t)" "indexable (net_state s)"
  shows "status t = JString (if st = JString ''confirmed'' then ''confirmed'' else ''inactive'')"
proof -
  obtain s1 where r: "restore E s = (Inr (), s1)"
    and w: "whenP (st = JString ''confirmed'') (thenP (bindP (read_config desired) apply_config) confirm) E s1 = (Inr (), t)"
    using assms(1) by (auto simp: restart_def thenP_Inr)
  show ?thesis
  proof (cases "st = JString ''confirmed''")
    case False
    then show ?thesis
      using w restore_status_or_error [OF r assms(2)] by (simp add: whenP_def returnP_def)
  next
    case True
    then obtain s2 where a: "bindP (read_config desired) apply_config E s1 = (Inr (), s2)"
      and c: "confirm E s2 = (Inr (), t)"
      using w by (auto simp: whenP_def thenP_Inr)
    then obtain c' where "apply_config c' E s1 = (Inr (), s2)"
      by (auto simp: read_config_run split: sum.splits)
    then have "indexable (net_state s2)"
      using apply_indexable(1) restore_indexable [OF r assms(2)] by blast
    then show ?thesis
      using confirm_in_time [OF c] True by auto
  qed
qed

lemma follows_extends: "follows s t \<Longrightarrow> \<exists>evs. trace t = trace s @ evs"
  by (auto simp: follows_def)

lemma restart_extends:
  assumes "restart st desired E s = (r, t)" "indexable (net_state s)"
  shows "\<exists>evs. trace t = trace s @ evs"
proof -
  obtain r1 s1 where r: "restore E s = (r1, s1)" by (cases "restore E s")
  note e1 = restore_extends [OF r assms(2)] and idx1 = restore_indexable [OF r assms(2)]
  show ?thesis
  proof (cases "r1 = Inr () \<and> st = JString ''confirmed''")
    case False
    then have "t = s1"
      using assms(1) r by (cases r1) (auto simp: restart_def run_first whenP_def returnP_def)
    with e1 show ?thesis by simp
  next
    case True
    obtain r2 s2 where a: "bindP (read_config desired) apply_config E s1 = (r2, s2)"
      by (cases "bindP (read_config desired) apply_config E s1")
    have rest: "thenP (bindP (read_config desired) apply_config) confirm E s1 = (r, t)"
      using assms(1) r True by (simp add: restart_def run_first whenP_def)
    have e2: "\<exists>evs. trace s2 = trace s1 @ evs"
      using a apply_follows [OF _ idx1, THEN follows_extends]
      by (auto simp: read_config_run split: sum.splits)
    show ?thesis
    proof (cases r2)
      case (Inl x)
      then have "t = s2" using rest a by (simp add: run_first)
      with e1 e2 show ?thesis by auto
    next
      case (Inr u)
      then obtain c where "apply_config c E s1 = (Inr (), s2)"
        using a by (auto simp: read_config_run split: sum.splits)
      then have "indexable (net_state s2)" using apply_indexable(1) idx1 by blast
      moreover have "confirm E s2 = (r, t)" using Inr rest a by (simp add: run_first)
      ultimately have "\<exists>evs. trace t = trace s2 @ evs"
        using confirm_follows follows_extends by blast
      with e1 e2 show ?thesis by auto
    qed
  qed
qed

lemma recover_extends:
  assumes "recover E s = (r, t)"
  shows "\<exists>evs. trace t = trace s @ evs"
proof (cases "indexable (net_state s)")
  case False
  then show ?thesis
    using assms by (auto simp: recover_def bindP_def state_at_def)
next
  case True
  have "indexable (jtouch (net_state (peek s)) ''config'')" using True by simp
  then show ?thesis
    using assms restart_extends unfolding recover_eq [OF True] by (force split: if_splits)
qed

text \<open>The part of the constructor that follows the lock.\<close>

definition resume :: "unit prog" where
  "resume = thenP (getP (\<lambda>s. whenP (net_state s = JNull) (set_state ''status'' (JString ''inactive'')))) recover"

lemma resume_eq:
  "resume E s = recover E (if net_state s = JNull then s\<lparr>net_state := jset JNull ''status'' (JString ''inactive'')\<rparr> else s)"
  by (simp add: resume_def thenP_def bindP_def getP_def whenP_def returnP_def set_state_def indexable_def)

lemma start_controller_eq:
  "start_controller = bindP (store_get ''network'') (\<lambda>v. thenP (load_state v)
     (thenP (getP (\<lambda>s. whenP (enabled s) acquire_lock)) resume))"
  by (simp add: start_controller_def resume_def)

lemma run_load_state: "thenP (load_state v) n E s = n E (s\<lparr>net_state := v\<rparr>)"
  by (simp add: thenP_def bindP_def load_state_def)

lemma store_get_emits: "emits read_only (store_get key)"
  by (rule emits_store_get) simp

lemma resume_Inr:
  assumes "resume E s = (Inr (), t)" "enabled s"
  shows "status t = JString (if status s = JString ''confirmed'' then ''confirmed'' else ''inactive'')"
proof -
  let ?s = "if net_state s = JNull then s\<lparr>net_state := jset JNull ''status'' (JString ''inactive'')\<rparr> else s"
  have run: "recover E ?s = (Inr (), t)" using assms(1) by (simp add: resume_eq)
  then have idx: "indexable (net_state ?s)"
    by (auto simp: recover_def bindP_def state_at_def split: if_splits)
  have st: "status ?s = JString ''confirmed'' \<longleftrightarrow> status s = JString ''confirmed''"
    by simp
  have idx': "indexable (net_state (?s\<lparr>net_state := jtouch (net_state (peek ?s)) ''config''\<rparr>))"
    using idx by simp
  show ?thesis
  proof (cases "status ?s = JString ''inactive''")
    case True
    then show ?thesis
      using run st unfolding recover_eq [OF idx] by auto
  next
    case False
    then have "restart (status ?s) (jfield (net_state ?s) ''config'') E
        (?s\<lparr>net_state := jtouch (net_state (peek ?s)) ''config''\<rparr>) = (Inr (), t)"
      using run assms(2) unfolding recover_eq [OF idx] by (simp split: if_splits)
    from restart_Inr [OF this idx'] show ?thesis by (simp only: st)
  qed
qed

lemma start_outcome:
  assumes "start_controller E (new_controller True) = (Inr (), t)"
  shows "\<exists>v s. store_get ''network'' E (new_controller True) = (Inr v, s) \<and>
    status t = JString (if jfield v ''status'' = JString ''confirmed'' then ''confirmed'' else ''inactive'')"
proof -
  obtain v s1 where get: "store_get ''network'' E (new_controller True) = (Inr v, s1)"
    and rest: "thenP (getP (\<lambda>s. whenP (enabled s) acquire_lock)) resume E (s1\<lparr>net_state := v\<rparr>) = (Inr (), t)"
    using assms unfolding start_controller_eq bindP_Inr run_load_state by blast
  have en: "enabled s1"
    using emitsD [OF store_get_emits get] by (auto simp: same_state_def new_controller_def)
  obtain s2 where lock: "acquire_lock E (s1\<lparr>net_state := v\<rparr>) = (Inr (), s2)"
    and res: "resume E s2 = (Inr (), t)"
    using rest en by (auto simp: thenP_Inr getP_def whenP_def)
  have "same_state (s1\<lparr>net_state := v\<rparr>) s2"
    using emitsD [OF acquire_lock_emits lock] by blast
  then have "enabled s2" "status s2 = jfield v ''status''"
    using en by (simp_all add: same_state_def)
  with resume_Inr [OF res] get show ?thesis by auto
qed

text \<open>
  Recovery. When a controller that may change the network has started, nothing is left half done: if
  the journal it found said \<open>confirmed\<close>, that configuration has been restored, applied again and
  confirmed; whatever else it said, the status is now \<open>inactive\<close>.
\<close>

theorem start_recovers:
  assumes "start_controller E (new_controller True) = (Inr (), t)"
  shows "\<exists>v s. store_get ''network'' E (new_controller True) = (Inr v, s) \<and>
    status t = JString (if jfield v ''status'' = JString ''confirmed'' then ''confirmed'' else ''inactive'')"
  using assms by (rule start_outcome)

text \<open>
  C40. One controller per network namespace: when the controller starts, every change of the system and
  every journal write comes after the exclusive lock has been obtained.
\<close>

theorem start_locks_first:
  assumes "start_controller E (new_controller True) = (r, t)"
    and "trace t = pre @ e # post" "\<not> read_only e"
  shows "\<exists>path. Lock_file path True \<in> set pre"
proof -
  let ?s0 = "new_controller True"
  obtain r1 s1 where get: "store_get ''network'' E ?s0 = (r1, s1)"
    by (cases "store_get ''network'' E ?s0")
  obtain xs where xs: "trace s1 = xs" "list_all read_only xs" and en: "enabled s1"
    using emitsD [OF store_get_emits get] by (auto simp: same_state_def new_controller_def)
  have e_xs: "e \<notin> set zs" if "list_all read_only zs" for zs
    using that assms(3) by (auto simp: list_all_iff)
  have "r1 \<noteq> Inl x" for x
    using assms(1,2) get xs(1) e_xs [OF xs(2)] by (auto simp: start_controller_eq run_first)
  then obtain v where v: "r1 = Inr v" by (cases r1) auto
  let ?s1 = "s1\<lparr>net_state := v\<rparr>"
  obtain r2 s2 where lock: "acquire_lock E ?s1 = (r2, s2)" by (cases "acquire_lock E ?s1")
  obtain ys where ys: "trace s2 = trace ?s1 @ ys" "list_all read_only ys"
    using emitsD [OF acquire_lock_emits lock] by blast
  have rest: "thenP acquire_lock resume E ?s1 = (r, t)"
    using assms(1) get v en
    by (simp add: start_controller_eq run_first load_state_def thenP_def bindP_def getP_def whenP_def)
  have "r2 \<noteq> Inl x" for x
  proof
    assume "r2 = Inl x"
    then have "t = s2" using rest lock by (simp add: run_first)
    then have "e \<in> set (xs @ ys)"
      using assms(2) xs(1) ys(1) by (intro in_middle [of _ pre e post]) simp
    then show False using e_xs [of "xs @ ys"] xs(2) ys(2) by simp
  qed
  then have ok: "r2 = Inr ()" by (cases r2) auto
  obtain zs path where z: "trace s2 = trace ?s1 @ zs @ [Lock_file path True]" "list_all read_only zs"
    using acquire_lock_Inr lock ok by blast
  have "resume E s2 = (r, t)" using rest lock ok by (simp add: run_first)
  then obtain ws where ws: "trace t = trace s2 @ ws"
    using recover_extends by (fastforce simp: resume_eq)
  have "pre @ e # post = (xs @ zs) @ Lock_file path True # ws"
    using assms(2) ws z(1) xs(1) by simp
  moreover have "list_all (\<lambda>e. \<not> \<not> read_only e) (xs @ zs)"
    using xs(2) z(2) by simp
  ultimately have "Lock_file path True \<in> set pre"
    using assms(3) by (rule first_of_kind) simp
  then show ?thesis by blast
qed

end
