(* ===== verification/Rollback.thy ===== *)
theory Rollback
  imports Recovery
begin

text \<open>
  What a rollback that returns normally has done: every setting that was recorded before the
  installation has been written back, and each write was acknowledged.
\<close>

section \<open>Events of a run\<close>

definition logged :: "ctl \<Rightarrow> ctl \<Rightarrow> event \<Rightarrow> bool" where
  "logged s t e \<longleftrightarrow> (\<exists>x. trace t = trace s @ x \<and> e \<in> set x)"

definition extends :: "ctl \<Rightarrow> ctl \<Rightarrow> bool" where
  "extends s t \<longleftrightarrow> (\<exists>x. trace t = trace s @ x)"

lemma extends_refl [simp]: "extends s s"
  by (simp add: extends_def)

lemma extends_trans: "extends s t \<Longrightarrow> extends t u \<Longrightarrow> extends s u"
  by (auto simp: extends_def)

lemma logged_extends: "extends s s1 \<Longrightarrow> logged s1 s2 e \<Longrightarrow> extends s2 t \<Longrightarrow> logged s t e"
  by (auto simp: extends_def logged_def)

lemma emits_extends: "emits P m \<Longrightarrow> m E s = (r, t) \<Longrightarrow> extends s t \<and> same_state s t"
  by (erule (1) emitsD) (auto simp: extends_def)

text \<open>Every step of a sequence that succeeds has itself succeeded, from an equivalent state.\<close>

lemma run_steps_member:
  assumes "run_steps ms E s = (Inr (), t)" "m \<in> set ms" "\<forall>m \<in> set ms. emits P m"
  obtains s1 s2 where "m E s1 = (Inr (), s2)" "same_state s s1" "extends s s1" "extends s2 t"
  using assms
proof (induction ms arbitrary: s thesis)
  case (Cons m' ms)
  obtain s' where m': "m' E s = (Inr (), s')" and ms: "run_steps ms E s' = (Inr (), t)"
    using Cons.prems(2) by (auto simp: thenP_Inr)
  have ext: "extends s s'" "same_state s s'"
    using emits_extends m' Cons.prems(4) by (metis list.set_intros(1) bspec)+
  have "emits P (run_steps ms)"
    using Cons.prems(4) by (intro emits_run_steps) simp
  then have ext': "extends s' t"
    using emits_extends ms by blast
  show ?case
  proof (cases "m = m'")
    case True
    then show ?thesis using Cons.prems(1) m' ext' by simp
  next
    case False
    then obtain s1 s2 where "m E s1 = (Inr (), s2)" "same_state s' s1" "extends s' s1" "extends s2 t"
      using Cons.IH [OF _ ms] Cons.prems(3,4) by auto
    then show ?thesis
      using Cons.prems(1) ext same_state_trans extends_trans by blast
  qed
qed simp

lemma write_file_trace:
  "write_file path v E s = (Inr (), t) \<Longrightarrow> trace t = trace s @ [Write_file path v True]"
  by (auto simp: write_file_def emit_def Let_def split: if_splits)

lemma write_file_Inr:
  "write_file path v E s = (Inr (), t) \<Longrightarrow> logged s t (Write_file path v True)"
  using write_file_trace by (fastforce simp: logged_def)

lemma restore_sysctl_Inr:
  assumes "restore_sysctl path key E s = (Inr (), t)" "jfield (net_state s) key = JString v"
  shows "logged s t (Write_file path v True)"
proof -
  obtain x s1 where st: "state_at key E s = (Inr x, s1)"
    and w: "bindP (as_stringP x) (\<lambda>text. write_file path text) E s1 = (Inr (), t)"
    using assms(1) by (auto simp: restore_sysctl_def bindP_Inr)
  have "x = JString v" using state_at_Inr [OF st] assms(2) by simp
  then have "write_file path v E s1 = (Inr (), t)"
    using w by (simp add: as_stringP_def askP_def liftP_def bindP_def)
  moreover have "extends s s1"
    using st by (auto simp: state_at_def extends_def split: if_splits)
  ultimately show ?thesis
    using write_file_Inr logged_extends extends_refl by blast
qed

section \<open>Interfaces\<close>

lemma index_of_Inr:
  assumes "index_of name E s = (Inr i, t)"
  shows "i \<noteq> 0 \<and> trace t = trace s @ [If_index (c_str name) i]"
  using assms
  by (auto simp: index_of_def if_nametoindex_def bindP_def emit_def Let_def throwP_def returnP_def
      split: if_splits)

text \<open>
  The events of a successful change of a link: a socket, the lookup of the interface by its name, and one
  acknowledged message for the interface that was found, which says whether it is to be up.
\<close>

definition link_events :: "u32 \<Rightarrow> string \<Rightarrow> bool \<Rightarrow> nl_attr list \<Rightarrow> event list" where
  "link_events i name up attrs =
     [Nl_open NETLINK_ROUTE True, If_index (c_str name) i,
      Nl_transact NETLINK_ROUTE
        \<lparr>nl_type = RTM_NEWLINK, nl_flags = [NLM_F_REQUEST, NLM_F_ACK], nl_header = Ifinfomsg i True up,
         nl_attrs = attrs\<rparr> Nl_ack]"

lemma link_state_Inr:
  assumes "link_state name up mac E s = (Inr (), t)"
  shows "\<exists>i attrs. i \<noteq> 0 \<and> trace t = trace s @ link_events i name up attrs \<and>
    (if mac = [] then attrs = []
     else \<exists>bytes. mac_octets mac [0..<6] = Inr bytes \<and> attrs = [IFLA_ADDRESS bytes])"
proof -
  obtain s1 i s2 attrs where 1: "nl_open NETLINK_ROUTE E s = (Inr (), s1)"
    and 2: "index_of name E s1 = (Inr i, s2)"
    and 3: "if mac = [] then attrs = []
      else \<exists>bytes. mac_octets mac [0..<6] = Inr bytes \<and> attrs = [IFLA_ADDRESS bytes]"
    and 4: "nl_transact NETLINK_ROUTE \<lparr>nl_type = RTM_NEWLINK, nl_flags = [NLM_F_REQUEST, NLM_F_ACK],
      nl_header = Ifinfomsg i True up, nl_attrs = attrs\<rparr> False E s2 = (Inr (), t)"
    using assms
    by (fastforce simp: link_state_def netlink_def thenP_Inr bindP_Inr liftP_def returnP_def split: if_splits)
  have "trace s1 = trace s @ [Nl_open NETLINK_ROUTE True]"
    using 1 by (auto simp: nl_open_def emit_def Let_def split: if_splits)
  moreover have "i \<noteq> 0 \<and> trace s2 = trace s1 @ [If_index (c_str name) i]"
    using 2 by (rule index_of_Inr)
  moreover have "trace t = trace s2 @ [Nl_transact NETLINK_ROUTE \<lparr>nl_type = RTM_NEWLINK,
      nl_flags = [NLM_F_REQUEST, NLM_F_ACK], nl_header = Ifinfomsg i True up, nl_attrs = attrs\<rparr> Nl_ack]"
    using 4 by (auto simp: nl_transact_def emit_def Let_def split: nl_reply.splits if_splits)
  ultimately show ?thesis
    using 3 by (intro exI [of _ i] exI [of _ attrs]) (simp add: link_events_def)
qed

text \<open>
  The events that put one recorded interface back: the link goes down, takes its address, gets its two
  settings, and ends up as it was recorded.
\<close>

definition puts_back :: "string \<Rightarrow> byte list \<Rightarrow> string \<Rightarrow> string \<Rightarrow> bool \<Rightarrow> event list \<Rightarrow> bool" where
  "puts_back n bytes d p up evs \<longleftrightarrow>
     (\<exists>i j k. i \<noteq> 0 \<and> j \<noteq> 0 \<and> k \<noteq> 0 \<and>
        evs = link_events i n False [] @ link_events j n False [IFLA_ADDRESS bytes] @
          [Write_file (ipv6_path n) d True, Write_file (rp_filter_path n) p True] @
          link_events k n up [])"

definition text_field :: "json \<Rightarrow> string \<Rightarrow> string \<Rightarrow> bool" where
  "text_field info key v \<longleftrightarrow> jindex info key = Inr (JString v)"

lemma run_field_text:
  "text_field info key v \<Longrightarrow> bindP (field_text info key) f E s = f v E s"
  by (simp add: text_field_def field_text_def as_stringP_def askP_def liftP_def bindP_def)

lemma restore_interface_Inr:
  assumes "restore_interface info E s = (Inr (), t)"
    and "text_field info ''ifname'' n" "text_field info ''address'' mac" "mac \<noteq> []"
    and "text_field info ''disable_ipv6'' d" "text_field info ''rp_filter'' p"
    and "jindex info ''flags'' = Inr flags"
  shows "\<exists>bytes evs. mac_octets mac [0..<6] = Inr bytes \<and> trace t = trace s @ evs \<and>
    puts_back n bytes d p (JString ''UP'' \<in> set (json_items flags)) evs"
proof -
  obtain s1 s2 s3 s4 where
    1: "link_state n False [] E s = (Inr (), s1)" and 2: "link_state n False mac E s1 = (Inr (), s2)"
    and 3: "write_file (ipv6_path n) d E s2 = (Inr (), s3)"
    and 4: "write_file (rp_filter_path n) p E s3 = (Inr (), s4)"
    and 5: "link_state n (JString ''UP'' \<in> set (json_items flags)) [] E s4 = (Inr (), t)"
    using assms
    by (auto simp: restore_interface_def run_field_text thenP_Inr bindP_Inr liftP_def)
  obtain i where i: "i \<noteq> 0" "trace s1 = trace s @ link_events i n False []"
    using link_state_Inr [OF 1] by auto
  obtain j bytes where j: "j \<noteq> 0" "mac_octets mac [0..<6] = Inr bytes"
      "trace s2 = trace s1 @ link_events j n False [IFLA_ADDRESS bytes]"
    using link_state_Inr [OF 2] assms(4) by auto
  obtain k where k: "k \<noteq> 0" "trace t = trace s4 @
      link_events k n (JString ''UP'' \<in> set (json_items flags)) []"
    using link_state_Inr [OF 5] by auto
  show ?thesis
    using i j k write_file_trace [OF 3] write_file_trace [OF 4]
    by (intro exI [of _ bytes] exI [of _ "drop (length (trace s)) (trace t)"])
      (auto simp: puts_back_def)
qed

section \<open>The whole rollback\<close>

text \<open>The steps of a successful restoration, each from a state with the journaled fields.\<close>

lemma restore_all_parts:
  assumes "restore_all c E s = (Inr (), t)"
  obtains s1 i s2 s3 s4 s5 where
    "run_steps [restore_guard c, rule c False] E s = (Inr (), s1)"
    "run_steps (restore_addresses c i) E s2 = (Inr (), s3)"
    "run_steps (restore_rest c) E s3 = (Inr (), s4)"
    "run_steps (map restore_interface (json_items (jfield (net_state s) ''baseline''))) E s5 = (Inr (), t)"
    "same_state s s3" "same_state s s5" "extends s s3" "extends s4 t" "extends s s5"
    "if_nametoindex (outer_name c) E s1 = (Inr i, s2)" "extends s s1" "extends s1 t" "extends s s2" "extends s2 t"
    "extends s3 t"
proof -
  obtain s1 i s2 s3 s4 v s5 where
    1: "run_steps [restore_guard c, rule c False] E s = (Inr (), s1)"
    and 2: "if_nametoindex (outer_name c) E s1 = (Inr i, s2)"
    and 3: "run_steps (restore_addresses c i) E s2 = (Inr (), s3)"
    and 4: "run_steps (restore_rest c) E s3 = (Inr (), s4)"
    and 5: "state_at ''baseline'' E s4 = (Inr v, s5)"
    and 6: "run_steps (map restore_interface (json_items v)) E s5 = (Inr (), t)"
    using assms unfolding restore_all_def thenP_Inr bindP_Inr
    by (auto simp del: run_steps.simps)
  have em: "emits plain (run_steps [restore_guard c, rule c False])"
      "emits plain (run_steps (restore_addresses c i))" "emits plain (run_steps (restore_rest c))"
      "emits plain (run_steps (map restore_interface (json_items v)))"
    using plain_parts by (blast intro: emits_run_steps)+
  have ni: "emits plain (if_nametoindex (outer_name c))"
    by (rule emits_if_nametoindex) (simp add: plain_def)
  have sa: "emits plain (state_at ''baseline'')" by (rule emits_rules)
  note x1 = emits_extends [OF em(1) 1] and x2 = emits_extends [OF ni 2]
    and x3 = emits_extends [OF em(2) 3] and x4 = emits_extends [OF em(3) 4]
    and x5 = emits_extends [OF sa 5] and x6 = emits_extends [OF em(4) 6]
  have s3: "extends s s3" "same_state s s3"
    using x1 x2 x3 extends_trans same_state_trans by blast+
  have s4: "extends s s4" "same_state s s4"
    using s3 x4 extends_trans same_state_trans by blast+
  have s5: "extends s s5" "same_state s s5"
    using s4 x5 extends_trans same_state_trans by blast+
  have "v = jfield (net_state s) ''baseline''"
    using state_at_Inr [OF 5] s4(2) by (simp add: same_state_def)
  moreover have "extends s4 t" using x5 x6 extends_trans by blast
  moreover have "extends s s1" "extends s s2" "extends s3 t" "extends s2 t" "extends s1 t"
    using x1 x2 x3 x4 \<open>extends s4 t\<close> extends_trans by blast+
  ultimately show ?thesis
    using that [OF 1 3 4 _ s3(2) s5(2) s3(1) _ s5(1) 2] 6 by blast
qed

lemma restore_all_settings:
  assumes "restore_all c E s = (Inr (), t)"
  shows "jfield (net_state s) ''ip_forward'' = JString f \<Longrightarrow> logged s t (Write_file ip_forward_path f True)"
    and "jfield (net_state s) ''rp_filter_all'' = JString a \<Longrightarrow>
      logged s t (Write_file (rp_filter_path ''all'') a True)"
    and "info \<in> set (json_items (jfield (net_state s) ''baseline'')) \<Longrightarrow>
      \<exists>s1 s2. restore_interface info E s1 = (Inr (), s2) \<and> extends s s1 \<and> extends s2 t"
proof -
  obtain s1 i s2 s3 s4 s5 where rest: "run_steps (restore_rest c) E s3 = (Inr (), s4)"
    and ifs: "run_steps (map restore_interface (json_items (jfield (net_state s) ''baseline''))) E s5 = (Inr (), t)"
    and st: "same_state s s3" "same_state s s5" "extends s s3" "extends s4 t" "extends s s5"
    using restore_all_parts [OF assms] by metis
  have sysctl: "logged s t (Write_file path v True)"
    if m: "restore_sysctl path key \<in> set (restore_rest c)" and v: "jfield (net_state s) key = JString v"
    for path key v
  proof -
    obtain u1 u2 where u: "restore_sysctl path key E u1 = (Inr (), u2)" "same_state s3 u1"
        "extends s3 u1" "extends u2 s4"
      using run_steps_member [OF rest m plain_parts(3)] by blast
    have "jfield (net_state u1) key = JString v"
      using v u(2) st(1) by (simp add: same_state_def)
    from restore_sysctl_Inr [OF u(1) this] show ?thesis
      using logged_extends extends_trans u(3,4) st(3,4) by blast
  qed
  have m: "restore_sysctl ip_forward_path ''ip_forward'' \<in> set (restore_rest c)"
      "restore_sysctl (rp_filter_path ''all'') ''rp_filter_all'' \<in> set (restore_rest c)"
    by (simp_all add: restore_rest_def)
  show "jfield (net_state s) ''ip_forward'' = JString f \<Longrightarrow> logged s t (Write_file ip_forward_path f True)"
    by (rule sysctl [OF m(1)])
  show "jfield (net_state s) ''rp_filter_all'' = JString a \<Longrightarrow>
      logged s t (Write_file (rp_filter_path ''all'') a True)"
    by (rule sysctl [OF m(2)])
  show "\<exists>s1 s2. restore_interface info E s1 = (Inr (), s2) \<and> extends s s1 \<and> extends s2 t"
    if "info \<in> set (json_items (jfield (net_state s) ''baseline''))"
  proof -
    have "restore_interface info \<in>
        set (map restore_interface (json_items (jfield (net_state s) ''baseline'')))"
      using that by simp
    then obtain u1 u2 where "restore_interface info E u1 = (Inr (), u2)" "extends s5 u1" "extends u2 t"
      using run_steps_member [OF ifs _ plain_parts(4)] by blast
    then show ?thesis using st(5) extends_trans by blast
  qed
qed

lemma restore_Inr:
  assumes "restore E s = (Inr (), t)" "indexable (net_state s)"
  obtains c s1 s2 where "restore_all c E s1 = (Inr (), s2)" "extends s s1" "extends s2 t"
    "\<forall>k. k \<noteq> ''status'' \<longrightarrow> jfield (net_state s1) k = jfield (net_state s) k"
    "status t = JString ''inactive''" "last (trace t) = Store_put ''network'' (net_state t) None"
  using assms
proof (cases rule: restore_cases)
  case (ran c s1 s2 s3 work errors gone errors' put)
  have put: "put = None" "errors' = []"
    using ran(16) by (auto simp: restore_result_def split: option.splits if_splits)
  then have "errors = []" using ran(11) by blast
  then have "restore_all c E s1 = (Inr (), s2)"
    using ran(5) restore_work_complete by simp
  then show ?thesis
    using that [of c s1 s2] ran put by (simp add: extends_def)
qed auto

text \<open>
  C21. A rollback that returns normally has put everything back: the recorded values of \<open>ip_forward\<close> and
  the global \<open>rp_filter\<close> were written successfully, and for each recorded interface there is one unbroken
  run of events in which the interface of that name was set down, given its recorded MAC address, got its
  recorded IPv6 and \<open>rp_filter\<close> settings, and was set up exactly if it was recorded as up, every message
  acknowledged; the status is \<open>inactive\<close> and the last thing done was the successful journal write that
  says so.
\<close>

theorem rollback_restores_settings:
  assumes "restore E s = (Inr (), t)" "indexable (net_state s)"
    and "jfield (net_state s) ''ip_forward'' = JString f"
    and "jfield (net_state s) ''rp_filter_all'' = JString a"
    and "info \<in> set (json_items (jfield (net_state s) ''baseline''))"
    and "text_field info ''ifname'' n" "text_field info ''address'' mac" "mac \<noteq> []"
    and "text_field info ''disable_ipv6'' d" "text_field info ''rp_filter'' p"
    and "jindex info ''flags'' = Inr flags"
  shows "logged s t (Write_file ip_forward_path f True) \<and>
    logged s t (Write_file (rp_filter_path ''all'') a True) \<and>
    (\<exists>bytes pre evs post. mac_octets mac [0..<6] = Inr bytes \<and>
       trace t = trace s @ pre @ evs @ post \<and>
       puts_back n bytes d p (JString ''UP'' \<in> set (json_items flags)) evs) \<and>
    status t = JString ''inactive'' \<and> last (trace t) = Store_put ''network'' (net_state t) None"
proof -
  obtain c s1 s2 where all: "restore_all c E s1 = (Inr (), s2)" and ext: "extends s s1" "extends s2 t"
    and same: "\<forall>k. k \<noteq> ''status'' \<longrightarrow> jfield (net_state s1) k = jfield (net_state s) k"
    and final: "status t = JString ''inactive''" "last (trace t) = Store_put ''network'' (net_state t) None"
    by (rule restore_Inr [OF assms(1,2)])
  note lift = logged_extends [OF ext(1) _ ext(2)]
  have f: "jfield (net_state s1) ''ip_forward'' = JString f"
    and a: "jfield (net_state s1) ''rp_filter_all'' = JString a"
    and i: "info \<in> set (json_items (jfield (net_state s1) ''baseline''))"
    using same assms(3-5) by simp_all
  note g = lift [OF restore_all_settings(1) [OF all f]] lift [OF restore_all_settings(2) [OF all a]]
  obtain u1 u2 where u: "restore_interface info E u1 = (Inr (), u2)" "extends s1 u1" "extends u2 s2"
    using restore_all_settings(3) [OF all i] by blast
  obtain bytes evs where undone: "mac_octets mac [0..<6] = Inr bytes" "trace u2 = trace u1 @ evs"
      "puts_back n bytes d p (JString ''UP'' \<in> set (json_items flags)) evs"
    using restore_interface_Inr [OF u(1) assms(6-11)] by blast
  obtain pre post where "trace u1 = trace s @ pre" "trace t = trace u2 @ post"
    using extends_trans [OF ext(1) u(2)] extends_trans [OF u(3) ext(2)] unfolding extends_def by blast
  with undone have "\<exists>bytes pre evs post. mac_octets mac [0..<6] = Inr bytes \<and>
      trace t = trace s @ pre @ evs @ post \<and>
      puts_back n bytes d p (JString ''UP'' \<in> set (json_items flags)) evs"
    by (intro exI [of _ bytes] exI [of _ pre] exI [of _ evs] exI [of _ post]) simp
  with g final show ?thesis by blast
qed

end
