(* ===== verification/Success.thy ===== *)
theory Success
  imports Rollback
begin

text \<open>
  The judgement \<open>succeeds\<close>: a program whose events are all favourable returns normally. It comes with a rule
  for every way of composing programs, and the locale \<open>favoured\<close> has the rules for the system calls: whatever
  predicate on events is used, if it says that the answers were favourable then the calls succeed.
\<close>

section \<open>Success by favourable events\<close>

definition viewed :: "(string \<Rightarrow> json) \<Rightarrow> ctl \<Rightarrow> bool" where
  "viewed F s \<longleftrightarrow> indexable (net_state s) \<and> enabled s \<and> (\<forall>k. jfield (net_state s) k = F k)"

abbreviation steady :: "'a prog \<Rightarrow> bool" where
  "steady m \<equiv> emits (\<lambda>_. True) m"

definition succeeds :: "env \<Rightarrow> (string \<Rightarrow> json) \<Rightarrow> (event \<Rightarrow> bool) \<Rightarrow> 'a prog \<Rightarrow> ('a \<Rightarrow> bool) \<Rightarrow> bool" where
  "succeeds E F G m Q \<longleftrightarrow> steady m \<and>
     (\<forall>s r t evs. viewed F s \<longrightarrow> m E s = (r, t) \<longrightarrow> trace t = trace s @ evs \<longrightarrow> list_all G evs \<longrightarrow>
        (\<exists>x. r = Inr x \<and> Q x))"

lemma succeedsI:
  assumes "steady m"
    and "\<And>s r t evs. viewed F s \<Longrightarrow> m E s = (r, t) \<Longrightarrow> trace t = trace s @ evs \<Longrightarrow> list_all G evs \<Longrightarrow>
      \<exists>x. r = Inr x \<and> Q x"
  shows "succeeds E F G m Q"
  using assms by (auto simp: succeeds_def)

lemma succeedsD:
  assumes "succeeds E F G m Q" "viewed F s" "m E s = (r, t)" "trace t = trace s @ evs" "list_all G evs"
  obtains x where "r = Inr x" "Q x"
  using assms unfolding succeeds_def by blast

lemma succeeds_steady: "succeeds E F G m Q \<Longrightarrow> steady m"
  by (simp add: succeeds_def)

lemma steady_mono: "emits P m \<Longrightarrow> steady m"
  by (rule emits_mono) simp_all

lemma viewed_same: "same_state s t \<Longrightarrow> viewed F s \<Longrightarrow> viewed F t"
  by (simp add: viewed_def same_state_def)

named_theorems succeeds_rules

lemma succeeds_returnP [succeeds_rules]: "Q x \<Longrightarrow> succeeds E F G (returnP x) Q"
  by (rule succeedsI) (auto simp: returnP_def intro: emits_rules)

lemma succeeds_bindP:
  assumes "succeeds E F G m Q" "\<And>x. steady (f x)" "\<And>x. Q x \<Longrightarrow> succeeds E F G (f x) R"
  shows "succeeds E F G (bindP m f) R"
proof (rule succeedsI)
  have st: "steady m" using assms(1) by (rule succeeds_steady)
  then show "steady (bindP m f)" using assms(2) by (rule emits_bindP)
  fix s r t evs
  assume view: "viewed F s" and run: "bindP m f E s = (r, t)" and tr: "trace t = trace s @ evs"
    and good: "list_all G evs"
  obtain r1 s1 where m: "m E s = (r1, s1)" by (cases "m E s")
  obtain evs1 where 1: "trace s1 = trace s @ evs1" "same_state s s1" using st m by (rule emitsD)
  show "\<exists>x. r = Inr x \<and> R x"
  proof (cases r1)
    case (Inl e)
    then have "t = s1" using run m by (simp add: run_first)
    then have "list_all G evs1" using tr 1(1) good by simp
    then show ?thesis using succeedsD [OF assms(1) view m 1(1)] Inl by auto
  next
    case (Inr x)
    then have f: "f x E s1 = (r, t)" using run m by (simp add: run_first)
    obtain evs2 where 2: "trace t = trace s1 @ evs2" using assms(2) f by (rule emitsD)
    have good': "list_all G evs1" "list_all G evs2" using tr 1(1) 2 good by auto
    have "Q x" using succeedsD [OF assms(1) view m 1(1) good'(1)] Inr by auto
    then show ?thesis
      using succeedsD [OF assms(3) viewed_same [OF 1(2) view] f 2 good'(2)] by blast
  qed
qed

lemma succeeds_bind_any [succeeds_rules]:
  assumes "succeeds E F G m (\<lambda>_. True)" "\<And>x. succeeds E F G (f x) R"
  shows "succeeds E F G (bindP m f) R"
  using assms(1) succeeds_steady [OF assms(2)] assms(2) by (rule succeeds_bindP)

lemma succeeds_thenP [succeeds_rules]:
  "succeeds E F G m (\<lambda>_. True) \<Longrightarrow> succeeds E F G n R \<Longrightarrow> succeeds E F G (thenP m n) R"
  unfolding thenP_def by (rule succeeds_bind_any)

lemma succeeds_weaken: "succeeds E F G m Q \<Longrightarrow> (\<And>x. Q x \<Longrightarrow> R x) \<Longrightarrow> succeeds E F G m R"
  unfolding succeeds_def by meson

lemma succeeds_throw_if: "\<not> b \<Longrightarrow> succeeds E F G (throw_if b e) (\<lambda>_. True)"
  by (simp add: throw_if_def succeeds_returnP)

lemma succeeds_liftP: "r = Inr x \<Longrightarrow> Q x \<Longrightarrow> succeeds E F G (liftP r) Q"
  by (rule succeedsI) (auto simp: liftP_def intro: emits_rules)

lemma succeeds_whenP [succeeds_rules]:
  "succeeds E F G m (\<lambda>_. True) \<Longrightarrow> succeeds E F G (whenP b m) (\<lambda>_. True)"
  by (simp add: whenP_def succeeds_returnP)

lemma succeeds_run_steps:
  "\<forall>m \<in> set ms. succeeds E F G m (\<lambda>_. True) \<Longrightarrow> succeeds E F G (run_steps ms) (\<lambda>_. True)"
  by (induction ms) (simp_all add: succeeds_returnP succeeds_thenP)

lemma succeeds_state_at: "Q (F k) \<Longrightarrow> succeeds E F G (state_at k) Q"
  by (rule succeedsI) (auto simp: viewed_def state_at_run intro: emits_rules)

lemma succeeds_require:
  "e \<noteq> Foreign_exception \<Longrightarrow> succeeds E F G (getP (\<lambda>s. throw_if (\<not> enabled s) e)) (\<lambda>_. True)"
  by (rule succeedsI) (auto simp: viewed_def getP_def throw_if_def returnP_def intro!: emits_rules)

text \<open>A program that asks the environment for nothing but a library function.\<close>

lemma succeeds_pure:
  assumes "steady m" "\<And>s. m E s = (Inr x, s)" "Q x"
  shows "succeeds E F G m Q"
  using assms by (intro succeedsI) auto

lemma succeeds_attempt:
  assumes "succeeds E F G m (\<lambda>_. True)"
  shows "succeeds E F G (attempt m) (\<lambda>errors. errors = [])"
proof (rule succeedsI)
  have st: "steady m" using assms by (rule succeeds_steady)
  then show "steady (attempt m)" by (rule emits_attempt)
  fix s r t evs
  assume view: "viewed F s" and run: "attempt m E s = (r, t)" and tr: "trace t = trace s @ evs"
    and good: "list_all G evs"
  obtain e t' where a: "attempt m E s = (Inr e, t')" "e = [] \<longleftrightarrow> m E s = (Inr (), t')" "snd (m E s) = t'"
    using attempt_run [OF st] .
  obtain r' where m: "m E s = (r', t)" using a run by (cases "m E s") auto
  obtain x where "r' = Inr x" using succeedsD [OF assms view m tr good] by blast
  then show "\<exists>x. r = Inr x \<and> x = []" using a run m by simp
qed

lemma succeeds_attempts:
  assumes "\<forall>m \<in> set ms. succeeds E F G m (\<lambda>_. True)"
  shows "succeeds E F G (attempts ms errors) (\<lambda>errors'. errors' = errors)"
  using assms
proof (induction ms arbitrary: errors)
  case Nil
  then show ?case by (simp add: succeeds_returnP)
next
  case (Cons m ms)
  have st: "steady (attempts ms errors')" for errors'
    using Cons.prems by (intro emits_attempts) (auto intro: succeeds_steady)
  have "succeeds E F G (attempt m) (\<lambda>e. e = [])"
    using Cons.prems by (intro succeeds_attempt) simp
  then show ?case
    unfolding attempts.simps
    by (rule succeeds_bindP) (use st Cons in auto)
qed

section \<open>Favourable answers\<close>

text \<open>
  What the answers to the individual calls have to be. A file that is read holds a word, a write and a
  command succeed, the store accepts the value, and the kernel acknowledges the message or, for a deletion,
  says that there is nothing to delete. The two ports are found under their names; \<open>mbx-outer\<close> is found
  exactly when it is there.
\<close>

definition deletes :: "nl_type \<Rightarrow> bool" where
  "deletes t \<longleftrightarrow> t \<in> {RTM_DELLINK, RTM_DELADDR, RTM_DELROUTE, RTM_DELRULE}"

fun accepted :: "nl_type \<Rightarrow> nl_reply \<Rightarrow> bool" where
  "accepted t Nl_ack = True"
| "accepted t (Nl_errno e) = (deletes t \<and> missing_errno e)"
| "accepted t _ = False"

definition found_as :: "NetworkConfig \<Rightarrow> bool \<Rightarrow> string \<Rightarrow> u32 \<Rightarrow> bool" where
  "found_as c present name i \<longleftrightarrow>
     (name = outer_interface c \<or> name = inner_interface c \<longrightarrow> i \<noteq> 0) \<and>
     (name = ''mbx-outer'' \<longrightarrow> (i \<noteq> 0) = present)"

fun succeeded :: "NetworkConfig \<Rightarrow> bool \<Rightarrow> event \<Rightarrow> bool" where
  "succeeded c present (Read_file _ x) = (case x of None \<Rightarrow> False | Some t \<Rightarrow> first_token t \<noteq> [])"
| "succeeded c present (Write_file _ _ ok) = ok"
| "succeeded c present (If_index name i) = found_as c present name i"
| "succeeded c present (Nl_open _ ok) = ok"
| "succeeded c present (Nl_transact _ msg x) = accepted (nl_type msg) x"
| "succeeded c present (Command _ _ x) = (case x of Inl _ \<Rightarrow> False | Inr _ \<Rightarrow> True)"
| "succeeded c present (Store_put _ _ x) = (x = None)"
| "succeeded c present _ = True"

text \<open>A name that a favourable lookup finds.\<close>

definition reachable :: "NetworkConfig \<Rightarrow> bool \<Rightarrow> string \<Rightarrow> bool" where
  "reachable c present name \<longleftrightarrow>
     c_str name \<in> {outer_interface c, inner_interface c} \<or> c_str name = ''mbx-outer'' \<and> present"

text \<open>What a listing of the tables says about a family.\<close>

definition tables_argv :: "string list" where
  "tables_argv = [''nft'', ''-j'', ''list'', ''tables'']"

definition listed :: "json_lib \<Rightarrow> string \<Rightarrow> string \<Rightarrow> bool result" where
  "listed L family out =
     ebind (parse_json L out) (\<lambda>v. ebind (jindex v ''nftables'') (\<lambda>items. find_table family (json_items items)))"

section \<open>The calls\<close>

lemma steady_calls [emits_rules]:
  "steady (read_file path)" "steady (write_file path v)" "steady (if_nametoindex name)" "steady (index_of name)"
  "steady (command argv input)" "steady (run_command argv input)" "steady (json_command argv)"
  "steady (nl_open proto)" "steady (nl_transact proto msg ok)"
  unfolding json_command_def
  by (intro emits_rules emits_read_file emits_write_file emits_if_nametoindex emits_index_of emits_command
      emits_run_command emits_nl_open emits_nl_transact TrueI)+

lemma steady_parts [emits_rules]:
  "steady (table_exists f)" "steady reserved_exists" "steady (interface_baseline name)"
  "steady (link_state name up mac)" "steady (vlan c add)" "steady (address iface ip prefix add)"
  "steady (route c gateway add)" "steady (rule c add)" "steady clear_connections"
  by (rule steady_mono, rule emits_table_exists emits_reserved_exists emits_interface_baseline emits_plain_nl)+

text \<open>
  The calls succeed on events that satisfy a predicate \<open>G\<close>, as soon as \<open>G\<close> says that the answers were
  favourable.
\<close>

locale favoured =
  fixes c :: NetworkConfig and present :: bool and G :: "event \<Rightarrow> bool"
  assumes favours: "G e \<Longrightarrow> succeeded c present e"
begin

lemma good_read: "succeeds E F G (read_file path) (\<lambda>_. True)"
  by (rule succeedsI)
    (auto simp: read_file_def emit_def Let_def intro: emits_rules dest!: favours split: option.splits if_splits)

lemma good_write: "succeeds E F G (write_file path v) (\<lambda>_. True)"
  by (rule succeedsI)
    (auto simp: write_file_def emit_def Let_def intro: emits_rules dest!: favours split: if_splits)

lemma good_index: "succeeds E F G (if_nametoindex name) (\<lambda>i. found_as c present (c_str name) i)"
  by (rule succeedsI) (auto simp: if_nametoindex_def emit_def Let_def intro: emits_rules dest!: favours)

lemma good_index_of: "reachable c present name \<Longrightarrow> succeeds E F G (index_of name) (\<lambda>_. True)"
  unfolding index_of_def
  by (rule succeeds_bindP [OF good_index])
    (auto simp: reachable_def found_as_def intro: emits_rules succeeds_returnP)

lemma good_command: "succeeds E F G (run_command argv input) (\<lambda>_. True)"
  by (rule succeedsI)
    (auto simp: run_command_run intro: emits_rules dest!: favours split: sum.splits)

lemma good_open: "succeeds E F G (nl_open proto) (\<lambda>_. True)"
  by (rule succeedsI)
    (auto simp: nl_open_def emit_def Let_def intro: emits_rules dest!: favours split: if_splits)

lemma good_transact:
  "deletes (nl_type msg) \<longrightarrow> ok \<Longrightarrow> succeeds E F G (nl_transact proto msg ok) (\<lambda>_. True)"
  by (rule succeedsI)
    (auto simp: nl_transact_def emit_def Let_def intro: emits_rules dest!: favours split: nl_reply.splits if_splits)

lemma good_netlink:
  assumes "deletes t \<longrightarrow> ok" "succeeds E F G fill (\<lambda>_. True)"
  shows "succeeds E F G (netlink t flags fill ok proto) (\<lambda>_. True)"
  unfolding netlink_def split_def
  using assms by (intro succeeds_thenP [OF good_open] succeeds_bind_any [OF assms(2)] good_transact) simp

lemma refused_command: "\<not> G (Command argv input (Inl m))"
  by (auto dest: favours)

lemma good_query:
  assumes "\<And>out. G (Command argv [] (Inr out)) \<Longrightarrow> \<exists>v. parse_json (json_fun E) out = Inr v \<and> Q v"
  shows "succeeds E F G (json_command argv) Q"
  by (rule succeedsI)
    (use assms in \<open>auto simp: json_command_def command_def parse_jsonP_def askP_def liftP_def bindP_def
      emit_def Let_def refused_command intro: emits_rules split: sum.splits\<close>)

lemma good_tables:
  assumes "\<And>out. G (Command tables_argv [] (Inr out)) \<Longrightarrow> \<exists>b. listed (json_fun E) family out = Inr b \<and> Q b"
  shows "succeeds E F G (table_exists family) Q"
proof -
  have "succeeds E F G (json_command tables_argv)
      (\<lambda>v. \<exists>b. ebind (jindex v ''nftables'') (\<lambda>items. find_table family (json_items items)) = Inr b \<and> Q b)"
    using assms by (intro good_query) (force simp: listed_def ebind_def split: sum.splits)
  then show ?thesis
    unfolding table_exists_def tables_argv_def
    by (rule succeeds_bindP)
      (auto intro: emits_rules succeeds_liftP simp: ebind_std)
qed

end

end
