(* ===== verification/Liveness.thy ===== *)
theory Liveness
  imports Success
begin

text \<open>
  Progress of the network controller: \<open>apply\<close> and \<open>restore\<close> return normally unless one of the answers
  they got from the system stood in the way. The hypotheses speak of the answers of the run itself, event
  by event, so nothing is asked of the system beyond the calls that were made.
\<close>

section \<open>The operations on a valid configuration\<close>

text \<open>What a validated configuration gives to the system calls.\<close>

lemma valid_interface_c_str: "valid_interface n \<Longrightarrow> c_str n = n"
proof -
  assume "valid_interface n"
  then have "\<forall>c \<in> set n. code_of c \<noteq> 0"
    by (auto simp: valid_interface_def list_all_iff iface_char_def char_class_defs)
  then show ?thesis by (rule c_str_id)
qed

lemma unicast_ipv4_pton: "unicast_ipv4 pton s \<Longrightarrow> pton (c_str s) \<noteq> None"
  by (auto simp: unicast_ipv4_def split: option.splits if_splits)

lemma valid_parts:
  assumes "validate pton c = []"
  shows "c_str (outer_interface c) = outer_interface c" "c_str (inner_interface c) = inner_interface c"
    "pton (c_str (device_ipv4 c)) \<noteq> None" "pton (c_str (inner_gateway_ipv4 c)) \<noteq> None"
    "pton (c_str (outer_ipv4 c)) \<noteq> None" "pton (c_str (outer_gateway_ipv4 c)) \<noteq> None"
    "\<exists>bytes. mac_octets (outer_mac c) [0..<6] = Inr bytes"
proof -
  have "syntax_errors pton c = []"
    using assms by (simp add: validate_def Let_def split: if_splits)
  then have v: "valid_interface (outer_interface c)" "valid_interface (inner_interface c)"
      "unicast_ipv4 pton (device_ipv4 c)" "unicast_ipv4 pton (inner_gateway_ipv4 c)"
      "unicast_ipv4 pton (outer_ipv4 c)" "unicast_ipv4 pton (outer_gateway_ipv4 c)"
      "unicast_mac (outer_mac c)"
    by (auto simp: syntax_errors_Nil_iff)
  show "c_str (outer_interface c) = outer_interface c" "c_str (inner_interface c) = inner_interface c"
    using v valid_interface_c_str by blast+
  show "pton (c_str (device_ipv4 c)) \<noteq> None" "pton (c_str (inner_gateway_ipv4 c)) \<noteq> None"
    "pton (c_str (outer_ipv4 c)) \<noteq> None" "pton (c_str (outer_gateway_ipv4 c)) \<noteq> None"
    using v unicast_ipv4_pton by blast+
  show "\<exists>bytes. mac_octets (outer_mac c) [0..<6] = Inr bytes"
    using mac_octets_unicast [OF v(7)] by blast
qed

lemma succeeds_ipv4: "pton_fun E (c_str v) \<noteq> None \<Longrightarrow> succeeds E F G (ipv4 v) (\<lambda>_. True)"
  by (rule succeedsI) (auto simp: ipv4_def askP_def returnP_def intro: emits_rules)

context favoured
begin

lemma good_link_state:
  assumes "reachable c present name" "mac = [] \<or> (\<exists>bytes. mac_octets mac [0..<6] = Inr bytes)"
  shows "succeeds E F G (link_state name up mac) (\<lambda>_. True)"
  unfolding link_state_def
  using assms(2)
  by (intro good_netlink succeeds_bind_any [OF good_index_of [OF assms(1)]])
    (auto simp: deletes_def intro!: succeeds_returnP succeeds_bind_any [OF succeeds_liftP])

lemma good_address:
  assumes "reachable c present iface" "pton_fun E (c_str ip) \<noteq> None"
  shows "succeeds E F G (address iface ip prefix add) (\<lambda>_. True)"
  unfolding address_def
  by (intro good_netlink succeeds_bind_any [OF good_index_of [OF assms(1)]]
      succeeds_bind_any [OF succeeds_ipv4 [OF assms(2)]] succeeds_returnP) (simp_all add: deletes_def)

lemma good_route:
  assumes "validate (pton_fun E) c = []" "reachable c present (outer_name c)"
  shows "succeeds E F G (route c gateway add) (\<lambda>_. True)"
proof -
  note v = valid_parts [OF assms(1)]
  show ?thesis
    unfolding route_def
    by (intro good_netlink succeeds_bind_any [OF good_index_of [OF assms(2)]])
      (auto simp: deletes_def intro!: succeeds_bind_any [OF succeeds_ipv4 [OF v(5)]] succeeds_returnP
        succeeds_bind_any [OF succeeds_ipv4 [OF v(6)]])
qed

lemma good_rule:
  assumes "validate (pton_fun E) c = []"
  shows "succeeds E F G (rule c add) (\<lambda>_. True)"
  unfolding rule_def
  by (intro good_netlink succeeds_bind_any [OF succeeds_ipv4 [OF valid_parts(3) [OF assms]]] succeeds_returnP)
    (simp_all add: deletes_def)

lemma good_vlan:
  assumes "add \<Longrightarrow> reachable c present (outer_interface c)"
  shows "succeeds E F G (vlan c add) (\<lambda>_. True)"
proof (cases add)
  case True
  then show ?thesis
    unfolding vlan_def
    by (simp add: whenP_def)
      (intro good_netlink succeeds_bind_any [OF good_index_of [OF assms]] succeeds_returnP;
        simp add: deletes_def)
next
  case False
  have "succeeds E F G (bindP (index_of ''mbx-outer'') (\<lambda>i. returnP (Ifinfomsg i False False, []))) (\<lambda>_. True)"
    if "present"
    using that by (intro succeeds_bind_any [OF good_index_of] succeeds_returnP) (simp_all add: reachable_def c_str_def)
  then have del: "succeeds E F G (netlink RTM_DELLINK (add_flags False)
      (bindP (index_of ''mbx-outer'') (\<lambda>i. returnP (Ifinfomsg i False False, []))) True NETLINK_ROUTE) (\<lambda>_. True)"
    if "present"
    using that by (intro good_netlink) simp_all
  have st: "steady (netlink RTM_DELLINK (add_flags False)
      (bindP (index_of ''mbx-outer'') (\<lambda>i. returnP (Ifinfomsg i False False, []))) True NETLINK_ROUTE)"
    by (intro emits_netlink emits_rules TrueI)
  have name: "c_str ''mbx-outer'' = ''mbx-outer''" by (simp add: c_str_def)
  show ?thesis
    using False unfolding vlan_def
    by simp (rule succeeds_bindP [OF good_index];
      use del st in \<open>auto simp: name found_as_def whenP_def intro: emits_rules succeeds_returnP\<close>)
qed

lemma good_clear: "succeeds E F G clear_connections (\<lambda>_. True)"
  unfolding clear_connections_def by (intro good_netlink succeeds_returnP) (simp_all add: deletes_def)

end

text \<open>The lookups of a configuration succeed once its own link is there.\<close>

lemma reachable_ports:
  assumes "validate pton c = []"
  shows "reachable c present (outer_interface c)" "reachable c present (inner_interface c)"
  using valid_parts [OF assms] by (simp_all add: reachable_def)

lemma reachable_outer_name:
  assumes "validate pton c = []" "vlan_id c \<noteq> None \<Longrightarrow> present"
  shows "reachable c present (outer_name c)"
  using valid_parts [OF assms(1)] assms(2) by (auto simp: reachable_def outer_name_def c_str_def)

context favoured
begin

lemma good_install:
  assumes "validate (pton_fun E) c = []" "vlan_id c \<noteq> None \<Longrightarrow> present"
  shows "succeeds E F G (install c) (\<lambda>_. True)"
proof -
  note v = valid_parts [OF assms(1)] and ports = reachable_ports [OF assms(1)]
    and outer = reachable_outer_name [OF assms]
  note steps = good_write good_command good_link_state [OF ports(1)] good_link_state [OF ports(2)]
    good_link_state [OF outer] good_vlan [OF ports(1)] good_address [OF ports(2) v(4)]
    good_address [OF outer v(5)] good_route [OF assms(1) outer] good_rule [OF assms(1)]
  show ?thesis
    unfolding install_def
    by (rule succeeds_run_steps)
      (use steps v(7) in \<open>auto simp: install_links_def install_vlan_def install_forwarding_def\<close>)
qed

end

section \<open>Apply completes\<close>

text \<open>
  What the four inspections before the installation have to show: no table of the appliance, no route in
  its routing table, no rule with its priority, and each port without addresses and not part of a bridge.
\<close>

fun unhindered :: "json_lib \<Rightarrow> NetworkConfig \<Rightarrow> event \<Rightarrow> bool" where
  "unhindered L c (Command argv _ (Inr out)) =
     ((argv = tables_argv \<longrightarrow> listed L ''ip'' out = Inr False \<and> listed L ''inet'' out = Inr False) \<and>
      (argv = [''ip'', ''-j'', ''route'', ''show'', ''table'', ''all''] \<longrightarrow>
         ebind (parse_json L out) (\<lambda>v. check_routes (json_items v)) = Inr ()) \<and>
      (argv = [''ip'', ''-j'', ''rule'', ''show''] \<longrightarrow>
         ebind (parse_json L out) (\<lambda>v. check_rules (json_items v)) = Inr ()) \<and>
      list_all (\<lambda>n. argv = [''ip'', ''-j'', ''address'', ''show'', ''dev'', n] \<longrightarrow>
         (case ebind (parse_json L out) (\<lambda>v. ebind (json_first v) (dedicated n)) of Inl _ \<Rightarrow> False | Inr _ \<Rightarrow> True))
        [outer_interface c, inner_interface c])"
| "unhindered L c _ = True"

text \<open>
  The events of a run of \<open>apply\<close>, in order. Up to the first journal write nothing may stand in the way, and
  \<open>mbx-outer\<close> is not found; after it, a tagged configuration finds the link it has created.
\<close>

fun favourable :: "json_lib \<Rightarrow> NetworkConfig \<Rightarrow> bool \<Rightarrow> event list \<Rightarrow> bool" where
  "favourable L c started [] = True"
| "favourable L c started (e # evs) =
     (succeeded c (started \<and> vlan_id c \<noteq> None) e \<and> (started \<or> unhindered L c e) \<and>
      favourable L c (started \<or> is_put e) evs)"

definition passes :: "json_lib \<Rightarrow> NetworkConfig \<Rightarrow> event \<Rightarrow> bool" where
  "passes L c e \<longleftrightarrow> succeeded c False e \<and> unhindered L c e"

interpretation before: favoured c False "passes L c" for c L
  by unfold_locales (simp add: passes_def)

interpretation during: favoured c "vlan_id c \<noteq> None" "succeeded c (vlan_id c \<noteq> None)" for c
  by unfold_locales

lemma favourable_append:
  "favourable L c b (xs @ ys) \<longleftrightarrow> favourable L c b xs \<and> favourable L c (b \<or> list_ex is_put xs) ys"
  by (induction xs arbitrary: b) (auto simp: disj_assoc)

lemma favourable_started: "favourable L c True evs \<longleftrightarrow> list_all (succeeded c (vlan_id c \<noteq> None)) evs"
  by (induction evs) simp_all

lemma read_only_no_put: "list_all read_only evs \<Longrightarrow> \<not> list_ex is_put evs"
  by (induction evs) (auto dest: read_only_plain simp: plain_def)

lemma favourable_before:
  "list_all read_only evs \<Longrightarrow> favourable L c False evs \<longleftrightarrow> list_all (passes L c) evs"
proof (induction evs)
  case (Cons e evs)
  then have "\<not> is_put e" by (auto dest: read_only_plain simp: plain_def)
  with Cons show ?case by (simp add: passes_def)
qed simp

lemma succeeds_read_config:
  assumes "validate (pton_fun E) c = []"
  shows "succeeds E F G (read_config (config_json c)) (\<lambda>_. True)"
proof (rule succeeds_pure)
  show "read_config (config_json c) E s = (Inr c, s)" for s
    using config_from_config_json [OF assms] by (simp add: read_config_def askP_def liftP_def)
qed (simp_all add: emits_rules)

lemma good_reserved: "succeeds E F (passes (json_fun E) c) reserved_exists (\<lambda>b. \<not> b)"
proof -
  have t: "succeeds E F (passes (json_fun E) c) (table_exists f) (\<lambda>b. \<not> b)" if "f = ''ip'' \<or> f = ''inet''" for f
    using that by (intro before.good_tables) (auto simp: passes_def)
  have i: "succeeds E F (passes (json_fun E) c) (if_nametoindex ''mbx-outer'') (\<lambda>i. i = 0)"
    by (rule succeeds_weaken [OF before.good_index]) (simp add: found_as_def c_str_def)
  have last: "succeeds E F (passes (json_fun E) c)
      (bindP (if_nametoindex ''mbx-outer'') (\<lambda>i. returnP (i \<noteq> 0))) (\<lambda>b. \<not> b)"
    by (rule succeeds_bindP [OF i]) (auto intro: emits_rules succeeds_returnP)
  have second: "succeeds E F (passes (json_fun E) c)
      (bindP (table_exists ''inet'') (\<lambda>b. if b then returnP True else
         bindP (if_nametoindex ''mbx-outer'') (\<lambda>i. returnP (i \<noteq> 0)))) (\<lambda>b. \<not> b)"
    by (rule succeeds_bindP [OF t]) (use last in \<open>auto intro: emits_rules\<close>)
  show ?thesis
    unfolding reserved_exists_def
    by (rule succeeds_bindP [OF t]) (use second in \<open>auto intro: emits_rules\<close>)
qed

lemma good_baseline:
  assumes "validate (pton_fun E) c = []" "name = outer_interface c \<or> name = inner_interface c"
  shows "succeeds E F (passes (json_fun E) c) (interface_baseline name) (\<lambda>_. True)"
proof -
  have query: "succeeds E F (passes (json_fun E) c) (json_command [''ip'', ''-j'', ''address'', ''show'', ''dev'', name])
      (\<lambda>v. \<exists>info info'. json_first v = Inr info \<and> dedicated name info = Inr info')"
    using assms(2)
    by (intro before.good_query) (auto simp: passes_def ebind_def split: sum.splits)
  have rest: "succeeds E F (passes (json_fun E) c)
      (bindP (liftP (json_first v)) (\<lambda>info. bindP (liftP (dedicated name info)) (\<lambda>info.
       bindP (read_file (ipv6_path name)) (\<lambda>d. bindP (read_file (rp_filter_path name)) (\<lambda>r.
         returnP (jset (jset info ''disable_ipv6'' (JString d)) ''rp_filter'' (JString r))))))) (\<lambda>_. True)"
    if "json_first v = Inr info" "dedicated name info = Inr info'" for v info info'
    by (rule succeeds_bindP [where Q = "\<lambda>x. x = info"])
      (use that in \<open>auto intro!: succeeds_liftP emits_rules succeeds_bind_any [OF succeeds_liftP]
        succeeds_bind_any [OF before.good_read] succeeds_returnP\<close>)
  have port: "reachable c False name"
    using assms reachable_ports by blast
  show ?thesis
    unfolding interface_baseline_def
    by (rule succeeds_bind_any [OF before.good_index_of [OF port]], rule succeeds_bindP [OF query])
      (use rest in \<open>auto intro!: emits_rules\<close>)
qed

lemma steady_check [emits_rules]: "steady (liftP (check_routes rs))" "steady (liftP (check_rules rs))"
  by (intro emits_rules check_std)+

lemma good_preflight:
  assumes "validate (pton_fun E) c = []" "F ''status'' = JString ''inactive''"
  shows "succeeds E F (passes (json_fun E) c) (preflight c) (\<lambda>_. True)"
proof -
  let ?G = "passes (json_fun E) c"
  have routes: "succeeds E F ?G (json_command [''ip'', ''-j'', ''route'', ''show'', ''table'', ''all''])
      (\<lambda>v. check_routes (json_items v) = Inr ())"
    and rules: "succeeds E F ?G (json_command [''ip'', ''-j'', ''rule'', ''show''])
      (\<lambda>v. check_rules (json_items v) = Inr ())"
    by (rule before.good_query, auto simp: passes_def tables_argv_def ebind_def split: sum.splits)+
  have st: "succeeds E F ?G (state_at ''status'') (\<lambda>st. st = JString ''inactive'')"
    using assms(2) by (rule succeeds_state_at)
  note base = good_baseline [OF assms(1), of "outer_interface c"] good_baseline [OF assms(1), of "inner_interface c"]
  show ?thesis
    unfolding preflight_def
    by (intro succeeds_thenP succeeds_require succeeds_bindP [OF st] succeeds_throw_if
        succeeds_bind_any [OF succeeds_read_config [OF assms(1)]] succeeds_bindP [OF good_reserved]
        succeeds_bindP [OF routes] succeeds_liftP succeeds_bindP [OF rules] succeeds_bind_any [OF base(1)]
        succeeds_bind_any [OF base(2)] before.good_command succeeds_returnP emits_rules; simp)
qed

lemma read_file_answer:
  obtains (ok) v x where "read_file path E s = (Inr v, s\<lparr>trace := trace s @ [Read_file path x]\<rparr>)"
  | (failed) m x where "read_file path E s = (Inl (Runtime_error m), s\<lparr>trace := trace s @ [Read_file path x]\<rparr>)"
      "\<not> succeeded c b (Read_file path x)"
proof (cases "read_reply E (trace s) path")
  case None
  then show ?thesis using failed by (simp add: read_file_def emit_def)
next
  case (Some tx)
  with ok [of "first_token tx" "Some tx"] failed [of "''Cannot read '' @ path" "Some tx"]
  show ?thesis
    by (cases "first_token tx = []") (simp_all add: read_file_def emit_def)
qed

lemma journal_proceeds:
  assumes "journal c b E s = (r, t)" "indexable (net_state s)" "trace t = trace s @ evs"
    and "list_all (succeeded c False) evs"
  shows "r = Inr ()"
proof -
  let ?s1 = "s\<lparr>net_state := jset (jset (net_state s) ''config'' (config_json c)) ''baseline'' b\<rparr>"
  show ?thesis
  proof (cases rule: read_file_answer [where path = ip_forward_path and E = E and s = ?s1 and c = c and b = False])
    case (failed m x)
    then have "(r, t) = (Inl (Runtime_error m), ?s1\<lparr>trace := trace s @ [Read_file ip_forward_path x]\<rparr>)"
      using assms(1,2) by (simp add: journal_def run_rules)
    then show ?thesis using assms(3,4) failed(2) by auto
  next
    case 1: (ok v x)
    let ?s2 = "?s1\<lparr>trace := trace s @ [Read_file ip_forward_path x],
      net_state := jset (net_state ?s1) ''ip_forward'' (JString v)\<rparr>"
    show ?thesis
    proof (cases rule: read_file_answer [where path = "rp_filter_path ''all''" and E = E and s = ?s2 and c = c and b = False])
      case (failed m y)
      then have "(r, t) = (Inl (Runtime_error m), ?s2\<lparr>trace := trace s @ [Read_file ip_forward_path x,
          Read_file (rp_filter_path ''all'') y]\<rparr>)"
        using assms(1,2) 1 by (simp add: journal_def run_rules)
      then show ?thesis using assms(3,4) failed(2) by auto
    next
      case (ok w y)
      let ?j3 = "jset (jset (net_state ?s2) ''rp_filter_all'' (JString w)) ''status'' (JString ''applying'')"
      let ?pre = "[Read_file ip_forward_path x, Read_file (rp_filter_path ''all'') y]"
      let ?put = "put_reply E (trace s @ ?pre) ''network'' ?j3"
      have "(r, t) = (case ?put of Some m \<Rightarrow> Inl (Runtime_error m) | None \<Rightarrow> Inr (),
          ?s2\<lparr>net_state := ?j3, trace := trace s @ ?pre @ [Store_put ''network'' ?j3 ?put]\<rparr>)"
        using assms(1,2) 1 ok by (simp add: journal_def run_rules)
      then show ?thesis using assms(3,4) by auto
    qed
  qed
qed

lemma apply_begins:
  assumes "validate (pton_fun E) c = []" "enabled s" "indexable (net_state s)"
    and "status s = JString ''inactive''" "apply_config c E s = (r, t)" "trace t = trace s @ evs"
    and "list_all (\<lambda>e. read_only e \<or> is_put e) evs \<Longrightarrow> favourable (json_fun E) c False evs"
  obtains s1 pre where "catchP (install_and_wait c) undo E s1 = (r, t)" "indexable (net_state s1)" "enabled s1"
    "trace s1 = trace s @ pre @ [Store_put ''network'' (net_state s1) None]" "list_all read_only pre"
proof -
  have view: "viewed (jfield (net_state s)) s" using assms(2,3) by (simp add: viewed_def)
  obtain r0 s0 where p: "preflight c E s = (r0, s0)" by (cases "preflight c E s")
  then obtain pre where pre: "trace s0 = trace s @ pre" "list_all read_only pre" "same_state s s0"
    by (rule emitsD [OF emits_preflight])
  show ?thesis
  proof (cases r0)
    case (Inl e)
    then have "t = s0" using assms(5) p by (simp add: apply_config_def run_rules)
    then have "evs = pre" using assms(6) pre(1) by simp
    then have "list_all (passes (json_fun E) c) pre"
      using assms(7) pre(2) favourable_before by (simp add: list_all_iff)
    then show ?thesis
      using succeedsD [OF good_preflight [where F = "jfield (net_state s)", OF assms(1,4)] view p pre(1)] Inl by auto
  next
    case (Inr b)
    obtain outer inner where b: "b = JArray [outer, inner]"
      using preflight_Inr(4) [OF p [unfolded Inr]] by blast
    obtain r1 s1 where j: "journal c (JArray [outer, inner]) E s0 = (r1, s1)"
      by (cases "journal c (JArray [outer, inner]) E s0")
    have idx: "indexable (net_state s0)" using pre(3) assms(3) by (rule indexable_same)
    have rest: "thenP (journal c (JArray [outer, inner])) (catchP (install_and_wait c) undo) E s0 = (r, t)"
      using assms(5) p Inr b by (simp add: apply_config_def run_rules)
    from j idx show ?thesis
    proof (cases rule: journal_cases)
      case (unread m pre')
      then have "t = s1" using rest j by (simp add: run_rules)
      then have evs: "evs = pre @ pre'" using assms(6) pre(1) unread(2) by simp
      have "list_all read_only (pre @ pre')" using pre(2) unread(3) by simp
      then have "list_all (passes (json_fun E) c) (pre @ pre')"
        using assms(7) favourable_before unfolding evs by (simp add: list_all_iff)
      then have "list_all (succeeded c False) pre'"
        by (simp add: list_all_iff passes_def)
      then show ?thesis using journal_proceeds [OF j idx unread(2)] unread(1) by simp
    next
      case (written pre' put)
      show ?thesis
      proof (cases put)
        case None
        then have "catchP (install_and_wait c) undo E s1 = (r, t)" using rest j written(7) by (simp add: run_rules)
        then show ?thesis
          using that [of s1 "pre @ pre'"] written pre None assms(2) by (simp add: same_state_def)
      next
        case (Some m)
        then have "t = s1" using rest j written(7) by (simp add: run_rules)
        then have "evs = pre @ pre' @ [Store_put ''network'' (net_state s1) (Some m)]"
          using assms(6) pre(1) written(1) Some by simp
        then show ?thesis
          using assms(7) pre(2) written(2) by (auto simp: favourable_append list_all_iff)
      qed
    qed
  qed
qed

lemma apply_proceeds:
  assumes "validate (pton_fun E) c = []" "enabled s" "indexable (net_state s)"
    and "status s = JString ''inactive''" "apply_config c E s = (r, t)" "trace t = trace s @ evs"
    and "favourable (json_fun E) c False evs"
  shows "r = Inr () \<and> status t = JString ''awaiting_confirmation''"
proof -
  obtain s1 pre where start: "catchP (install_and_wait c) undo E s1 = (r, t)" "indexable (net_state s1)" "enabled s1"
      "trace s1 = trace s @ pre @ [Store_put ''network'' (net_state s1) None]" "list_all read_only pre"
    using apply_begins [OF assms] .
  obtain rest where rest: "trace t = trace s1 @ rest" using started_extends [OF start(1,2)] by blast
  have view: "viewed (jfield (net_state s1)) s1" using start(2,3) by (simp add: viewed_def)
  have "evs = (pre @ [Store_put ''network'' (net_state s1) None]) @ rest"
    using assms(6) start(4) rest by simp
  then have good: "list_all (succeeded c (vlan_id c \<noteq> None)) rest"
    using assms(7) by (simp only: favourable_append) (simp add: favourable_started)
  note installs = succeedsD [OF during.good_install [OF assms(1)] view]
  from start(1,2) show ?thesis
  proof (cases rule: started_cases)
    case (waiting s2 new \<tau>)
    then show ?thesis by simp
  next
    case (undone s2 new m r')
    obtain e where e: "install c E s1 = (Inl e, s2)" using undone(6) by blast
    obtain more where "trace t = trace s2 @ more"
      using restore_extends [OF undone(4) indexable_same [OF undone(3) start(2)]] by blast
    then have "list_all (succeeded c (vlan_id c \<noteq> None)) new"
      using good rest undone(1) by auto
    then show ?thesis using installs [OF _ e undone(1)] by auto
  next
    case (undone_late s2 new \<tau> m m' r')
    obtain more where "trace t = trace s2 @ more"
      using restore_extends [OF undone_late(7,4)] by blast
    then show ?thesis using good rest undone_late(1) by auto
  qed
qed

text \<open>
  C36. Apply completes. On an enabled inactive controller and for every valid configuration, with or
  without a VLAN, \<open>apply\<close> returns normally and waits for the confirmation unless an answer of the system
  stood in the way: before the journal write the inspections show nothing of the appliance and two
  dedicated ports, and throughout no call of this run was refused.
\<close>

theorem apply_completes:
  assumes "validate (pton_fun E) c = []" "enabled s" "indexable (net_state s)"
    and "status s = JString ''inactive''" "apply_config c E s = (r, t)" "trace t = trace s @ evs"
    and "favourable (json_fun E) c False evs"
  shows "r = Inr () \<and> status t = JString ''awaiting_confirmation''"
  using assms by (rule apply_proceeds)

section \<open>Rollback completes\<close>

text \<open>A baseline entry that can be written back: it names one of the two ports and holds the recorded texts.\<close>

definition restorable :: "NetworkConfig \<Rightarrow> json \<Rightarrow> bool" where
  "restorable c info \<longleftrightarrow>
     (\<exists>n mac d p flags. text_field info ''ifname'' n \<and> n \<in> {outer_interface c, inner_interface c} \<and>
        text_field info ''address'' mac \<and> (\<exists>bytes. mac_octets mac [0..<6] = Inr bytes) \<and>
        text_field info ''disable_ipv6'' d \<and> text_field info ''rp_filter'' p \<and>
        jindex info ''flags'' = Inr flags)"

definition recoverable :: "NetworkConfig \<Rightarrow> json \<Rightarrow> bool" where
  "recoverable c j \<longleftrightarrow>
     jfield j ''config'' = config_json c \<and> is_string (jfield j ''ip_forward'') \<and>
     is_string (jfield j ''rp_filter_all'') \<and>
     (\<forall>info \<in> set (json_items (jfield j ''baseline'')). restorable c info)"

text \<open>
  The answers to a rollback: no call is refused, and a listing of the tables can be read, whatever it says.
\<close>

fun legible :: "json_lib \<Rightarrow> event \<Rightarrow> bool" where
  "legible L (Command argv _ (Inr out)) =
     (argv = tables_argv \<longrightarrow> list_all (\<lambda>family. case listed L family out of Inl _ \<Rightarrow> False | Inr _ \<Rightarrow> True) [''ip'', ''inet''])"
| "legible L _ = True"

definition obliging :: "json_lib \<Rightarrow> NetworkConfig \<Rightarrow> bool \<Rightarrow> event \<Rightarrow> bool" where
  "obliging L c present e \<longleftrightarrow> succeeded c present e \<and> legible L e"

interpretation undoing: favoured c present "obliging L c present" for c present L
  by unfold_locales (simp add: obliging_def)

lemma succeeds_field_text:
  "text_field info key v \<Longrightarrow> (\<And>x. steady (f x)) \<Longrightarrow> succeeds E F G (f v) Q \<Longrightarrow>
   succeeds E F G (bindP (field_text info key) f) Q"
  by (rule succeeds_bindP [where Q = "\<lambda>x. x = v"], rule succeeds_pure)
    (auto simp: text_field_def field_text_def as_stringP_def askP_def liftP_def bindP_def intro: emits_rules)

lemma good_restore_interface:
  assumes "validate (pton_fun E) c = []" "restorable c info"
  shows "succeeds E F (obliging (json_fun E) c present) (restore_interface info) (\<lambda>_. True)"
proof -
  obtain n mac d p flags bytes where info: "text_field info ''ifname'' n"
      "n \<in> {outer_interface c, inner_interface c}" "text_field info ''address'' mac"
      "mac_octets mac [0..<6] = Inr bytes" "text_field info ''disable_ipv6'' d"
      "text_field info ''rp_filter'' p" "jindex info ''flags'' = Inr flags"
    using assms(2) unfolding restorable_def by blast
  have "reachable c present n" using info(2) reachable_ports [OF assms(1)] by blast
  then have link: "succeeds E F (obliging (json_fun E) c present) (link_state n up m) (\<lambda>_. True)"
    if "m = [] \<or> m = mac" for up m
    using that info(4) by (intro undoing.good_link_state) auto
  have lift: "liftP (jindex info ''flags'') = returnP flags"
    by (simp add: info(7) liftP_def returnP_def fun_eq_iff)
  show ?thesis
    unfolding restore_interface_def lift bindP_simps
    by (intro succeeds_field_text [OF info(1)] succeeds_field_text [OF info(3)] succeeds_field_text [OF info(5)]
        succeeds_field_text [OF info(6)] succeeds_thenP link undoing.good_write emits_rules; simp)
qed

lemma good_table_lookup:
  "f = ''ip'' \<or> f = ''inet'' \<Longrightarrow> succeeds E F (obliging (json_fun E) c present) (table_exists f) (\<lambda>_. True)"
  by (intro undoing.good_tables) (auto simp: obliging_def split: sum.splits)

lemma steady_restore [emits_rules]:
  "steady (restore_guard c)" "steady remove_nat" "steady (restore_sysctl path key)"
  "steady (restore_interface info)" "steady remove_guard"
  by (rule steady_mono, rule emits_restore_parts emits_remove_guard)+

lemma steady_attempts [emits_rules]:
  "steady (attempts (restore_addresses c i) errors)" "steady (attempts (restore_rest c) errors)"
  "steady (attempts (map restore_interface infos) errors)"
  by (rule steady_mono, rule emits_attempts_parts)+

lemma good_remove_guard: "succeeds E F (obliging (json_fun E) c present) remove_guard (\<lambda>_. True)"
  unfolding remove_guard_def
  by (intro succeeds_bind_any [OF good_table_lookup] succeeds_whenP undoing.good_command) simp

lemma good_restore_parts:
  assumes "validate (pton_fun E) c = []" "recoverable c j" "F = jfield j"
  shows "\<forall>m \<in> set [restore_guard c, rule c False].
      succeeds E F (obliging (json_fun E) c present) m (\<lambda>_. True)"
    and "found_as c present (c_str (outer_name c)) i \<Longrightarrow> \<forall>m \<in> set (restore_addresses c i).
      succeeds E F (obliging (json_fun E) c present) m (\<lambda>_. True)"
    and "\<forall>m \<in> set (restore_rest c). succeeds E F (obliging (json_fun E) c present) m (\<lambda>_. True)"
proof -
  let ?G = "obliging (json_fun E) c present"
  note v = valid_parts [OF assms(1)] and ports = reachable_ports [OF assms(1)]
  have "succeeds E F ?G (restore_guard c) (\<lambda>_. True)"
    unfolding restore_guard_def
    by (intro succeeds_bind_any [OF good_table_lookup] succeeds_thenP undoing.good_command undoing.good_clear) simp
  then show "\<forall>m \<in> set [restore_guard c, rule c False]. succeeds E F ?G m (\<lambda>_. True)"
    using undoing.good_rule [OF assms(1)] by simp
  show "\<forall>m \<in> set (restore_addresses c i). succeeds E F ?G m (\<lambda>_. True)"
    if "found_as c present (c_str (outer_name c)) i"
  proof (cases "i = 0")
    case False
    then have outer: "reachable c present (outer_name c)"
      using that by (intro reachable_outer_name [OF assms(1)]) (auto simp: found_as_def outer_name_def c_str_def)
    then show ?thesis
      using undoing.good_route [OF assms(1) outer] undoing.good_address [OF outer v(5)]
      by (auto simp: restore_addresses_def)
  qed (simp add: restore_addresses_def)
  have nat: "succeeds E F ?G remove_nat (\<lambda>_. True)"
    unfolding remove_nat_def
    by (intro succeeds_bind_any [OF good_table_lookup] succeeds_whenP undoing.good_command) simp
  have sysctl: "succeeds E F ?G (restore_sysctl path k) (\<lambda>_. True)"
    if "k = ''ip_forward'' \<or> k = ''rp_filter_all''" for path k
  proof -
    have "is_string (F k)" using that assms(2,3) by (auto simp: recoverable_def)
    then obtain x where "F k = JString x" by (auto simp: is_string_iff)
    then have st: "succeeds E F ?G (state_at k) (\<lambda>v. v = JString x)" by (intro succeeds_state_at)
    have tx: "succeeds E F ?G (as_stringP (JString x)) (\<lambda>_. True)"
      by (rule succeeds_pure) (simp_all add: as_stringP_def askP_def liftP_def emits_rules)
    show ?thesis
      unfolding restore_sysctl_def
      by (rule succeeds_bindP [OF st])
        (auto intro!: emits_rules succeeds_bind_any [OF tx] undoing.good_write)
  qed
  show "\<forall>m \<in> set (restore_rest c). succeeds E F ?G m (\<lambda>_. True)"
    using nat sysctl undoing.good_vlan [where add = False] undoing.good_address [OF ports(2) v(4)]
    by (simp add: restore_rest_def)
qed

lemma good_restore_work:
  assumes "validate (pton_fun E) c = []" "recoverable c j" "F = jfield j"
  shows "succeeds E F (obliging (json_fun E) c present) (restore_work c) (\<lambda>errors. errors = [])"
proof -
  let ?G = "obliging (json_fun E) c present"
  note parts = good_restore_parts [OF assms]
  have base: "succeeds E F ?G (state_at ''baseline'') (\<lambda>b. \<forall>info \<in> set (json_items b). restorable c info)"
    using assms(2,3) by (intro succeeds_state_at) (simp add: recoverable_def)
  have 4: "succeeds E F ?G (bindP (state_at ''baseline'') (\<lambda>b. attempts (map restore_interface (json_items b)) []))
      (\<lambda>errors. errors = [])"
    by (rule succeeds_bindP [OF base])
      (auto intro!: emits_rules succeeds_attempts good_restore_interface [OF assms(1)])
  have 3: "succeeds E F ?G (bindP (attempts (restore_rest c) []) (\<lambda>errors.
      bindP (state_at ''baseline'') (\<lambda>b. attempts (map restore_interface (json_items b)) errors))) (\<lambda>errors. errors = [])"
    by (rule succeeds_bindP [OF succeeds_attempts [OF parts(3)]]) (use 4 in \<open>auto intro!: emits_rules\<close>)
  have 2: "succeeds E F ?G (bindP (attempts (restore_addresses c i) []) (\<lambda>errors.
      bindP (attempts (restore_rest c) errors) (\<lambda>errors.
      bindP (state_at ''baseline'') (\<lambda>b. attempts (map restore_interface (json_items b)) errors)))) (\<lambda>errors. errors = [])"
    if "found_as c present (c_str (outer_name c)) i" for i
    by (rule succeeds_bindP [OF succeeds_attempts [OF parts(2) [OF that]]]) (use 3 in \<open>auto intro!: emits_rules\<close>)
  have 1: "succeeds E F ?G (bindP (if_nametoindex (outer_name c)) (\<lambda>i.
      bindP (attempts (restore_addresses c i) []) (\<lambda>errors.
      bindP (attempts (restore_rest c) errors) (\<lambda>errors.
      bindP (state_at ''baseline'') (\<lambda>b. attempts (map restore_interface (json_items b)) errors))))) (\<lambda>errors. errors = [])"
    by (rule succeeds_bindP [OF undoing.good_index]) (use 2 in \<open>auto intro!: emits_rules\<close>)
  show ?thesis
    unfolding restore_work_def
    by (rule succeeds_bindP [OF succeeds_attempts [OF parts(1)]]) (use 1 in \<open>auto intro!: emits_rules\<close>)
qed

text \<open>The removals a rollback has asked the kernel for.\<close>

definition requested :: "ctl \<Rightarrow> ctl \<Rightarrow> nl_type \<Rightarrow> bool" where
  "requested s t kind \<longleftrightarrow> (\<exists>msg x. nl_type msg = kind \<and> logged s t (Nl_transact NETLINK_ROUTE msg x))"

lemma requested_extends: "extends s s1 \<Longrightarrow> requested s1 s2 k \<Longrightarrow> extends s2 t \<Longrightarrow> requested s t k"
  using logged_extends unfolding requested_def by blast

lemma netlink_requested:
  assumes "netlink kind flags fill ok NETLINK_ROUTE E s = (Inr (), t)" "steady fill"
  shows "requested s t kind"
proof -
  obtain s1 header attrs s2 where 1: "nl_open NETLINK_ROUTE E s = (Inr (), s1)"
    and 2: "fill E s1 = (Inr (header, attrs), s2)"
    and 3: "nl_transact NETLINK_ROUTE \<lparr>nl_type = kind, nl_flags = [NLM_F_REQUEST, NLM_F_ACK] @ flags,
      nl_header = header, nl_attrs = attrs\<rparr> ok E s2 = (Inr (), t)" (is "nl_transact _ ?msg _ _ _ = _")
    using assms(1) by (auto simp: netlink_def thenP_Inr bindP_Inr)
  have "extends s s1" "extends s1 s2"
    using emits_extends [OF steady_calls(8) 1] emits_extends [OF assms(2) 2] by simp_all
  then have "extends s s2" by (rule extends_trans)
  moreover have "logged s2 t (Nl_transact NETLINK_ROUTE ?msg (netlink_reply E (trace s2) NETLINK_ROUTE ?msg))"
    using 3 by (auto simp: nl_transact_def emit_def Let_def logged_def split: nl_reply.splits if_splits)
  ultimately have "logged s t (Nl_transact NETLINK_ROUTE ?msg (netlink_reply E (trace s2) NETLINK_ROUTE ?msg))"
    using extends_refl by (rule logged_extends)
  then show ?thesis unfolding requested_def by (intro exI [of _ ?msg]) auto
qed

lemma removals_requested:
  "rule c False E s = (Inr (), t) \<Longrightarrow> requested s t RTM_DELRULE"
  "address iface ip prefix False E s = (Inr (), t) \<Longrightarrow> requested s t RTM_DELADDR"
  "route c gateway False E s = (Inr (), t) \<Longrightarrow> requested s t RTM_DELROUTE"
  unfolding rule_def address_def route_def
  by (rule netlink_requested, simp, intro emits_rules)+

lemma vlan_requested:
  assumes "vlan c False E s = (Inr (), t)" "\<forall>i. logged s t (If_index ''mbx-outer'' i) \<longrightarrow> i \<noteq> 0"
  shows "requested s t RTM_DELLINK"
proof -
  let ?nl = "netlink RTM_DELLINK (add_flags False)
    (bindP (index_of ''mbx-outer'') (\<lambda>i. returnP (Ifinfomsg i False False, []))) True NETLINK_ROUTE"
  have st: "steady (bindP (index_of ''mbx-outer'') (\<lambda>i. returnP (Ifinfomsg i False False, [])))"
    by (intro emits_rules)
  obtain i s1 where 1: "if_nametoindex ''mbx-outer'' E s = (Inr i, s1)"
    and 2: "whenP (i \<noteq> 0) ?nl E s1 = (Inr (), t)"
    using assms(1) by (auto simp: vlan_def bindP_Inr)
  have log: "logged s s1 (If_index ''mbx-outer'' i)"
    using 1 by (auto simp: if_nametoindex_def emit_def Let_def logged_def c_str_def)
  have ext: "extends s s1" using emits_extends [OF steady_calls(3) 1] by simp
  have "steady (whenP (i \<noteq> 0) ?nl)"
    using st by (intro emits_rules emits_netlink TrueI)
  then have "extends s1 t" using 2 emits_extends by blast
  then have "i \<noteq> 0" using assms(2) logged_extends [OF extends_refl log] by blast
  then have "?nl E s1 = (Inr (), t)" using 2 by (simp add: whenP_def)
  then have "requested s1 t RTM_DELLINK" using st by (rule netlink_requested)
  then show ?thesis using ext extends_refl by (blast intro: requested_extends)
qed

text \<open>
  Everything that was installed and can be there is taken down: the rule and the addresses always, the routes
  when the outer interface is found, the VLAN link when it is found.
\<close>

definition removals :: "NetworkConfig \<Rightarrow> bool \<Rightarrow> nl_type list" where
  "removals c present =
     [RTM_DELRULE, RTM_DELADDR] @ (if vlan_id c = None then [RTM_DELROUTE]
      else if present then [RTM_DELROUTE, RTM_DELLINK] else [])"

lemma step_requested:
  assumes "run_steps ms E s = (Inr (), t)" "\<forall>m \<in> set ms. emits plain m" "m \<in> set ms"
    and "\<And>u v. m E u = (Inr (), v) \<Longrightarrow> extends s u \<Longrightarrow> extends v t \<Longrightarrow> requested u v kind"
  shows "requested s t kind"
proof -
  obtain u v where "m E u = (Inr (), v)" "extends s u" "extends v t"
    using run_steps_member [OF assms(1,3,2)] by blast
  then show ?thesis using assms(4) requested_extends by blast
qed

lemma rest_requests:
  assumes "run_steps (restore_rest c) E s = (Inr (), t)"
    and "\<forall>i. logged s t (If_index ''mbx-outer'' i) \<longrightarrow> (i \<noteq> 0) = present"
  shows "requested s t RTM_DELADDR" "vlan_id c \<noteq> None \<Longrightarrow> present \<Longrightarrow> requested s t RTM_DELLINK"
proof -
  show "requested s t RTM_DELADDR"
    by (rule step_requested [OF assms(1) plain_parts(3),
          where m = "address (inner_interface c) (inner_gateway_ipv4 c) (inner_prefix c) False"])
      (simp_all add: restore_rest_def removals_requested)
  assume tagged: "vlan_id c \<noteq> None" "present"
  show "requested s t RTM_DELLINK"
  proof (rule step_requested [OF assms(1) plain_parts(3), where m = "vlan c False"])
    show "vlan c False \<in> set (restore_rest c)" using tagged(1) by (simp add: restore_rest_def)
    fix u v assume u: "vlan c False E u = (Inr (), v)" "extends s u" "extends v t"
    have "\<forall>i. logged u v (If_index ''mbx-outer'' i) \<longrightarrow> i \<noteq> 0"
      using assms(2) logged_extends [OF u(2) _ u(3)] tagged(2) by blast
    with u(1) show "requested u v RTM_DELLINK" by (rule vlan_requested)
  qed
qed

lemma restore_all_requests:
  assumes "restore_all c E s = (Inr (), t)" "\<forall>e. logged s t e \<longrightarrow> succeeded c present e"
    and "validate (pton_fun E) c = []"
  shows "\<forall>kind \<in> set (removals c present). requested s t kind"
proof -
  obtain s1 i s2 s3 s4 where first: "run_steps [restore_guard c, rule c False] E s = (Inr (), s1)"
    and addresses: "run_steps (restore_addresses c i) E s2 = (Inr (), s3)"
    and rest: "run_steps (restore_rest c) E s3 = (Inr (), s4)"
    and index: "if_nametoindex (outer_name c) E s1 = (Inr i, s2)"
    and ext: "extends s s1" "extends s1 t" "extends s s2" "extends s2 t" "extends s s3" "extends s3 t" "extends s4 t"
    using restore_all_parts [OF assms(1)] by metis
  have "requested s s1 RTM_DELRULE"
    by (rule step_requested [OF first plain_parts(1), where m = "rule c False"])
      (simp_all add: removals_requested)
  then have 1: "requested s t RTM_DELRULE" using ext(2) requested_extends extends_refl by blast
  have "\<forall>i. logged s3 s4 (If_index ''mbx-outer'' i) \<longrightarrow> (i \<noteq> 0) = present"
    using assms(2) logged_extends [OF ext(5) _ ext(7)] by (fastforce simp: found_as_def)
  note rest_requests [OF rest this]
  then have 2: "requested s t RTM_DELADDR" "vlan_id c \<noteq> None \<Longrightarrow> present \<Longrightarrow> requested s t RTM_DELLINK"
    using ext(5,7) requested_extends by blast+
  have 3: "requested s t RTM_DELROUTE" if "vlan_id c = None \<or> present"
  proof -
    have "logged s1 s2 (If_index (c_str (outer_name c)) i)"
      using index by (auto simp: if_nametoindex_def emit_def Let_def logged_def)
    then have "found_as c present (c_str (outer_name c)) i"
      using assms(2) logged_extends [OF ext(1) _ ext(4)] by fastforce
    then have "i \<noteq> 0"
      using that valid_parts(1) [OF assms(3)] by (auto simp: found_as_def outer_name_def c_str_def split: if_splits)
    then have "requested s2 s3 RTM_DELROUTE"
      by (intro step_requested [OF addresses plain_parts(2), where m = "route c True False"])
        (simp_all add: restore_addresses_def removals_requested)
    then show ?thesis using ext(3,6) requested_extends by blast
  qed
  show ?thesis using 1 2 3 by (auto simp: removals_def)
qed

lemma restore_proceeds:
  assumes "validate (pton_fun E) c = []" "recoverable c (net_state s)" "enabled s" "indexable (net_state s)"
    and "restore E s = (r, t)" "trace t = trace s @ evs" "list_all (obliging (json_fun E) c present) evs"
  shows "r = Inr () \<and> status t = JString ''inactive'' \<and> (\<forall>kind \<in> set (removals c present). requested s t kind)"
  using assms(5,4)
proof (cases rule: restore_cases)
  case (invalid e)
  then show ?thesis using assms(1,2) config_from_config_json by (simp add: recoverable_def)
next
  case (unjournaled m)
  then show ?thesis using assms(6,7) by (simp add: obliging_def)
next
  case (ran c' s1 s2 s3 work errors gone errors' put)
  have c: "c' = c"
    using ran(1) assms(1,2) config_from_config_json by (simp add: recoverable_def)
  have all: "list_all (obliging (json_fun E) c present) work" "list_all (obliging (json_fun E) c present) gone"
      "put = None"
    using assms(6,7) ran(2,6,9,12) by (auto simp: obliging_def)
  have rec: "recoverable c (net_state s1)" using assms(2) ran(4) by (simp add: recoverable_def)
  have view: "viewed (jfield (net_state s1)) s1" using ran(19,20) assms(3) by (simp add: viewed_def)
  have work: "restore_work c E s1 = (Inr errors, s2)" using ran(5) c by simp
  have same: "same_state s1 s2" using emits_extends [OF emits_restore_work work] by simp
  have errors: "errors = []"
    using succeedsD [OF good_restore_work [OF assms(1) rec refl] view work ran(6) all(1)] by auto
  then have guard: "attempt remove_guard E s2 = (Inr errors', s3)" using ran(8) by simp
  have "errors' = []"
    using succeedsD [OF succeeds_attempt [OF good_remove_guard] viewed_same [OF same view] guard ran(9) all(2)]
    by auto
  then have outcome: "r = Inr ()" "status t = JString ''inactive''"
    using ran(13,16) all(3) by (simp_all add: restore_result_def)
  have "restore_all c E s1 = (Inr (), s2)"
    using work errors restore_work_complete by simp
  moreover have "\<forall>e. logged s1 s2 e \<longrightarrow> succeeded c present e"
    using ran(6) all(1) by (auto simp: logged_def list_all_iff obliging_def)
  ultimately have "\<forall>kind \<in> set (removals c present). requested s1 s2 kind"
    using assms(1) by (rule restore_all_requests)
  moreover have "extends s s1" "extends s2 t" using ran(2,9,12) by (auto simp: extends_def)
  ultimately show ?thesis using outcome requested_extends by blast
qed


end
