(* ===== verification/Answers.thy ===== *)
theory Answers
  imports Liveness
begin

text \<open>
  The events of a run and the environment that answered them: every event carries the answer the environment
  gives after the events before it. With this an environment can be checked call by call, and the conditions
  on a run of theory Liveness follow for it.
\<close>

section \<open>Answers of the environment\<close>

fun answered :: "env \<Rightarrow> event list \<Rightarrow> event \<Rightarrow> bool" where
  "answered E h (Read_file path x) = (x = read_reply E h path)"
| "answered E h (Write_file path v x) = (x = write_reply E h path v)"
| "answered E h (If_index name x) = (x = index_reply E h name)"
| "answered E h (Nl_open proto x) = (x = open_reply E h proto)"
| "answered E h (Nl_transact proto msg x) = (x = netlink_reply E h proto msg)"
| "answered E h (Command argv input x) = (x = command_reply E h argv input)"
| "answered E h (Store_put k v x) = (x = put_reply E h k v)"
| "answered E h (Store_get k x) = (x = get_reply E h k)"
| "answered E h (Make_directories path x) = (x = directory_reply E h path)"
| "answered E h (Stat_netns x) = (x = netns_reply E h)"
| "answered E h (Lock_file path x) = (x = lock_reply E h path)"
| "answered E h (Clock x) = (x = clock_reply E h)"

fun honest :: "env \<Rightarrow> event list \<Rightarrow> event list \<Rightarrow> bool" where
  "honest E h [] = True"
| "honest E h (e # evs) = (answered E h e \<and> honest E (h @ [e]) evs)"

lemma honest_append [simp]: "honest E h (xs @ ys) \<longleftrightarrow> honest E h xs \<and> honest E (h @ xs) ys"
  by (induction xs arbitrary: h) auto

definition genuine :: "'a prog \<Rightarrow> bool" where
  "genuine m \<longleftrightarrow> (\<forall>E s. \<exists>evs. trace (snd (m E s)) = trace s @ evs \<and> honest E (trace s) evs)"

lemma genuineI:
  "(\<And>E s. \<exists>evs. trace (snd (m E s)) = trace s @ evs \<and> honest E (trace s) evs) \<Longrightarrow> genuine m"
  by (simp add: genuine_def)

lemma genuineD:
  assumes "genuine m" "m E s = (r, t)"
  obtains evs where "trace t = trace s @ evs" "honest E (trace s) evs"
  using assms by (metis genuine_def snd_conv)

named_theorems genuine_rules

lemma genuine_bindP [genuine_rules]:
  assumes "genuine m" "\<And>x. genuine (f x)"
  shows "genuine (bindP m f)"
proof (rule genuineI)
  fix E s
  obtain r t where m: "m E s = (r, t)" by (cases "m E s")
  obtain evs where evs: "trace t = trace s @ evs" "honest E (trace s) evs" using assms(1) m by (rule genuineD)
  show "\<exists>evs. trace (snd (bindP m f E s)) = trace s @ evs \<and> honest E (trace s) evs"
  proof (cases r)
    case (Inl e)
    with m evs show ?thesis by (simp add: bindP_def)
  next
    case (Inr x)
    obtain r' t' where f: "f x E t = (r', t')" by (cases "f x E t")
    obtain evs' where "trace t' = trace t @ evs'" "honest E (trace t) evs'" using assms(2) f by (rule genuineD)
    with m evs f Inr show ?thesis by (intro exI [of _ "evs @ evs'"]) (simp add: bindP_def)
  qed
qed

lemma genuine_thenP [genuine_rules]: "genuine m \<Longrightarrow> genuine n \<Longrightarrow> genuine (thenP m n)"
  by (simp add: thenP_def genuine_bindP)

lemma genuine_catchP [genuine_rules]:
  assumes "genuine m" "\<And>e. genuine (h e)"
  shows "genuine (catchP m h)"
proof (rule genuineI)
  fix E s
  obtain r t where m: "m E s = (r, t)" by (cases "m E s")
  obtain evs where evs: "trace t = trace s @ evs" "honest E (trace s) evs" using assms(1) m by (rule genuineD)
  show "\<exists>evs. trace (snd (catchP m h E s)) = trace s @ evs \<and> honest E (trace s) evs"
  proof (cases "\<exists>e. r = Inl e \<and> is_std_exception e")
    case True
    then obtain e where e: "r = Inl e" "is_std_exception e" by blast
    obtain r' t' where h: "h e E t = (r', t')" by (cases "h e E t")
    obtain evs' where "trace t' = trace t @ evs'" "honest E (trace t) evs'" using assms(2) h by (rule genuineD)
    with m evs h e show ?thesis by (intro exI [of _ "evs @ evs'"]) (simp add: catchP_def)
  next
    case False
    with m evs show ?thesis by (auto simp: catchP_def split: sum.splits)
  qed
qed

text \<open>Programs that make no call.\<close>

lemma genuine_silent [genuine_rules]:
  "genuine (returnP x)" "genuine (throwP e)" "genuine (liftP r)" "genuine (throw_if b e)"
  "genuine (set_state k v)" "genuine (state_at k)" "genuine (set_deadline d)"
  "genuine (ipv4 ip)" "genuine (read_config j)" "genuine (parse_jsonP tx)" "genuine (as_stringP j)"
  by (rule genuineI, auto simp: returnP_def throwP_def liftP_def throw_if_def set_state_def state_at_def
      set_deadline_def ipv4_def read_config_def parse_jsonP_def as_stringP_def askP_def split: option.splits)+

lemma genuine_calls [genuine_rules]:
  "genuine (read_file path)" "genuine (write_file path v)" "genuine (if_nametoindex name)"
  "genuine (command argv input)" "genuine put_state" "genuine now" "genuine (nl_open proto)"
  "genuine (nl_transact proto msg ok)"
  by (rule genuineI, auto simp: read_file_def write_file_def if_nametoindex_def command_def put_state_def
      now_def nl_open_def nl_transact_def emit_def Let_def
      split: option.splits sum.splits nl_reply.splits)+

lemma genuine_control [genuine_rules]:
  "(\<And>s. genuine (f s)) \<Longrightarrow> genuine (getP f)" "genuine w \<Longrightarrow> genuine (whenP b w)"
  "genuine m \<Longrightarrow> genuine n \<Longrightarrow> genuine (if b then m else n)"
  by (simp_all add: genuine_def getP_def whenP_def returnP_def)

lemma genuine_run_steps: "\<forall>m \<in> set ms. genuine m \<Longrightarrow> genuine (run_steps ms)"
  by (induction ms) (simp_all add: genuine_rules)

lemma genuine_attempt [genuine_rules]: "genuine m \<Longrightarrow> genuine (attempt m)"
  unfolding attempt_def by (intro genuine_rules)

lemma genuine_attempts: "\<forall>m \<in> set ms. genuine m \<Longrightarrow> genuine (attempts ms errors)"
  by (induction ms arbitrary: errors) (simp_all add: genuine_rules)

lemma genuine_parts [genuine_rules]:
  "genuine (index_of name)" "genuine (run_command argv input)" "genuine (json_command argv)"
  "genuine (table_exists f)" "genuine (field_text info key)"
  unfolding index_of_def run_command_def json_command_def table_exists_def field_text_def
  by (intro genuine_rules)+

lemma genuine_netlink: "genuine fill \<Longrightarrow> genuine (netlink t flags fill ok proto)"
  unfolding netlink_def split_def by (intro genuine_rules)

lemma genuine_nl [genuine_rules]:
  "genuine (link_state name up mac)" "genuine (vlan c add)" "genuine (address iface ip prefix add)"
  "genuine (route c gateway add)" "genuine (rule c add)" "genuine clear_connections"
  unfolding link_state_def vlan_def address_def route_def rule_def clear_connections_def
  by (intro genuine_rules genuine_netlink)+

lemma genuine_restore_parts [genuine_rules]:
  "genuine (restore_guard c)" "genuine remove_nat" "genuine (restore_sysctl path key)"
  "genuine (restore_interface info)" "genuine remove_guard"
  unfolding restore_guard_def remove_nat_def restore_sysctl_def restore_interface_def remove_guard_def
  by (intro genuine_rules)+

lemma genuine_restore [genuine_rules]: "genuine restore"
proof -
  have "genuine (attempts [restore_guard c, rule c False] e)" "genuine (attempts (restore_addresses c i) e)"
      "genuine (attempts (restore_rest c) e)" "genuine (attempts (map restore_interface infos) e)"
      "genuine (attempt remove_guard)" "genuine (finish_restore e)"
    for c i e infos
    unfolding finish_restore_def
    by (auto intro!: genuine_attempts genuine_run_steps genuine_rules
        simp: restore_addresses_def restore_rest_def split: if_splits)
  then show ?thesis
    unfolding restore_def restore_work_def by (intro genuine_rules)
qed

lemma genuine_apply: "genuine (apply_config c)"
proof -
  have "genuine (preflight c)"
    unfolding preflight_def reserved_exists_def interface_baseline_def by (intro genuine_rules)
  moreover have "genuine (journal c b)" for b
    unfolding journal_def by (rule genuine_run_steps) (auto intro!: genuine_rules)
  moreover have "genuine (install c)"
    unfolding install_def install_links_def install_vlan_def install_forwarding_def
    by (rule genuine_run_steps) (auto intro!: genuine_rules split: if_splits)
  then have "genuine (install_and_wait c)"
    unfolding install_and_wait_def by (intro genuine_run_steps) (auto intro!: genuine_rules)
  moreover have "genuine (undo e)" for e
    unfolding undo_def by (intro genuine_rules)
  ultimately show ?thesis
    unfolding apply_config_def by (intro genuine_rules)
qed

section \<open>Environments with favourable answers\<close>

lemma honest_list_all:
  assumes "\<And>h e. answered E h e \<Longrightarrow> P e" "honest E h evs"
  shows "list_all P evs"
  using assms(2) by (induction evs arbitrary: h) (auto dest: assms(1))

lemma honest_favourable:
  assumes "\<And>h b e. I h b \<Longrightarrow> P e \<Longrightarrow> answered E h e \<Longrightarrow>
      succeeded c (b \<and> vlan_id c \<noteq> None) e \<and> (b \<or> unhindered L c e) \<and> I (h @ [e]) (b \<or> is_put e)"
    and "honest E h evs" "list_all P evs" "I h b"
  shows "favourable L c b evs"
  using assms(2-4)
proof (induction evs arbitrary: h b)
  case (Cons e evs)
  then show ?case using assms(1) [of h b e] Cons.IH [of "h @ [e]" "b \<or> is_put e"] by simp
qed simp

end
