(* ===== verification/Demonstration.thy ===== *)
theory Demonstration
  imports Answers
begin

text \<open>
  Concrete environments at which the properties of the network controller apply, and the witnesses that
  apply them there: a system on which every call succeeds, the same system with a kernel that never
  acknowledges, with a store that never accepts a write, and with a guard table present.
\<close>

section \<open>Environments\<close>

definition demo_info :: json where
  "demo_info = JObject
     [(''address'', JString ''02:11:22:33:44:55''), (''disable_ipv6'', JString ''0''),
      (''flags'', JArray [JString ''UP'']), (''ifname'', JString ''inner0''),
      (''rp_filter'', JString ''2'')]"

definition plain_config :: NetworkConfig where
  "plain_config = sample_config\<lparr>vlan_id := None\<rparr>"

text \<open>A journal as \<open>apply\<close> leaves it.\<close>

definition demo_journal :: "string \<Rightarrow> json" where
  "demo_journal st =
     JObject [(''baseline'', JArray [demo_info]), (''config'', config_json plain_config),
       (''ip_forward'', JString ''0''), (''rp_filter_all'', JString ''1''), (''status'', JString st)]"

definition guard_table :: json where
  "guard_table = JObject [(''nftables'', JArray [JObject [(''table'',
     JObject [(''family'', JString ''inet''), (''name'', JString ''magicbox'')])]])]"

definition demo_read :: "string \<Rightarrow> string + json" where
  "demo_read s =
     (if s = ''i'' then Inr (JArray [JObject [(''ifname'', JString ''inner0'')]])
      else if s = ''t'' then Inr (JObject [(''nftables'', JArray [])])
      else if s = ''g'' then Inr guard_table
      else if s = ''j'' then Inr (demo_journal ''applying'')
      else Inr (JArray []))"

definition demo_command :: "string \<Rightarrow> string list \<Rightarrow> string" where
  "demo_command tables argv =
     (if take 3 argv = [''ip'', ''-j'', ''address''] then ''i''
      else if take 2 argv = [''nft'', ''-j''] then tables else [])"

definition calm :: env where
  "calm = \<lparr>pton_fun = dotted_quad,
     json_fun = \<lparr>read_json = demo_read, write_json = (\<lambda>_. []), real_text = (\<lambda>_. [])\<rparr>,
     strerror = (\<lambda>_. []), read_reply = (\<lambda>_ _. Some ''1''), write_reply = (\<lambda>_ _ _. True),
     index_reply = (\<lambda>_ n. if n = ''mbx-outer'' then 0 else 3),
     open_reply = (\<lambda>_ _. True), netlink_reply = (\<lambda>_ _ _. Nl_ack),
     command_reply = (\<lambda>_ argv _. Inr (demo_command ''t'' argv)),
     put_reply = (\<lambda>_ _ _. None), get_reply = (\<lambda>_ _. Inr (Some ''j'')), directory_reply = (\<lambda>_ _. None),
     netns_reply = (\<lambda>_. Some 7), lock_reply = (\<lambda>_ _. True), clock_reply = (\<lambda>_. 0)\<rparr>"

definition deaf_kernel :: env where
  "deaf_kernel = calm\<lparr>netlink_reply := (\<lambda>_ _ _. Nl_timeout)\<rparr>"

definition full_disk :: env where
  "full_disk = calm\<lparr>put_reply := (\<lambda>_ _ _. Some ''disk full'')\<rparr>"

definition guarded :: env where
  "guarded = calm\<lparr>command_reply := (\<lambda>_ argv _. Inr (demo_command ''g'' argv))\<rparr>"

definition idle :: ctl where
  "idle = \<lparr>enabled = True, net_state = JObject [(''status'', JString ''inactive'')], deadline = 0, trace = []\<rparr>"

definition waiting_until :: "int \<Rightarrow> ctl" where
  "waiting_until d = \<lparr>enabled = True, net_state = demo_journal ''awaiting_confirmation'', deadline = d, trace = []\<rparr>"

lemmas demo_envs = calm_def deaf_kernel_def full_disk_def guarded_def

lemma demo_states [simp]:
  "enabled idle" "indexable (net_state idle)" "status idle = JString ''inactive''" "trace idle = []"
  "enabled (waiting_until d)" "indexable (net_state (waiting_until d))"
  "status (waiting_until d) = JString ''awaiting_confirmation''" "deadline (waiting_until d) = d"
  "trace (waiting_until d) = []"
  by (simp_all add: idle_def waiting_until_def demo_journal_def indexable_def jfield_def)

lemma waiting_config: "jfield (net_state (waiting_until d)) ''config'' = config_json plain_config"
  by (simp add: waiting_until_def demo_journal_def jfield_def)

lemma plain_config_valid: "validate dotted_quad plain_config = []"
proof -
  have "syntax_errors dotted_quad plain_config = []"
    by (simp add: syntax_errors_Nil_iff plain_config_def sample_config_def sample_interfaces sample_mac
        unicast_ipv4_def c_str_def)
  moreover have "topology_errors dotted_quad plain_config = []"
    by (simp add: topology_errors_def plain_config_def sample_config_def prefix_mask_def usable_def
        host_of_def c_str_def)
  ultimately show ?thesis by (simp add: validate_def)
qed

lemma plain_config_fields [simp]:
  "outer_interface plain_config = ''outer0''" "inner_interface plain_config = ''inner0''"
  "vlan_id plain_config = None" "outer_mac plain_config = ''02:11:22:33:44:55''"
  by (simp_all add: plain_config_def sample_config_def)

lemma demo_config: "config_from_json dotted_quad (config_json plain_config) = Inr plain_config"
  using plain_config_valid by (rule config_from_config_json)

lemma first_token_1: "first_token ''1'' = ''1''"
  by (simp add: first_token_def is_space_def)

lemma demo_listed:
  "listed (json_fun calm) f ''t'' = Inr False" "listed (json_fun calm) f ''g'' = Inr (f = ''inet'')"
  by (simp_all add: listed_def calm_def parse_json_def demo_read_def guard_table_def jfield_def)

lemma demo_json: "json_fun deaf_kernel = json_fun calm" "json_fun guarded = json_fun calm"
  by (simp_all add: demo_envs)

text \<open>What the commands print on the calm system is in nobody's way.\<close>

lemma calm_unhindered: "unhindered (json_fun calm) plain_config (Command argv input (Inr (demo_command ''t'' argv)))"
proof -
  have "parse_json (json_fun calm) [] = Inr (JArray [])"
      "parse_json (json_fun calm) ''i'' = Inr (JArray [JObject [(''ifname'', JString ''inner0'')]])"
    by (simp_all add: calm_def parse_json_def demo_read_def)
  then show ?thesis
    using demo_listed
    by (auto simp: demo_command_def tables_argv_def dedicated_def json_is_member_def is_member_def jfield_def
        Let_def)
qed

lemma demo_legible:
  "legible (json_fun calm) (Command argv input (Inr (demo_command ''t'' argv)))"
  "legible (json_fun calm) (Command argv input (Inr (demo_command ''g'' argv)))"
  using demo_listed by (simp_all add: demo_command_def tables_argv_def)

lemma calm_answers:
  assumes "answered calm h e"
  shows "succeeded plain_config False e" "unhindered (json_fun calm) plain_config e"
    "obliging (json_fun calm) plain_config False e"
  using assms calm_unhindered demo_legible
  by (cases e; simp add: calm_def first_token_1 found_as_def obliging_def)+

lemma guarded_answers: "answered guarded h e \<Longrightarrow> obliging (json_fun calm) plain_config False e"
  using demo_legible
  by (cases e; simp add: demo_envs first_token_1 found_as_def obliging_def)

lemma deaf_answers:
  assumes "answered deaf_kernel h e" "read_only e \<or> is_put e"
  shows "succeeded plain_config False e" "unhindered (json_fun calm) plain_config e"
  using assms calm_unhindered
  by (cases e; simp add: demo_envs first_token_1 found_as_def)+

lemma demo_mac: "\<exists>bytes. mac_octets ''02:11:22:33:44:55'' [0..<6] = Inr bytes"
  using mac_octets_unicast [OF sample_mac] by blast

lemma demo_fields:
  "text_field demo_info ''ifname'' ''inner0''" "text_field demo_info ''address'' ''02:11:22:33:44:55''"
  "text_field demo_info ''disable_ipv6'' ''0''" "text_field demo_info ''rp_filter'' ''2''"
  "jindex demo_info ''flags'' = Inr (JArray [JString ''UP''])"
  by (simp_all add: text_field_def demo_info_def jindex_def jfield_def)

lemma demo_recoverable: "recoverable plain_config (demo_journal st)"
proof -
  have "restorable plain_config demo_info"
    unfolding restorable_def using demo_fields demo_mac by (metis insertCI plain_config_fields(2))
  then show ?thesis
    by (simp add: recoverable_def demo_journal_def jfield_def)
qed

section \<open>Runs\<close>

lemma pton_calm [simp]:
  "pton_fun calm = dotted_quad" "pton_fun deaf_kernel = dotted_quad" "pton_fun full_disk = dotted_quad"
  "pton_fun guarded = dotted_quad"
  by (simp_all add: demo_envs)

lemma put_calm [simp]:
  "put_reply calm evs k v = None" "put_reply deaf_kernel evs k v = None" "put_reply guarded evs k v = None"
  by (simp_all add: demo_envs)

text \<open>The first thing an installation does is to switch IPv6 off on the outer port.\<close>

lemma install_first_write:
  assumes "install c E s = (r, t)"
  shows "\<exists>ok. logged s t (Write_file (ipv6_path (outer_interface c)) ''1'' ok)"
proof -
  let ?w = "write_file (ipv6_path (outer_interface c)) ''1''"
  obtain rest where steps: "install c = thenP ?w (run_steps rest)"
    and rest: "emits plain (run_steps rest)"
  proof
    show "install c = thenP ?w (run_steps (tl (install_links c @ [run_command nft_apply (guard_script c)] @
        install_forwarding c @ [run_command nft_apply (delete_guard_script @ ruleset c)])))"
      by (simp add: install_def install_links_def)
    show "emits plain (run_steps (tl (install_links c @ [run_command nft_apply (guard_script c)] @
        install_forwarding c @ [run_command nft_apply (delete_guard_script @ ruleset c)])))"
      unfolding install_links_def install_vlan_def install_forwarding_def
      by (rule emits_run_steps) (auto intro: emits_rules emits_plain_command split: if_splits)
  qed
  obtain r1 s1 where w: "?w E s = (r1, s1)" by (cases "?w E s")
  then have log: "\<exists>ok. logged s s1 (Write_file (ipv6_path (outer_interface c)) ''1'' ok)"
    by (auto simp: write_file_def emit_def Let_def logged_def split: if_splits)
  have "extends s1 t"
  proof (cases r1)
    case (Inl e)
    then show ?thesis using assms w by (simp add: steps run_first)
  next
    case (Inr u)
    then have "run_steps rest E s1 = (r, t)" using assms w by (simp add: steps run_first)
    then show ?thesis using emits_extends [OF rest] by blast
  qed
  then show ?thesis using log logged_extends extends_refl by blast
qed

lemma logged_split: "logged s t e \<Longrightarrow> \<exists>pre post. trace t = trace s @ pre @ e # post"
  by (auto simp: logged_def dest: split_list)

lemma mutates_write: "mutates (Write_file path v ok)"
  by (simp add: mutates_def)

lemma calm_applies:
  assumes "enabled s" "indexable (net_state s)" "status s = JString ''inactive''"
  shows "\<exists>t. apply_config plain_config calm s = (Inr (), t)"
proof -
  obtain r t where run: "apply_config plain_config calm s = (r, t)" by fastforce
  obtain evs where evs: "trace t = trace s @ evs" "honest calm (trace s) evs"
    using genuine_apply run by (rule genuineD)
  have "favourable (json_fun calm) plain_config False evs"
    by (rule honest_favourable [OF _ evs(2), where I = "\<lambda>_ _. True" and P = "\<lambda>_. True"])
      (use calm_answers in \<open>auto simp: list_all_iff\<close>)
  then have "r = Inr ()"
    using apply_proceeds [OF _ assms run evs(1)] plain_config_valid by simp
  then show ?thesis using run by blast
qed

lemma calm_apply:
  obtains t where "apply_config plain_config calm idle = (Inr (), t)"
  using calm_applies [of idle] by auto

lemma calm_started:
  obtains t s1 s2 where "apply_config plain_config calm idle = (Inr (), t)"
    "install plain_config calm s1 = (Inr (), s2)" "extends idle s1" "extends s2 t"
proof -
  obtain t where t: "apply_config plain_config calm idle = (Inr (), t)"
    using calm_apply .
  from t demo_states(2) show ?thesis
  proof (cases rule: apply_cases)
    case (started pre s1)
    from started(9,7) show ?thesis
    proof (cases rule: started_cases)
      case (waiting s2 evs \<tau>)
      then show ?thesis using that t started(4) by (auto simp: extends_def)
    qed auto
  qed auto
qed

lemma calm_mutation:
  obtains t pre e post where "apply_config plain_config calm idle = (Inr (), t)"
    "trace t = trace idle @ pre @ e # post" "mutates e"
proof -
  obtain t s1 s2 where "apply_config plain_config calm idle = (Inr (), t)"
    and i: "install plain_config calm s1 = (Inr (), s2)" and ext: "extends idle s1" "extends s2 t"
    using calm_started by metis
  then show ?thesis
    using that install_first_write [OF i] logged_extends [OF ext(1) _ ext(2)] logged_split mutates_write
    by meson
qed

theorem apply_write_ahead_witness:
  "\<exists>t pre e post. apply_config plain_config calm idle = (Inr (), t) \<and> mutates e \<and>
     trace t = pre @ e # post \<and>
     (\<exists>j. Store_put ''network'' j None \<in> set pre \<and> journaled plain_config j)"
proof -
  obtain t pre e post where 1: "apply_config plain_config calm idle = (Inr (), t)"
    "trace t = trace idle @ pre @ e # post" "mutates e"
    using calm_mutation .
  have "\<exists>j. Store_put ''network'' j None \<in> set pre \<and> journaled plain_config j \<and>
      validate (pton_fun calm) plain_config = []"
    by (rule apply_write_ahead [OF 1(1) _ 1(2,3)]) simp
  then show ?thesis using 1 by auto
qed

theorem install_guard_first_witness:
  "\<exists>s t pre e post out. install plain_config calm s = (Inr (), t) \<and>
     trace t = trace s @ pre @ e # post \<and> exposes e \<and>
     Command nft_apply (guard_script plain_config) (Inr out) \<in> set pre"
proof -
  obtain s t where i: "install plain_config calm s = (Inr (), t)"
    using calm_started by metis
  let ?steps = "install_links plain_config @ [run_command nft_apply (guard_script plain_config)] @
    install_forwarding plain_config @ [run_command nft_apply (delete_guard_script @ ruleset plain_config)]"
  have "\<forall>m \<in> set ?steps. emits plain m"
    unfolding install_links_def install_vlan_def install_forwarding_def
    by (auto intro: emits_rules emits_plain_command split: if_splits)
  moreover have "write_file ip_forward_path ''1'' \<in> set ?steps"
    by (simp add: install_forwarding_def)
  ultimately obtain s1 s2 where "write_file ip_forward_path ''1'' calm s1 = (Inr (), s2)"
      "extends s s1" "extends s2 t"
    using run_steps_member [of ?steps calm s t] i by (metis install_def)
  then have "logged s t (Write_file ip_forward_path ''1'' True)"
    using write_file_Inr logged_extends by blast
  then obtain pre post where tr: "trace t = trace s @ pre @ Write_file ip_forward_path ''1'' True # post"
    using logged_split by blast
  have "\<exists>out. Command nft_apply (guard_script plain_config) (Inr out) \<in> set pre"
    by (rule install_guard_first [OF i tr]) simp
  with i tr show ?thesis by fastforce
qed

lemma waiting_recoverable: "recoverable plain_config (net_state (waiting_until d))"
  by (simp add: waiting_until_def demo_recoverable)

lemma demo_restores:
  assumes "E = calm \<or> E = guarded" "recoverable plain_config (net_state s)" "enabled s" "indexable (net_state s)"
  shows "\<exists>t. restore E s = (Inr (), t)"
proof -
  obtain r t where run: "restore E s = (r, t)" by fastforce
  obtain evs where evs: "trace t = trace s @ evs" "honest E (trace s) evs"
    using genuine_restore run by (rule genuineD)
  have "answered E h e \<Longrightarrow> obliging (json_fun E) plain_config False e" for h e
    using assms(1) calm_answers(3) guarded_answers demo_json by auto
  then have "list_all (obliging (json_fun E) plain_config False) evs"
    using evs(2) by (rule honest_list_all)
  then have "r = Inr ()"
    using restore_proceeds [OF _ assms(2-4) run evs(1)] plain_config_valid assms(1) by auto
  then show ?thesis using run by blast
qed

lemma guarded_restore:
  obtains t where "restore guarded (waiting_until 0) = (Inr (), t)"
  using demo_restores [OF _ waiting_recoverable, of guarded 0] by auto

lemma guarded_removal:
  obtains t evs e where "restore guarded (waiting_until 0) = (Inr (), t)"
    "trace t = trace (waiting_until 0) @ evs" "e \<in> set evs" "removes_guard e"
proof -
  obtain t where t: "restore guarded (waiting_until 0) = (Inr (), t)" using guarded_restore .
  from t demo_states(6) show ?thesis
  proof (cases rule: restore_cases)
    case (ran c s1 s2 s3 work errors gone errors' put)
    have "put = None" "errors' = []"
      using ran(16) by (auto simp: restore_result_def split: option.splits if_splits)
    then have "errors = []" using ran(11) by blast
    with ran(8) \<open>errors' = []\<close> have att: "attempt remove_guard guarded s2 = (Inr [], s3)"
      by simp
    have "remove_guard guarded s2 = (Inr (), s3)"
      by (rule attempt_run [OF emits_remove_guard, of guarded s2]) (use att in simp)
    moreover have "table_exists ''inet'' guarded s2 =
        (Inr True, s2\<lparr>trace := trace s2 @ [Command [''nft'', ''-j'', ''list'', ''tables''] [] (Inr ''g'')]\<rparr>)"
      by (simp add: table_exists_def json_command_def command_def parse_jsonP_def askP_def liftP_def
          bindP_def emit_def Let_def demo_envs demo_command_def parse_json_def demo_read_def
          guard_table_def jfield_def)
    ultimately have "Command delete_guard_argv [] (command_reply guarded
        (trace s2 @ [Command [''nft'', ''-j'', ''list'', ''tables''] [] (Inr ''g'')]) delete_guard_argv []) \<in> set gone"
      using ran(9) by (auto simp: remove_guard_def run_first whenP_def run_command_run)
    then show ?thesis
      using that [OF t, of "drop (length (trace (waiting_until 0))) (trace t)"] ran by fastforce
  qed auto
qed

theorem rollback_fail_closed_witness:
  "\<exists>t s1 s2. restore guarded (waiting_until 0) = (Inr (), t) \<and>
     restore_all plain_config guarded s1 = (Inr (), s2)"
proof -
  obtain t evs e where 1: "restore guarded (waiting_until 0) = (Inr (), t)"
    "trace t = trace (waiting_until 0) @ evs" "e \<in> set evs" "removes_guard e"
    using guarded_removal .
  show ?thesis
    using rollback_fail_closed [OF 1(1) _ 1(2-4)] 1(1) by (auto simp: waiting_config demo_config)
qed

theorem journal_follows_state_machine_witness:
  "\<exists>t. apply_config plain_config calm idle = (Inr (), t) \<and>
     status_path (JString ''inactive'') (journal_statuses (trace t)) (status t)"
proof -
  obtain t where t: "apply_config plain_config calm idle = (Inr (), t)" using calm_apply .
  have "status_path (status idle) (journal_statuses (trace t)) (status t)"
    by (rule journal_follows_state_machine
        [where m = "apply_config plain_config" and c = plain_config and E = calm and r = "Inr ()"])
      (use t in simp_all)
  then show ?thesis using t by simp
qed

end
