(* ===== verification/Witnesses.thy ===== *)
theory Witnesses
  imports Demonstration
begin

text \<open>
  Witnesses for the outcomes of the network controller's operations, at the environments of theory
  Demonstration.
\<close>

section \<open>Refusal and apply\<close>

theorem disabled_controller_inert_witness:
  "tick calm (new_controller False) = (Inr (), new_controller False) \<and>
   rollback calm (new_controller False) =
     (Inl (Runtime_error ''Network changes disabled''), new_controller False)"
  using disabled_controller_inert [of "new_controller False" plain_config calm]
  by (simp add: new_controller_def)

theorem apply_success_witness:
  "\<exists>t. apply_config plain_config calm idle = (Inr (), t) \<and>
     status t = JString ''awaiting_confirmation'' \<and> jfield (net_state t) ''config'' = config_json plain_config"
proof -
  obtain t where t: "apply_config plain_config calm idle = (Inr (), t)" using calm_apply .
  from apply_success [OF t] show ?thesis using t by simp
qed

text \<open>
  With a kernel that never acknowledges, the installation stops at the first Netlink message.\<close>

lemma deaf_install_fails: "install plain_config deaf_kernel s \<noteq> (Inr (), t)"
proof
  assume run: "install plain_config deaf_kernel s = (Inr (), t)"
  let ?steps = "install_links plain_config @ [run_command nft_apply (guard_script plain_config)] @
    install_forwarding plain_config @ [run_command nft_apply (delete_guard_script @ ruleset plain_config)]"
  have "\<forall>m \<in> set ?steps. emits plain m"
    unfolding install_links_def install_vlan_def install_forwarding_def
    by (auto intro: emits_rules emits_plain_command split: if_splits)
  moreover have "link_state ''outer0'' False [] \<in> set ?steps"
    by (simp add: install_links_def)
  ultimately obtain s1 s2 where l: "link_state ''outer0'' False [] deaf_kernel s1 = (Inr (), s2)"
    using run_steps_member [of ?steps deaf_kernel s t] run by (metis install_def)
  then obtain msg u where "nl_transact NETLINK_ROUTE msg False deaf_kernel u = (Inr (), s2)"
    by (auto simp: link_state_def netlink_def thenP_Inr bindP_Inr)
  then show False by (simp add: nl_transact_def deaf_kernel_def Let_def)
qed

lemma deaf_start:
  obtains s1 where "apply_config plain_config deaf_kernel idle =
      catchP (install_and_wait plain_config) undo deaf_kernel s1" "indexable (net_state s1)" "extends idle s1"
proof -
  obtain r t where run: "apply_config plain_config deaf_kernel idle = (r, t)" by fastforce
  obtain evs where evs: "trace t = trace idle @ evs" "honest deaf_kernel (trace idle) evs"
    using genuine_apply run by (rule genuineD)
  have good: "favourable (json_fun deaf_kernel) plain_config False evs"
    if "list_all (\<lambda>e. read_only e \<or> is_put e) evs"
    by (rule honest_favourable [OF _ evs(2) that, where I = "\<lambda>_ _. True"])
      (use deaf_answers in \<open>auto simp: demo_json\<close>)
  have valid: "validate (pton_fun deaf_kernel) plain_config = []" using plain_config_valid by simp
  obtain s1 pre where "catchP (install_and_wait plain_config) undo deaf_kernel s1 = (r, t)"
      "indexable (net_state s1)" "enabled s1"
      "trace s1 = trace idle @ pre @ [Store_put ''network'' (net_state s1) None]" "list_all read_only pre"
    using apply_begins [OF valid demo_states(1-3) run evs(1) good] .
  then show ?thesis using that [of s1] run by (simp add: extends_def)
qed

lemma deaf_apply:
  obtains t m evs e where "apply_config plain_config deaf_kernel idle = (Inl (Runtime_error m), t)"
    "trace t = trace idle @ evs" "e \<in> set evs" "mutates e"
proof -
  obtain s1 where s1: "apply_config plain_config deaf_kernel idle =
      catchP (install_and_wait plain_config) undo deaf_kernel s1" "indexable (net_state s1)" "extends idle s1"
    using deaf_start .
  obtain r t where run: "catchP (install_and_wait plain_config) undo deaf_kernel s1 = (r, t)"
    by (cases "catchP (install_and_wait plain_config) undo deaf_kernel s1")
  from run s1(2) show ?thesis
  proof (cases rule: started_cases)
    case (undone s2 evs m r')
    obtain ok where "logged s1 s2 (Write_file (ipv6_path ''outer0'') ''1'' ok)"
      using undone(6) install_first_write [of plain_config] by fastforce
    moreover have "extends s2 t"
      using restore_extends [OF undone(4) indexable_same [OF undone(3) s1(2)]] by (simp add: extends_def)
    ultimately have "logged idle t (Write_file (ipv6_path ''outer0'') ''1'' ok)"
      using s1(3) logged_extends by blast
    then show ?thesis
      using that [of m t "trace t"] s1(1) run undone(5) mutates_write by (auto simp: logged_def)
  qed (use deaf_install_fails in blast)+
qed

theorem apply_failure_rolls_back_witness:
  "\<exists>t s2 r. ran_rollback deaf_kernel plain_config s2 r t \<and>
     (\<exists>m. apply_config plain_config deaf_kernel idle = (Inl (Runtime_error m), t))"
proof -
  obtain t m evs e where 1: "apply_config plain_config deaf_kernel idle = (Inl (Runtime_error m), t)"
    "trace t = trace idle @ evs" "e \<in> set evs" "mutates e"
    using deaf_apply .
  from apply_failure_rolls_back [OF 1(1) _ 1(2-4)] show ?thesis using 1(1) by auto
qed

section \<open>Confirmation\<close>

lemma calm_confirm: "fst (confirm calm (waiting_until 10)) = Inr ()"
proof -
  have "tick calm (waiting_until 10) = (Inr (), clocked calm (peek (waiting_until 10)))"
    by (simp add: tick_eq) (simp add: calm_def)
  then show ?thesis
    by (simp add: confirm_split run_require_enabled run_first mark_confirmed_eq)
qed

theorem confirm_only_before_deadline_witness:
  "\<exists>t. confirm calm (waiting_until 10) = (Inr (), t) \<and> status t = JString ''confirmed''"
proof -
  obtain t where t: "confirm calm (waiting_until 10) = (Inr (), t)"
    using calm_confirm by (cases "confirm calm (waiting_until 10)") simp
  from confirm_only_before_deadline [OF t] show ?thesis using t by auto
qed

theorem tick_enforces_deadline_witness:
  "status (snd (tick calm (waiting_until 0))) \<noteq> JString ''awaiting_confirmation''"
proof -
  obtain r t where t: "tick calm (waiting_until 0) = (r, t)" by (cases "tick calm (waiting_until 0)")
  have "\<not> clock_reply calm (trace (waiting_until 0)) < deadline (waiting_until 0)"
    by (simp add: calm_def)
  then have "status t \<in> {JString ''rolling_back'', JString ''inactive'', JString ''rollback_failed''}"
    using tick_enforces_deadline [OF _ _ _ _ t, of plain_config] demo_config by (simp add: waiting_config)
  then show ?thesis using t by auto
qed

theorem tick_does_not_retry_witness:
  "status (snd (tick full_disk (waiting_until 0))) = JString ''rolling_back''"
proof -
  obtain r t where t: "tick full_disk (waiting_until 0) = (r, t)"
    by (cases "tick full_disk (waiting_until 0)")
  have "clock_reply full_disk evs = 0" "put_reply full_disk evs k v = Some ''disk full''" for evs k v
    by (simp_all add: full_disk_def calm_def)
  then show ?thesis
    using tick_does_not_retry [OF _ _ _ _ _ _ t, of plain_config "\<lambda>_ _. ''disk full''"] demo_config t
    by (simp add: waiting_config)
qed

section \<open>Recovery and rollback\<close>

lemma calm_replies:
  "get_reply calm evs k = Inr (Some ''j'')" "directory_reply calm evs d = None"
  "netns_reply calm evs = Some 7" "lock_reply calm evs d" "read_json (json_fun calm) = demo_read"
  by (simp_all add: calm_def)

lemma calm_store_get:
  "store_get ''network'' calm (new_controller True) =
    (Inr (demo_journal ''applying''),
     (new_controller True)\<lparr>trace := [Store_get ''network'' (Inr (Some ''j''))]\<rparr>)"
  by (simp add: store_get_def parse_jsonP_def askP_def liftP_def parse_json_def emit_def Let_def
      new_controller_def calm_replies demo_read_def)

lemma calm_lock:
  "\<exists>evs. acquire_lock calm s = (Inr (), s\<lparr>trace := trace s @ evs\<rparr>)"
  by (simp add: acquire_lock_def thenP_def bindP_def create_directories_def stat_netns_def lock_file_def
      emit_def Let_def throw_if_def returnP_def calm_replies) (rule exI, rule refl)

lemma run_lock:
  "enabled s \<Longrightarrow> thenP (getP (\<lambda>s. whenP (enabled s) acquire_lock)) n E s = thenP acquire_lock n E s"
  by (simp add: thenP_def bindP_def getP_def whenP_def)

lemma calm_start:
  obtains t where "start_controller calm (new_controller True) = (Inr (), t)"
    "\<exists>evs e post. trace t = evs @ e # post \<and> \<not> read_only e"
proof -
  let ?j = "demo_journal ''applying''"
  let ?s1 = "\<lparr>enabled = True, net_state = ?j, deadline = 0,
    trace = [Store_get ''network'' (Inr (Some ''j''))]\<rparr>"
  obtain evs where lock: "acquire_lock calm ?s1 = (Inr (), ?s1\<lparr>trace := trace ?s1 @ evs\<rparr>)"
    using calm_lock by blast
  let ?s2 = "?s1\<lparr>trace := trace ?s1 @ evs\<rparr>"
  let ?s3 = "?s2\<lparr>net_state := jtouch (net_state (peek ?s2)) ''config''\<rparr>"
  have j: "indexable ?j" "jfield ?j ''status'' = JString ''applying''" "?j \<noteq> JNull"
    by (simp_all add: demo_journal_def indexable_def jfield_def)
  have rec: "recoverable plain_config (net_state ?s3)"
    using demo_recoverable [of "''applying''"] by (simp add: recoverable_def peek_def)
  have idx: "indexable (net_state ?s3)" using j(1) by (simp add: peek_def)
  obtain t where t: "restore calm ?s3 = (Inr (), t)"
    using demo_restores [OF _ rec _ idx, of calm] by auto
  have "resume calm ?s2 = (Inr (), t)"
    using t j by (simp add: resume_eq recover_eq restart_def run_first whenP_def returnP_def)
  then have "start_controller calm (new_controller True) = (Inr (), t)"
    using lock calm_store_get
    by (simp add: start_controller_eq run_first run_load_state run_lock new_controller_def)
  moreover have "\<exists>evs e post. trace t = evs @ e # post \<and> \<not> read_only e"
    using t idx
  proof (cases rule: restore_cases)
    case (ran c s1 s2 s3 work errors gone errors' put)
    have "trace t = trace s3 @ Store_put ''network'' (net_state t) put # []" by (simp add: ran(12))
    then show ?thesis by (metis read_only.simps(4))
  qed auto
  ultimately show ?thesis using that by blast
qed

theorem start_recovers_witness:
  "\<exists>t. start_controller calm (new_controller True) = (Inr (), t) \<and> status t = JString ''inactive''"
proof -
  obtain t where t: "start_controller calm (new_controller True) = (Inr (), t)" using calm_start .
  from start_recovers [OF t] show ?thesis
    using t calm_store_get by (auto simp: demo_journal_def jfield_def)
qed

theorem start_locks_first_witness:
  "\<exists>t pre e post path. start_controller calm (new_controller True) = (Inr (), t) \<and>
     trace t = pre @ e # post \<and> \<not> read_only e \<and> Lock_file path True \<in> set pre"
proof -
  obtain t pre e post where t: "start_controller calm (new_controller True) = (Inr (), t)"
    "trace t = pre @ e # post" "\<not> read_only e"
    using calm_start by metis
  from start_locks_first [OF t] show ?thesis using t by blast
qed

theorem rollback_restores_settings_witness:
  "\<exists>t bytes pre evs post. restore guarded (waiting_until 0) = (Inr (), t) \<and>
     logged (waiting_until 0) t (Write_file ip_forward_path ''0'' True) \<and>
     trace t = pre @ evs @ post \<and> puts_back ''inner0'' bytes ''0'' ''2'' True evs"
proof -
  obtain t where t: "restore guarded (waiting_until 0) = (Inr (), t)" using guarded_restore .
  have "jfield (net_state (waiting_until 0)) ''ip_forward'' = JString ''0''"
      "jfield (net_state (waiting_until 0)) ''rp_filter_all'' = JString ''1''"
      "demo_info \<in> set (json_items (jfield (net_state (waiting_until 0)) ''baseline''))"
    by (simp_all add: waiting_until_def demo_journal_def jfield_def)
  from rollback_restores_settings [OF t _ this demo_fields(1,2) _ demo_fields(3-5)]
  show ?thesis using t by auto
qed

section \<open>Progress\<close>

text \<open>
  A host for a tagged configuration: \<open>mbx-outer\<close> is found once a journal entry has been written; and the
  state and the system in which a tagged configuration is rolled back, with its link in place.
\<close>

definition tagged_host :: env where
  "tagged_host = calm\<lparr>index_reply := (\<lambda>h n. if n = ''mbx-outer'' \<and> \<not> list_ex is_put h then 0 else 3)\<rparr>"

definition tagged_guarded :: env where
  "tagged_guarded = guarded\<lparr>index_reply := (\<lambda>_ _. 3)\<rparr>"

definition tagged_waiting :: ctl where
  "tagged_waiting = (waiting_until 0)\<lparr>net_state :=
     jset (net_state (waiting_until 0)) ''config'' (config_json sample_config)\<rparr>"

lemma sample_config_fields:
  "outer_interface sample_config = ''outer0''" "inner_interface sample_config = ''inner0''"
  "vlan_id sample_config = Some 100"
  by (simp_all add: sample_config_def)

lemma unhindered_sample: "unhindered L sample_config e = unhindered L plain_config e"
  by (cases "(L, plain_config, e)" rule: unhindered.cases) (simp_all add: plain_config_def)

lemma tagged_host_answers:
  assumes "answered tagged_host h e"
  shows "succeeded sample_config (list_ex is_put h) e" "unhindered (json_fun calm) sample_config e"
proof -
  show "succeeded sample_config (list_ex is_put h) e"
    using assms by (cases e; simp add: tagged_host_def calm_def first_token_1 found_as_def sample_config_fields)
  have "unhindered (json_fun calm) plain_config e"
    using assms calm_unhindered by (cases e; simp add: tagged_host_def calm_def)
  then show "unhindered (json_fun calm) sample_config e" by (simp add: unhindered_sample)
qed

theorem apply_completes_witness:
  "\<exists>t. vlan_id sample_config = Some 100 \<and> apply_config sample_config tagged_host idle = (Inr (), t) \<and>
     status t = JString ''awaiting_confirmation''"
proof -
  obtain r t where run: "apply_config sample_config tagged_host idle = (r, t)" by fastforce
  obtain evs where evs: "trace t = trace idle @ evs" "honest tagged_host (trace idle) evs"
    using genuine_apply run by (rule genuineD)
  have "favourable (json_fun calm) sample_config False evs"
    by (rule honest_favourable [OF _ evs(2), where I = "\<lambda>h b. b = list_ex is_put h" and P = "\<lambda>_. True"])
      (use tagged_host_answers in \<open>auto simp: list_all_iff sample_config_fields\<close>)
  then show ?thesis
    using apply_completes [OF _ _ _ _ run evs(1)] sample_config_valid run
    by (simp add: tagged_host_def sample_config_fields)
qed

lemma tagged_guarded_answers:
  "answered tagged_guarded h e \<Longrightarrow> obliging (json_fun calm) sample_config True e"
  using demo_legible
  by (cases e; simp add: tagged_guarded_def demo_envs first_token_1 found_as_def obliging_def)

lemma tagged_recoverable: "recoverable sample_config (net_state tagged_waiting)"
proof -
  have "restorable sample_config demo_info"
    unfolding restorable_def using demo_fields demo_mac by (metis insertCI sample_config_fields(2))
  moreover have "jfield (net_state (waiting_until 0)) ''ip_forward'' = JString ''0''"
      "jfield (net_state (waiting_until 0)) ''rp_filter_all'' = JString ''1''"
      "jfield (net_state (waiting_until 0)) ''baseline'' = JArray [demo_info]"
    by (simp_all add: waiting_until_def demo_journal_def jfield_def)
  ultimately show ?thesis by (simp add: recoverable_def tagged_waiting_def)
qed


end
