(* ===== verification/Pcap_Source.thy ===== *)
theory Pcap_Source
  imports Dissect Engine
begin

text \<open>
  The live capture source (\<open>PcapSource\<close> of \<open>src/capture.cpp\<close>): opening an interface, and \<open>next\<close>, which the
  capture thread of theory Engine calls. What libpcap answers is an argument of each operation. The lemmas
  compose it with the dissection and the engine: a captured frame is always delivered, with the length
  and time of its header, and is counted.
\<close>

section \<open>Opening\<close>

text \<open>
  The answers to \<open>pcap_create\<close>, the four settings, \<open>pcap_activate\<close>, \<open>pcap_datalink\<close> and \<open>pcap_setnonblock\<close>.
\<close>

record pcap_open =
  create_error :: "string option"
  options_accepted :: bool
  activate_error :: "string option"
  ethernet :: bool
  nonblock_error :: "string option"

record pcap_source =
  source_dropped :: "u64 option"
  last_stats :: int

definition open_source :: "pcap_open \<Rightarrow> pcap_source result" where
  "open_source P = (case create_error P of
     Some message \<Rightarrow> Inl (Runtime_error message)
   | None \<Rightarrow>
       if \<not> options_accepted P then Inl (Runtime_error ''Cannot configure capture'')
       else case activate_error P of
         Some message \<Rightarrow> Inl (Runtime_error message)
       | None \<Rightarrow>
           if \<not> ethernet P then Inl (Runtime_error ''Capture requires an Ethernet interface'')
           else case nonblock_error P of
             Some message \<Rightarrow> Inl (Runtime_error message)
           | None \<Rightarrow> Inr \<lparr>source_dropped = None, last_stats = 0\<rparr>)"

section \<open>Reading\<close>

text \<open>\<open>pcap_next_ex\<close>: a packet with its captured bytes, its length on the wire and its time stamp.\<close>

datatype pcap_answer = Got_packet "byte list" u32 int int | No_packet | Pcap_error string

definition packet_time :: "int \<Rightarrow> int \<Rightarrow> int" where
  "packet_time sec usec = sec * 1000000000 + usec * 1000"

text \<open>The statistics are read at most once a second; \<open>stats\<close> is \<open>ps_drop\<close> if \<open>pcap_stats\<close> succeeds.\<close>

definition update_stats :: "int \<Rightarrow> u32 option \<Rightarrow> pcap_source \<Rightarrow> pcap_source" where
  "update_stats now stats s =
     (if now - last_stats s \<ge> 1000000000
      then s\<lparr>source_dropped := (case stats of None \<Rightarrow> source_dropped s | Some n \<Rightarrow> Some (ucast n)),
             last_stats := now\<rparr>
      else s)"

text \<open>Reading outside the captured bytes would be undefined; theory Dissect shows it never happens.\<close>

definition source_next :: "ntop \<Rightarrow> ntop \<Rightarrow> bool \<Rightarrow> int \<Rightarrow> u32 option \<Rightarrow> pcap_answer \<Rightarrow> pcap_source \<Rightarrow>
    (next_result \<times> pcap_source) option" where
  "source_next ntop4 ntop6 stop now stats answer s =
     (if stop then Some (Next_idle, s)
      else let s = update_stats now stats s in
        case answer of
          Got_packet bytes len sec usec \<Rightarrow>
            map_option (\<lambda>p. (Next_packet p, s)) (dissect ntop4 ntop6 bytes len (packet_time sec usec))
        | Pcap_error message \<Rightarrow> Some (Next_throw (Runtime_error message), s)
        | No_packet \<Rightarrow> Some (Next_idle, s))"

section \<open>With the dissection and the engine\<close>

lemma source_next_total: "\<exists>r. source_next ntop4 ntop6 stop now stats answer s = Some r"
proof (cases answer)
  case (Got_packet bytes len sec usec)
  obtain p where "dissect ntop4 ntop6 bytes len (packet_time sec usec) = Some p"
    using dissect_some by blast
  then show ?thesis using Got_packet by (simp add: source_next_def Let_def)
qed (simp_all add: source_next_def Let_def)

text \<open>One round of the capture thread on a captured frame: one packet and its length on the wire more.\<close>

lemma captured_frame_counted:
  assumes "source_next ntop4 ntop6 False now stats (Got_packet bytes len sec usec) s = Some (r, s')"
  shows "packets (counters (run_round r (source_dropped s') e)) = packets (counters e) + 1 \<and>
    wire_total (counters (run_round r (source_dropped s') e)) = wire_total (counters e) + ucast len \<and>
    kernel_dropped (counters (run_round r (source_dropped s') e)) = source_dropped s'"
proof -
  obtain p where p: "dissect ntop4 ntop6 bytes len (packet_time sec usec) = Some p" "r = Next_packet p"
    using assms by (auto simp: source_next_def Let_def)
  have "wire_bytes p = len" using dissect_keeps [OF p(1)] by simp
  then show ?thesis
    by (simp add: p(2) run_round_def enqueue_def count_packet_def set_kernel_dropped_def)
qed

end
