(* ===== verification/Process.thy ===== *)
theory Process
  imports Prelude
begin

text \<open>
  Running a command without a shell (\<open>command\<close> in \<open>src/process.cpp\<close>): the read loop with its ten second
  deadline and output limit, the kill, and the loop that reaps the child. What the system answers in each
  round, and the clock, come from sequences, so a round is one index. A loop that need not end is a
  \<open>partial_function (option)\<close>: \<open>None\<close> is a call that never returns.
\<close>

section \<open>What the system answers\<close>

text \<open>One round of the read loop; \<open>read\<close> returns at most the 4096 bytes of the buffer.\<close>

datatype read_result = Read_bytes string | Read_eof | Read_eintr | Read_failed

datatype poll_result = Poll_ready read_result | Poll_timeout | Poll_eintr | Poll_failed

datatype exit_status = Exited_with nat | Signalled

datatype wait_result = Reaped exit_status | Still_running | Wait_eintr | Wait_failed

record child =
  input_opened :: bool
  input_written :: bool
  pipe_made :: bool
  spawn_error :: "string option"
  spawned_at :: int
  read_clock :: "nat \<Rightarrow> int"
  poll_answer :: "nat \<Rightarrow> poll_result"
  wait_answer :: "nat \<Rightarrow> wait_result"
  wait_clock :: "nat \<Rightarrow> int"

section \<open>The two loops\<close>

definition output_limit :: nat where
  "output_limit = 262144"

definition command_timeout :: int where
  "command_timeout = 10 * 1000000000"

definition buffer_size :: nat where
  "buffer_size = 4096"

text \<open>Whether the run failed, with the output.\<close>

partial_function (option) read_loop :: "child \<Rightarrow> int \<Rightarrow> nat \<Rightarrow> string \<Rightarrow> (bool \<times> string) option" where
  "read_loop P deadline n output =
     (if deadline \<le> read_clock P n \<or> length output > output_limit then Some (True, output)
      else case poll_answer P n of
        Poll_eintr \<Rightarrow> read_loop P deadline (n + 1) output
      | Poll_failed \<Rightarrow> Some (True, output)
      | Poll_timeout \<Rightarrow> read_loop P deadline (n + 1) output
      | Poll_ready r \<Rightarrow> (case r of
          Read_eof \<Rightarrow> Some (False, output)
        | Read_eintr \<Rightarrow> read_loop P deadline (n + 1) output
        | Read_failed \<Rightarrow> Some (True, output)
        | Read_bytes b \<Rightarrow> read_loop P deadline (n + 1) (output @ take buffer_size b)))"

text \<open>Whether the run failed, with the exit status; \<open>SIGKILL\<close> is sent in every round after the deadline.\<close>

partial_function (option) reap_loop :: "child \<Rightarrow> int \<Rightarrow> nat \<Rightarrow> bool \<Rightarrow> (bool \<times> exit_status) result option" where
  "reap_loop P deadline n failed =
     (case wait_answer P n of
        Reaped status \<Rightarrow> Some (Inr (failed, status))
      | Wait_failed \<Rightarrow> Some (Inl (Runtime_error ''Cannot reap command process''))
      | _ \<Rightarrow> reap_loop P deadline (n + 1) (failed \<or> deadline \<le> wait_clock P n))"

definition finish_command :: "string list \<Rightarrow> bool \<times> exit_status \<Rightarrow> string \<Rightarrow> string result" where
  "finish_command args outcome output =
     (case outcome of (failed, status) \<Rightarrow>
        if failed \<or> status \<noteq> Exited_with 0
        then Inl (Runtime_error (hd args @ '' failed: '' @ (if failed then ''timeout or output limit'' else output)))
        else Inr output)"

definition run_child :: "child \<Rightarrow> string list \<Rightarrow> string result option" where
  "run_child P args =
     (let deadline = spawned_at P + command_timeout in
      Option.bind (read_loop P deadline 0 []) (\<lambda>(failed, output).
      Option.bind (reap_loop P deadline 0 failed) (\<lambda>outcome.
        Some (ebind outcome (\<lambda>outcome. finish_command args outcome output)))))"

definition command_run :: "child \<Rightarrow> string list \<Rightarrow> string result option" where
  "command_run P args =
     (if args = [] then Some (Inl (Invalid_argument ''Empty command''))
      else if \<not> input_opened P then Some (Inl (Runtime_error ''Cannot create command input''))
      else if \<not> input_written P then Some (Inl (Runtime_error ''Cannot write command input''))
      else if \<not> pipe_made P then Some (Inl (Runtime_error ''Cannot create command pipe''))
      else case spawn_error P of
        Some message \<Rightarrow> Some (Inl (Runtime_error (hd args @ '': '' @ message)))
      | None \<Rightarrow> run_child P args)"

section \<open>The read loop\<close>

text \<open>What the rounds before the n-th have read.\<close>

fun chunk :: "poll_result \<Rightarrow> string" where
  "chunk (Poll_ready (Read_bytes b)) = take buffer_size b"
| "chunk _ = []"

definition output_before :: "child \<Rightarrow> nat \<Rightarrow> string" where
  "output_before P n = concat (map (\<lambda>i. chunk (poll_answer P i)) [0..<n])"

lemma output_before_Suc [simp]: "output_before P (Suc n) = output_before P n @ chunk (poll_answer P n)"
  by (simp add: output_before_def)

lemma output_before_0 [simp]: "output_before P 0 = []"
  by (simp add: output_before_def)

text \<open>A round goes on, or it ends the loop.\<close>

definition goes_on :: "child \<Rightarrow> int \<Rightarrow> nat \<Rightarrow> bool" where
  "goes_on P deadline n \<longleftrightarrow> read_clock P n < deadline \<and> length (output_before P n) \<le> output_limit \<and>
     poll_answer P n \<notin> {Poll_failed, Poll_ready Read_eof, Poll_ready Read_failed}"

definition ends_well :: "child \<Rightarrow> int \<Rightarrow> nat \<Rightarrow> bool" where
  "ends_well P deadline n \<longleftrightarrow> read_clock P n < deadline \<and> length (output_before P n) \<le> output_limit \<and>
     poll_answer P n = Poll_ready Read_eof"

lemma read_loop_round:
  "read_loop P deadline n (output_before P n) =
     (if goes_on P deadline n then read_loop P deadline (Suc n) (output_before P (Suc n))
      else Some (\<not> ends_well P deadline n, output_before P n))"
  by (subst read_loop.simps)
    (auto simp: goes_on_def ends_well_def not_le not_less split: poll_result.splits read_result.splits)

lemma read_loop_runs:
  assumes "\<forall>i < n. goes_on P deadline i"
  shows "read_loop P deadline 0 [] = read_loop P deadline n (output_before P n)"
  using assms
proof (induction n)
  case (Suc n)
  then show ?case using read_loop_round [of P deadline n] by simp
qed simp

lemma read_loop_ends:
  assumes "\<not> goes_on P deadline m"
  shows "\<exists>n \<le> m. \<not> goes_on P deadline n \<and>
    read_loop P deadline 0 [] = Some (\<not> ends_well P deadline n, output_before P n)"
proof -
  obtain n where n: "n \<le> m" "\<not> goes_on P deadline n" "\<forall>i < n. goes_on P deadline i"
    using assms ex_least_nat_le [of "\<lambda>n. \<not> goes_on P deadline n" m] by blast
  have "read_loop P deadline 0 [] = Some (\<not> ends_well P deadline n, output_before P n)"
    unfolding read_loop_runs [OF n(3)] read_loop_round [of P deadline n] using n(2) by simp
  with n show ?thesis by blast
qed

lemma read_loop_result:
  assumes "read_loop P deadline n output = Some r"
  shows "output = output_before P n \<Longrightarrow>
    \<exists>m. \<not> goes_on P deadline m \<and> r = (\<not> ends_well P deadline m, output_before P m)"
proof -
  let ?Q = "\<lambda>(((P, deadline), n), output) r. output = output_before P n \<longrightarrow>
    (\<exists>m. \<not> goes_on P deadline m \<and> r = (\<not> ends_well P deadline m, output_before P m))"
  have "?Q (((P, deadline), n), output) r"
  proof (rule read_loop.raw_induct [OF _ assms], goal_cases)
    case (1 loop P deadline n out r)
    have later: "?Q (((P, deadline), n + 1), out) r" if "loop P deadline (n + 1) out = Some r" for out
      using 1(1) [OF that] by simp
    have now: "\<not> goes_on P deadline n \<Longrightarrow> r = (\<not> ends_well P deadline n, output_before P n) \<Longrightarrow> ?case"
      by auto
    show ?case
      using 1(2) later now
      by (cases "poll_answer P n" rule: chunk.cases)
        (auto simp: goes_on_def ends_well_def not_le not_less split: if_splits read_result.splits)
  qed
  then show "output = output_before P n \<Longrightarrow>
    \<exists>m. \<not> goes_on P deadline m \<and> r = (\<not> ends_well P deadline m, output_before P m)" by simp
qed

section \<open>The reap loop\<close>

definition reap_stops :: "wait_result \<Rightarrow> bool" where
  "reap_stops w \<longleftrightarrow> w = Wait_failed \<or> (\<exists>status. w = Reaped status)"

lemma reap_loop_ends:
  assumes "reap_stops (wait_answer P (n + k))"
  shows "\<exists>r. reap_loop P deadline n failed = Some r"
  using assms
proof (induction k arbitrary: n failed)
  case 0
  then show ?case
    by (subst reap_loop.simps) (auto simp: reap_stops_def split: wait_result.splits)
next
  case (Suc k)
  then have "\<exists>r. reap_loop P deadline (n + 1) f = Some r" for f by simp
  then show ?case
    by (subst reap_loop.simps) (auto split: wait_result.splits)
qed

lemma reap_loop_result:
  assumes "reap_loop P deadline n failed = Some r"
  shows "r = Inr (False, status) \<Longrightarrow> \<not> failed \<and> (\<exists>m. wait_answer P m = Reaped status)"
proof -
  let ?Q = "\<lambda>(((P, deadline), n), failed) r.
    r = Inr (False, status) \<longrightarrow> \<not> failed \<and> (\<exists>m. wait_answer P m = Reaped status)"
  have "?Q (((P, deadline), n), failed) r"
  proof (rule reap_loop.raw_induct [OF _ assms], goal_cases)
    case (1 loop P deadline n failed r)
    have later: "?Q (((P, deadline), n + 1), f) r" if "loop P deadline (n + 1) f = Some r" for f
      using 1(1) [OF that] by simp
    show ?case
      using 1(2) later by (cases "wait_answer P n") auto
  qed
  then show "r = Inr (False, status) \<Longrightarrow> \<not> failed \<and> (\<exists>m. wait_answer P m = Reaped status)" by simp
qed

section \<open>The command\<close>

lemma command_success:
  assumes "command_run P args = Some (Inr out)"
  obtains n m where "args \<noteq> []" "spawn_error P = None" "out = output_before P n"
    "ends_well P (spawned_at P + command_timeout) n" "wait_answer P m = Reaped (Exited_with 0)"
proof -
  let ?d = "spawned_at P + command_timeout"
  have run: "run_child P args = Some (Inr out)" "args \<noteq> []" "spawn_error P = None"
    using assms by (auto simp: command_run_def split: if_splits option.splits)
  obtain failed out1 where loop: "read_loop P ?d 0 [] = Some (failed, out1)"
    and rest: "Option.bind (reap_loop P ?d 0 failed)
      (\<lambda>outcome. Some (ebind outcome (\<lambda>outcome. finish_command args outcome out1))) = Some (Inr out)"
    using run(1) by (auto simp: run_child_def Let_def split: Option.bind_splits)
  obtain reaped where reap: "reap_loop P ?d 0 failed = Some reaped"
    "ebind reaped (\<lambda>outcome. finish_command args outcome out1) = Inr out"
    using rest by (auto split: Option.bind_splits)
  then have ok: "reaped = Inr (False, Exited_with 0)" "out = out1"
    by (auto simp: exn_simps finish_command_def split: if_splits)
  have "\<not> failed \<and> (\<exists>m. wait_answer P m = Reaped (Exited_with 0))"
    by (rule reap_loop_result [OF reap(1) ok(1)])
  moreover obtain n where "(failed, out1) = (\<not> ends_well P ?d n, output_before P n)"
    using read_loop_result [OF loop] by auto
  ultimately show ?thesis using that run(2,3) ok(2) by auto
qed


text \<open>
  C34. A command returns: if the clock reaches the deadline in some round and the child is reaped, which the
  kill at the deadline is for, the call returns a result or an exception, and no round after the first
  one past the deadline reads anything.
\<close>

theorem command_returns:
  assumes "spawned_at P + 10 * 1000000000 \<le> read_clock P n"
    and "\<exists>m. wait_answer P m = Wait_failed \<or> (\<exists>status. wait_answer P m = Reaped status)"
  shows "(\<exists>r. command_run P args = Some r) \<and>
    (\<exists>k \<le> n. read_loop P (spawned_at P + 10 * 1000000000) 0 [] =
       Some (\<not> ends_well P (spawned_at P + 10 * 1000000000) k, output_before P k))"
proof -
  let ?d = "spawned_at P + command_timeout"
  have "\<not> goes_on P ?d n" using assms(1) by (simp add: goes_on_def command_timeout_def)
  then obtain k where k: "k \<le> n" "read_loop P ?d 0 [] = Some (\<not> ends_well P ?d k, output_before P k)"
    using read_loop_ends by blast
  obtain m where "reap_stops (wait_answer P m)" using assms(2) by (auto simp: reap_stops_def)
  then obtain r where "reap_loop P ?d 0 (\<not> ends_well P ?d k) = Some r"
    using reap_loop_ends [of P 0 m] by auto
  then have "\<exists>r. run_child P args = Some r"
    using k(2) by (simp add: run_child_def Let_def)
  then have "\<exists>r. command_run P args = Some r"
    by (auto simp: command_run_def split: option.splits)
  then show ?thesis using k by (auto simp: command_timeout_def)
qed

text \<open>A child that writes one line and exits, and one that never closes its output and is killed.\<close>

definition prompt_child :: child where
  "prompt_child = \<lparr>input_opened = True, input_written = True, pipe_made = True, spawn_error = None,
     spawned_at = 0, read_clock = (\<lambda>n. int n),
     poll_answer = (\<lambda>n. if n = 0 then Poll_ready (Read_bytes ''ok'') else Poll_ready Read_eof),
     wait_answer = (\<lambda>_. Reaped (Exited_with 0)), wait_clock = (\<lambda>n. int n)\<rparr>"

definition silent_child :: child where
  "silent_child = prompt_child\<lparr>read_clock := (\<lambda>n. int n * 100000000), poll_answer := (\<lambda>_. Poll_timeout)\<rparr>"

lemma prompt_run: "command_run prompt_child [''true''] = Some (Inr ''ok'')"
proof -
  have "read_loop prompt_child command_timeout 1 ''ok'' = Some (False, ''ok'')"
    by (subst read_loop.simps) (simp add: prompt_child_def command_timeout_def output_limit_def)
  then have "read_loop prompt_child command_timeout 0 [] = Some (False, ''ok'')"
    by (subst read_loop.simps)
      (simp add: prompt_child_def command_timeout_def output_limit_def buffer_size_def)
  moreover have "reap_loop prompt_child command_timeout 0 False = Some (Inr (False, Exited_with 0))"
    by (subst reap_loop.simps) (simp add: prompt_child_def)
  moreover have "spawned_at prompt_child = 0" by (simp add: prompt_child_def)
  ultimately have "run_child prompt_child [''true''] = Some (Inr ''ok'')"
    by (simp add: run_child_def Let_def finish_command_def)
  then show ?thesis by (simp add: command_run_def) (simp add: prompt_child_def)
qed


theorem command_returns_witness:
  "\<exists>r. command_run silent_child [''sleep''] = Some r"
  using command_returns [of silent_child 100 "[''sleep'']"]
  by (simp add: silent_child_def prompt_child_def)

end
