(* ===== verification/String_Map.thy ===== *)
theory String_Map
  imports Json_Value "HOL-Library.Multiset"
begin

text \<open>
  The interface of a \<open>std::map\<close> with string keys, and the capped insertion the server builds on it: a
  new key is admitted only while the map is below its cap, an admitted key is updated in place.
  The client lemmas are proved in the interface and reached through its interpretations on the
  key-ordered association lists of Json_Value. The last section says what the standard promises of
  \<open>std::sort\<close>.
\<close>

section \<open>What a capped map records\<close>

text \<open>
  A stream of items is filed under keys. \<open>hist\<close> is the part of the stream under one key, \<open>missed\<close> the
  part whose key a map does not hold. A map tracks the stream when every value it holds is right for
  the whole history of its key, and a key it does not hold has no history unless the map was full.
\<close>

definition hist :: "('x \<Rightarrow> string) \<Rightarrow> string \<Rightarrow> 'x list \<Rightarrow> 'x list" where
  "hist key k xs = filter (\<lambda>x. key x = k) xs"

definition missed :: "('x \<Rightarrow> string) \<Rightarrow> (string \<Rightarrow> 'v option) \<Rightarrow> 'x list \<Rightarrow> 'x list" where
  "missed key f xs = filter (\<lambda>x. f (key x) = None) xs"

definition tracks :: "('x \<Rightarrow> string) \<Rightarrow> (string \<Rightarrow> 'x list \<Rightarrow> 'v \<Rightarrow> bool) \<Rightarrow> bool \<Rightarrow> (string \<Rightarrow> 'v option) \<Rightarrow>
    'x list \<Rightarrow> bool" where
  "tracks key right full f xs \<longleftrightarrow>
     (\<forall>k. case f k of Some v \<Rightarrow> right k (hist key k xs) v | None \<Rightarrow> hist key k xs = [] \<or> full)"

lemma hist_simps [simp]:
  "hist key k [] = []"
  "hist key k (xs @ [x]) = (if key x = k then hist key k xs @ [x] else hist key k xs)"
  by (simp_all add: hist_def)

lemma missed_simps [simp]:
  "missed key f [] = []"
  "missed key f (xs @ [x]) = (if f (key x) = None then missed key f xs @ [x] else missed key f xs)"
  by (simp_all add: missed_def)

lemma tracks_empty [simp]: "tracks key right full (\<lambda>_. None) []"
  by (simp add: tracks_def)

lemma tracksD:
  assumes "tracks key right full f xs"
  shows "f k = Some v \<Longrightarrow> right k (hist key k xs) v"
    and "f k = None \<Longrightarrow> \<not> full \<Longrightarrow> hist key k xs = []"
  using assms by (auto simp: tracks_def dest: spec [of _ k])

lemma missed_put:
  assumes "f k = None \<Longrightarrow> hist key k xs = []"
  shows "missed key (f(k \<mapsto> v)) xs = missed key f xs"
proof (cases "f k")
  case None
  then have "\<forall>x \<in> set xs. key x \<noteq> k"
    using assms by (simp add: hist_def filter_empty_conv)
  then show ?thesis by (auto simp: missed_def intro: filter_cong)
next
  case (Some w)
  then show ?thesis by (auto simp: missed_def intro: filter_cong)
qed

text \<open>Filing one more item, when its key is or can be admitted.\<close>

lemma tracks_put:
  assumes "tracks key right full f xs" "full \<longrightarrow> full'" "f (key x) \<noteq> None \<or> \<not> full"
    and "right (key x) (hist key (key x) xs @ [x]) v"
  shows "tracks key right full' (f(key x \<mapsto> v)) (xs @ [x])"
    and "missed key (f(key x \<mapsto> v)) (xs @ [x]) = missed key f xs"
proof -
  have "f (key x) = None \<Longrightarrow> hist key (key x) xs = []"
    using assms(1,3) tracksD(2) by blast
  then show "missed key (f(key x \<mapsto> v)) (xs @ [x]) = missed key f xs"
    by (simp add: missed_put)
  show "tracks key right full' (f(key x \<mapsto> v)) (xs @ [x])"
    unfolding tracks_def
  proof
    fix k
    show "case (f(key x \<mapsto> v)) k of None \<Rightarrow> hist key k (xs @ [x]) = [] \<or> full'
        | Some v \<Rightarrow> right k (hist key k (xs @ [x])) v"
      using assms spec [OF assms(1) [unfolded tracks_def], of k]
      by (cases "f k") auto
  qed
qed

lemma tracks_skip:
  assumes "tracks key right full f xs" "f (key x) = None" full
  shows "tracks key right full f (xs @ [x])" "missed key f (xs @ [x]) = missed key f xs @ [x]"
  using assms by (auto simp: tracks_def split: option.splits)

section \<open>Interfaces\<close>

locale string_map =
  fixes lookup :: "'m \<Rightarrow> string \<Rightarrow> 'v option"
    and put :: "string \<Rightarrow> 'v \<Rightarrow> 'm \<Rightarrow> 'm"
    and count :: "'m \<Rightarrow> nat"
    and inv :: "'m \<Rightarrow> bool"
  assumes lookup_put: "lookup (put k v m) = (lookup m)(k \<mapsto> v)"
    and count_put: "inv m \<Longrightarrow> count (put k v m) = (if lookup m k = None then Suc (count m) else count m)"
    and inv_put: "inv m \<Longrightarrow> inv (put k v m)"
begin

lemma tracks_uncapped:
  "tracks key right False (lookup m) xs \<Longrightarrow> right (key x) (hist key (key x) xs @ [x]) v \<Longrightarrow>
   tracks key right False (lookup (put (key x) v m)) (xs @ [x])"
  unfolding lookup_put by (rule tracks_put(1) [of key right False]) simp_all

end

text \<open>A map that admits a new key only below its cap.\<close>

locale capped_map = string_map lookup put count inv
  for lookup :: "'m \<Rightarrow> string \<Rightarrow> 'v option" and put count inv +
  fixes cap :: nat
  assumes cap_pos: "0 < cap"
begin

lemma capped_put:
  "inv m \<Longrightarrow> count m \<le> cap \<Longrightarrow> lookup m k \<noteq> None \<or> count m < cap \<Longrightarrow> count (put k v m) \<le> cap"
  by (auto simp: count_put)

text \<open>An admitted item: the map goes on tracking the stream and misses nothing new.\<close>

lemma capped_admit:
  assumes "inv m" "tracks key right (cap \<le> count m) (lookup m) xs"
    and "lookup m (key x) \<noteq> None \<or> count m < cap"
    and "right (key x) (hist key (key x) xs @ [x]) v"
  shows "tracks key right (cap \<le> count (put (key x) v m)) (lookup (put (key x) v m)) (xs @ [x])"
    and "missed key (lookup (put (key x) v m)) (xs @ [x]) = missed key (lookup m) xs"
  unfolding lookup_put
  by (rule tracks_put [OF assms(2)]; use assms in \<open>auto simp: count_put\<close>)+

text \<open>A refused item is missed, and nothing else changes.\<close>

lemma capped_refuse:
  assumes "tracks key right (cap \<le> count m) (lookup m) xs"
    and "\<not> (lookup m (key x) \<noteq> None \<or> count m < cap)"
  shows "tracks key right (cap \<le> count m) (lookup m) (xs @ [x])"
    and "missed key (lookup m) (xs @ [x]) = missed key (lookup m) xs @ [x]"
  by (rule tracks_skip; use assms in \<open>simp\<close>)+

text \<open>What is known of the value to be updated.\<close>

lemma capped_old:
  assumes "tracks key right (cap \<le> count m) (lookup m) xs" "lookup m k \<noteq> None \<or> count m < cap"
  obtains "lookup m k = None" "hist key k xs = []"
    | v where "lookup m k = Some v" "right k (hist key k xs) v"
  using assms tracksD [OF assms(1), of k] by (cases "lookup m k") auto

end

section \<open>Ordered association lists\<close>

lemma keys_ordered_Cons:
  "keys_ordered ((a, b) # ps) \<longleftrightarrow> (\<forall>y \<in> fst ` set ps. key_less a y) \<and> keys_ordered ps"
  by (simp add: keys_ordered_def)

lemma keys_ordered_Nil [simp]: "keys_ordered []"
  by (simp add: keys_ordered_def)

lemma ordered_absent: "keys_ordered ((a, b) # ps) \<Longrightarrow> key_less k a \<Longrightarrow> map_of ((a, b) # ps) k = None"
  by (auto simp: keys_ordered_Cons map_of_eq_None_iff dest: key_less_trans)

lemma length_upd_member:
  "keys_ordered ps \<Longrightarrow>
   length (upd_member k v ps) = (if map_of ps k = None then Suc (length ps) else length ps)"
proof (induction k v ps rule: upd_member.induct)
  case (2 k x a b ps)
  then show ?case
    using ordered_absent [OF "2.prems", of k] by (auto simp: keys_ordered_Cons)
qed simp

lemma keys_ordered_distinct: "keys_ordered ps \<Longrightarrow> distinct (map fst ps)"
proof (induction ps)
  case (Cons p ps)
  then show ?case by (cases p) (auto simp: keys_ordered_Cons)
qed simp

interpretation omap: string_map map_of upd_member length keys_ordered
  by unfold_locales (simp_all add: length_upd_member keys_ordered_upd_member)

section \<open>Sorting\<close>

text \<open>What the standard promises: a permutation in the order of the comparison; equal elements in any order.\<close>

definition std_sort :: "('a \<Rightarrow> 'a \<Rightarrow> bool) \<Rightarrow> ('a list \<Rightarrow> 'a list) \<Rightarrow> bool" where
  "std_sort before srt \<longleftrightarrow> (\<forall>xs. mset (srt xs) = mset xs \<and> sorted_wrt (\<lambda>a b. \<not> before b a) (srt xs))"

lemma std_sort_set: "std_sort before srt \<Longrightarrow> set (srt xs) = set xs"
  unfolding std_sort_def by (metis set_mset_mset)

lemma std_sort_length: "std_sort before srt \<Longrightarrow> length (srt xs) = length xs"
  unfolding std_sort_def by (metis size_mset)

text \<open>A stable sort by a key that falls where the comparison says before is one of them.\<close>

lemma std_sort_by_key:
  fixes key :: "'a \<Rightarrow> int"
  assumes "\<And>a b. before a b \<longleftrightarrow> key a < key b"
  shows "std_sort before (sort_key key)"
  unfolding std_sort_def
proof (intro allI conjI)
  fix xs
  show "mset (sort_key key xs) = mset xs" by simp
  have "sorted (map key (sort_key key xs))" by (rule sorted_sort_key)
  then show "sorted_wrt (\<lambda>a b. \<not> before b a) (sort_key key xs)"
    by (simp add: assms sorted_map not_less)
qed

end
