(* ===== verification/Sampling.thy ===== *)
theory Sampling
  imports String_Map Json_Config
begin

text \<open>
  The aggregation of captured packets, the loop of \<open>ApplianceRuntime::sample\<close> in \<open>src/server.cpp\<close>:
  protocol counts, bytes per source address, connection summaries and the list of recent packets, each
  bounded. The lemmas show the bounds, that every recorded entry is exact for its key, and that the
  packets whose key is not recorded are counted as omitted. Counters are \<open>u64\<close>; the numbers inside a connection summary are signed
  64-bit integers in the code and unbounded here, checked where the code reads them back.
\<close>

section \<open>State and operations\<close>

record aggregates =
  protocols :: "(string \<times> u64) list"
  talkers :: "(string \<times> u64) list"
  flows :: "(string \<times> json) list"
  talkers_omitted :: u64
  flows_omitted :: u64
  recent :: "json list"

definition no_aggregates :: aggregates where
  "no_aggregates = \<lparr>protocols = [], talkers = [], flows = [], talkers_omitted = 0, flows_omitted = 0,
     recent = []\<rparr>"

definition max_flows :: nat where "max_flows = 4096"
definition max_talkers :: nat where "max_talkers = 1024"
definition max_recent :: nat where "max_recent = 200"

text \<open>\<open>map[k]\<close> on a map of counters: zero when the key is new.\<close>

definition counter :: "(string \<times> u64) list \<Rightarrow> string \<Rightarrow> u64" where
  "counter m k = (case map_of m k of None \<Rightarrow> 0 | Some n \<Rightarrow> n)"

definition bump :: "string \<Rightarrow> u64 \<Rightarrow> (string \<times> u64) list \<Rightarrow> (string \<times> u64) list" where
  "bump k n m = upd_member k (counter m k + n) m"

definition flow_key :: "json_lib \<Rightarrow> string \<Rightarrow> PacketMetadata \<Rightarrow> json \<Rightarrow> string result" where
  "flow_key L iface p j =
     ebind (as_string L (jfield j ''protocol'')) (\<lambda>proto.
     ebind (as_string L (jfield j ''source_port'')) (\<lambda>sport.
     ebind (as_string L (jfield j ''destination_port'')) (\<lambda>dport.
       Inr (iface @ ''|'' @ source_ip p @ ''|'' @ destination_ip p @ ''|'' @ proto @ ''|'' @ sport @
         ''|'' @ dport))))"

definition flow_entry :: "string \<Rightarrow> string \<Rightarrow> PacketMetadata \<Rightarrow> json \<Rightarrow> json \<Rightarrow> json result" where
  "flow_entry iface key p j old =
     ebind (ebind (json_get old ''packets'' (JInt 0)) to_int64) (\<lambda>count.
     ebind (ebind (json_get old ''bytes'' (JInt 0)) to_int64) (\<lambda>bytes.
     ebind (ebind (json_get old ''first_seen'' (jfield j ''timestamp_ms'')) to_int64) (\<lambda>first.
       let flow = jset j ''key'' (JString key);
           flow = jset flow ''capture_interface'' (JString iface);
           flow = jset flow ''first_seen'' (JInt first);
           flow = jset flow ''packets'' (JInt (count + 1))
       in Inr (jset flow ''bytes'' (JInt (bytes + uint (wire_bytes p)))))))"

definition count_flow :: "json_lib \<Rightarrow> string \<Rightarrow> PacketMetadata \<Rightarrow> json \<Rightarrow> aggregates \<Rightarrow> aggregates result" where
  "count_flow L iface p j a =
     ebind (flow_key L iface p j) (\<lambda>key.
       if map_of (flows a) key \<noteq> None \<or> length (flows a) < max_flows
       then ebind (flow_entry iface key p j (case map_of (flows a) key of None \<Rightarrow> JNull | Some f \<Rightarrow> f))
              (\<lambda>flow. Inr (a\<lparr>flows := upd_member key flow (flows a)\<rparr>))
       else Inr (a\<lparr>flows_omitted := flows_omitted a + 1\<rparr>))"

definition count_talker :: "PacketMetadata \<Rightarrow> aggregates \<Rightarrow> aggregates" where
  "count_talker p a =
     (if map_of (talkers a) (source_ip p) \<noteq> None \<or> length (talkers a) < max_talkers
      then a\<lparr>talkers := bump (source_ip p) (ucast (wire_bytes p)) (talkers a)\<rparr>
      else a\<lparr>talkers_omitted := talkers_omitted a + 1\<rparr>)"

definition add_packet :: "json_lib \<Rightarrow> string \<Rightarrow> PacketMetadata \<Rightarrow> aggregates \<Rightarrow> aggregates result" where
  "add_packet L iface p a =
     (let j = packet_json p
      in ebind (if source_ip p \<noteq> [] then count_flow L iface p j a else Inr a) (\<lambda>a.
         ebind (as_string L (jfield j ''protocol'')) (\<lambda>name.
           let a = a\<lparr>protocols := bump name 1 (protocols a)\<rparr>;
               a = (if source_ip p \<noteq> [] then count_talker p a else a)
           in Inr (a\<lparr>recent := recent a @ [j]\<rparr>))))"

fun add_packets :: "json_lib \<Rightarrow> string \<Rightarrow> PacketMetadata list \<Rightarrow> aggregates \<Rightarrow> aggregates result" where
  "add_packets L iface [] a = Inr a"
| "add_packets L iface (p # ps) a = ebind (add_packet L iface p a) (add_packets L iface ps)"

definition trim_recent :: "aggregates \<Rightarrow> aggregates" where
  "trim_recent a =
     (if max_recent < length (recent a)
      then a\<lparr>recent := drop (length (recent a) - max_recent) (recent a)\<rparr> else a)"

text \<open>Several batches between two publications; each call trims the recent packets.\<close>

fun sample_batches :: "json_lib \<Rightarrow> string \<Rightarrow> PacketMetadata list list \<Rightarrow> aggregates \<Rightarrow> aggregates result" where
  "sample_batches L iface [] a = Inr a"
| "sample_batches L iface (ps # pss) a =
     ebind (add_packets L iface ps a) (\<lambda>a. sample_batches L iface pss (trim_recent a))"

section \<open>The JSON form of a packet\<close>

lemma packet_json_fields [simp]:
  "jfield (packet_json p) ''timestamp_ms'' = JInt (millis (timestamp p))"
  "jfield (packet_json p) ''source_port'' = port_json (source_port p)"
  "jfield (packet_json p) ''destination_port'' = port_json (destination_port p)"
  "jfield (packet_json p) ''wire_bytes'' = JInt (uint (wire_bytes p))"
  "jfield (packet_json p) ''protocol'' = JString (protocol_name (protocol p))"
  by (simp_all add: packet_json_def)

definition port_text :: "u16 option \<Rightarrow> string" where
  "port_text port = (case port of None \<Rightarrow> [] | Some n \<Rightarrow> to_string_int (uint n))"

lemma as_string_port: "as_string L (port_json port) = Inr (port_text port)"
  by (cases port) (simp_all add: port_json_def port_text_def)

text \<open>The key of a packet's connection.\<close>

definition key_of :: "string \<Rightarrow> PacketMetadata \<Rightarrow> string" where
  "key_of iface p = iface @ ''|'' @ source_ip p @ ''|'' @ destination_ip p @ ''|'' @
     protocol_name (protocol p) @ ''|'' @ port_text (source_port p) @ ''|'' @ port_text (destination_port p)"

lemma flow_key_eq [simp]: "flow_key L iface p (packet_json p) = Inr (key_of iface p)"
  by (simp add: flow_key_def key_of_def as_string_port)

section \<open>What a connection summary is\<close>

definition int64 :: "int \<Rightarrow> bool" where
  "int64 n \<longleftrightarrow> - (2 ^ 63) \<le> n \<and> n < 2 ^ 63"

text \<open>
  The summary of a connection with packets \<open>ps\<close>: its last packet, with the number and bytes of all of
  them and the time of the first.
\<close>

definition total_bytes :: "PacketMetadata list \<Rightarrow> int" where
  "total_bytes ps = (\<Sum>p\<leftarrow>ps. uint (wire_bytes p))"

definition flow_summary :: "string \<Rightarrow> string \<Rightarrow> PacketMetadata list \<Rightarrow> json" where
  "flow_summary iface key ps =
     jset (jset (jset (jset (jset (packet_json (last ps))
       ''key'' (JString key)) ''capture_interface'' (JString iface))
       ''first_seen'' (JInt (millis (timestamp (hd ps)))))
       ''packets'' (JInt (int (length ps)))) ''bytes'' (JInt (total_bytes ps))"

lemma flow_summary_fields [simp]:
  "is_object (flow_summary iface key ps)"
  "jfield (flow_summary iface key ps) ''packets'' = JInt (int (length ps))"
  "jfield (flow_summary iface key ps) ''bytes'' = JInt (total_bytes ps)"
  "jfield (flow_summary iface key ps) ''first_seen'' = JInt (millis (timestamp (hd ps)))"
  by (simp_all add: flow_summary_def)

lemma json_get_int: "is_object v \<Longrightarrow> jfield v k = JInt n \<Longrightarrow> json_get v k d = Inr (JInt n)"
  by (auto simp: json_get_def jfield_def split: option.splits)

lemma to_int64_in_range: "int64 n \<Longrightarrow> to_int64 (JInt n) = Inr n"
  by (simp add: int64_def)

text \<open>At most $2^{30}$ packets between two publications keep every number of a summary in range.\<close>

definition max_batch :: nat where "max_batch = 2 ^ 30"

lemma total_bytes_bounds: "0 \<le> total_bytes ps \<and> total_bytes ps \<le> int (length ps) * 2 ^ 32"
proof (induction ps)
  case (Cons p ps)
  then show ?case
    using less_imp_le [OF uint_u32_lt [of "wire_bytes p"]] by (simp add: total_bytes_def algebra_simps)
qed (simp add: total_bytes_def)

lemma small_numbers:
  assumes "length ps \<le> max_batch"
  shows "int64 (int (length ps))" "int64 (total_bytes ps)"
proof -
  have N: "int (length ps) \<le> 2 ^ 30" using assms by (simp add: max_batch_def)
  have "int (length ps) * 2 ^ 32 \<le> 2 ^ 30 * 2 ^ 32" by (rule mult_right_mono [OF N]) simp
  then have "total_bytes ps \<le> 2 ^ 30 * 2 ^ 32" using total_bytes_bounds [of ps] by (rule order_trans [rotated, OF _ conjunct2])
  then show "int64 (int (length ps))" "int64 (total_bytes ps)"
    using N total_bytes_bounds [of ps] by (simp_all add: int64_def)
qed

lemma total_bytes_snoc [simp]: "total_bytes (ps @ [p]) = total_bytes ps + uint (wire_bytes p)"
  by (simp add: total_bytes_def)

lemma flow_entry_first:
  assumes "int64 (millis (timestamp p))"
  shows "flow_entry iface key p (packet_json p) JNull = Inr (flow_summary iface key [p])"
  using assms
  by (simp add: flow_entry_def json_get_def flow_summary_def total_bytes_def int64_def Let_def)

lemma flow_entry_next:
  assumes "ps \<noteq> []" "length ps \<le> max_batch" "int64 (millis (timestamp (hd ps)))"
  shows "flow_entry iface key p (packet_json p) (flow_summary iface key ps) =
    Inr (flow_summary iface key (ps @ [p]))"
  using assms small_numbers [OF assms(2)]
  by (simp add: flow_entry_def json_get_int to_int64_in_range Let_def del: to_int64.simps)
    (simp add: flow_summary_def add.commute)

section \<open>What the aggregates are\<close>

definition with_address :: "PacketMetadata \<Rightarrow> bool" where
  "with_address p \<longleftrightarrow> source_ip p \<noteq> []"

interpretation talker_map: capped_map map_of upd_member length keys_ordered max_talkers
  by unfold_locales (simp add: max_talkers_def)

interpretation flow_map: capped_map map_of upd_member length keys_ordered max_flows
  by unfold_locales (simp add: max_flows_def)

text \<open>
  The three breakdowns of the packets \<open>ps\<close> of a period: the packets with an address, by connection and
  by source; all packets, by protocol.
\<close>

definition flows_exact :: "string \<Rightarrow> PacketMetadata list \<Rightarrow> aggregates \<Rightarrow> bool" where
  "flows_exact iface ps a \<longleftrightarrow>
     keys_ordered (flows a) \<and> length (flows a) \<le> max_flows \<and>
     tracks (key_of iface) (\<lambda>k qs f. qs \<noteq> [] \<and> f = flow_summary iface k qs)
       (max_flows \<le> length (flows a)) (map_of (flows a)) ps \<and>
     flows_omitted a = of_nat (length (missed (key_of iface) (map_of (flows a)) ps))"

definition talkers_exact :: "PacketMetadata list \<Rightarrow> aggregates \<Rightarrow> bool" where
  "talkers_exact ps a \<longleftrightarrow>
     keys_ordered (talkers a) \<and> length (talkers a) \<le> max_talkers \<and>
     tracks source_ip (\<lambda>k qs n. n = of_int (total_bytes qs))
       (max_talkers \<le> length (talkers a)) (map_of (talkers a)) ps \<and>
     talkers_omitted a = of_nat (length (missed source_ip (map_of (talkers a)) ps))"

definition protocols_exact :: "PacketMetadata list \<Rightarrow> aggregates \<Rightarrow> bool" where
  "protocols_exact ps a \<longleftrightarrow>
     keys_ordered (protocols a) \<and>
     tracks (\<lambda>p. protocol_name (protocol p)) (\<lambda>k qs n. n = of_nat (length qs)) False
       (map_of (protocols a)) ps"

definition sampled :: "string \<Rightarrow> PacketMetadata list \<Rightarrow> aggregates \<Rightarrow> bool" where
  "sampled iface ps a \<longleftrightarrow>
     flows_exact iface (filter with_address ps) a \<and> talkers_exact (filter with_address ps) a \<and>
     protocols_exact ps a"

section \<open>One packet\<close>

lemma count_flow_exact:
  assumes "flows_exact iface ps a" "length ps \<le> max_batch"
    "\<forall>q \<in> set (ps @ [p]). int64 (millis (timestamp q))"
  obtains fs n where "count_flow L iface p (packet_json p) a = Inr (a\<lparr>flows := fs, flows_omitted := n\<rparr>)"
    "flows_exact iface (ps @ [p]) (a\<lparr>flows := fs, flows_omitted := n\<rparr>)"
proof (cases "map_of (flows a) (key_of iface p) \<noteq> None \<or> length (flows a) < max_flows")
  case False
  note exact = assms(1) [unfolded flows_exact_def]
  have "flows_exact iface (ps @ [p]) (a\<lparr>flows := flows a, flows_omitted := flows_omitted a + 1\<rparr>)"
    using exact flow_map.capped_refuse [of "key_of iface" _ "flows a" ps p] False
    by (simp add: flows_exact_def)
  moreover have "count_flow L iface p (packet_json p) a =
      Inr (a\<lparr>flows := flows a, flows_omitted := flows_omitted a + 1\<rparr>)"
    using False by (simp add: count_flow_def)
  ultimately show ?thesis using that by blast
next
  case True
  let ?k = "key_of iface p"
  let ?qs = "hist (key_of iface) ?k ps"
  note exact = assms(1) [unfolded flows_exact_def]
  have g: "flow_entry iface ?k p (packet_json p)
      (case map_of (flows a) ?k of None \<Rightarrow> JNull | Some f \<Rightarrow> f) = Inr (flow_summary iface ?k (?qs @ [p]))"
  proof (rule flow_map.capped_old [of "key_of iface" _ "flows a" ps ?k])
    assume "map_of (flows a) ?k = None" "?qs = []"
    then show ?thesis using flow_entry_first assms(3) by simp
  next
    fix f
    assume f: "map_of (flows a) ?k = Some f" "?qs \<noteq> [] \<and> f = flow_summary iface ?k ?qs"
    have "length ?qs \<le> max_batch" "hd ?qs \<in> set ps"
      using assms(2) le_trans [OF length_filter_le] f(2) hd_in_set [of ?qs] by (auto simp: hist_def)
    with f assms(3) show ?thesis by (simp add: flow_entry_next)
  qed (use exact True in simp_all)
  let ?right = "\<lambda>k qs f. qs \<noteq> [] \<and> f = flow_summary iface k qs"
  let ?fs = "upd_member ?k (flow_summary iface ?k (?qs @ [p])) (flows a)"
  have "?right ?k (?qs @ [p]) (flow_summary iface ?k (?qs @ [p]))" by simp
  note admit = flow_map.capped_admit [of "flows a" "key_of iface" ?right ps p, OF _ _ True this]
  have "length ?fs \<le> max_flows" "keys_ordered ?fs"
    using exact True flow_map.capped_put [of "flows a" ?k] by (simp_all add: keys_ordered_upd_member)
  then have "flows_exact iface (ps @ [p]) (a\<lparr>flows := ?fs, flows_omitted := flows_omitted a\<rparr>)"
    using exact admit by (simp add: flows_exact_def del: map_of_upd_member)
  moreover have "count_flow L iface p (packet_json p) a =
      Inr (a\<lparr>flows := ?fs, flows_omitted := flows_omitted a\<rparr>)"
    using True g by (simp add: count_flow_def)
  ultimately show ?thesis using that by blast
qed

lemma counter_right:
  assumes "tracks key right full (map_of m) xs" "map_of m k \<noteq> None \<or> \<not> full" "right k [] 0"
  shows "right k (hist key k xs) (counter m k)"
  using assms tracksD [OF assms(1), of k] by (cases "map_of m k") (auto simp: counter_def)

lemma of_int_uint_u32: "(of_int (uint (a :: u32)) :: u64) = ucast a"
  by (rule ucast_eq [symmetric])

lemma count_talker_exact:
  assumes "talkers_exact ps a"
  shows "talkers_exact (ps @ [p]) (count_talker p a)"
proof (cases "map_of (talkers a) (source_ip p) \<noteq> None \<or> length (talkers a) < max_talkers")
  case False
  then show ?thesis
    using assms talker_map.capped_refuse [of source_ip _ "talkers a" ps p]
    by (simp add: talkers_exact_def count_talker_def)
next
  case True
  note exact = assms [unfolded talkers_exact_def]
  let ?right = "\<lambda>(k :: string) qs (n :: u64). n = of_int (total_bytes qs)"
  let ?m = "bump (source_ip p) (ucast (wire_bytes p)) (talkers a)"
  have old: "?right (source_ip p) (hist source_ip (source_ip p) ps) (counter (talkers a) (source_ip p))"
    by (rule counter_right [of source_ip ?right "max_talkers \<le> length (talkers a)"])
      (use exact True in \<open>simp_all add: total_bytes_def not_le\<close>)
  have "?right (source_ip p) (hist source_ip (source_ip p) ps @ [p])
      (counter (talkers a) (source_ip p) + ucast (wire_bytes p))"
    using old by (simp add: of_int_uint_u32)
  note admit = talker_map.capped_admit [of "talkers a" source_ip ?right ps p, OF _ _ True this, folded bump_def]
  have "length ?m \<le> max_talkers" "keys_ordered ?m"
    using exact True talker_map.capped_put [of "talkers a" "source_ip p"]
    by (simp_all add: bump_def keys_ordered_upd_member)
  then show ?thesis
    using exact True admit by (simp add: talkers_exact_def count_talker_def)
qed

lemma count_protocol_exact:
  assumes "protocols_exact ps a"
  shows "protocols_exact (ps @ [p]) (a\<lparr>protocols := bump (protocol_name (protocol p)) 1 (protocols a)\<rparr>)"
proof -
  let ?key = "\<lambda>p. protocol_name (protocol p)"
  note exact = assms [unfolded protocols_exact_def]
  have "counter (protocols a) (?key p) = of_nat (length (hist ?key (?key p) ps))"
    using counter_right [of ?key "\<lambda>k qs n. n = of_nat (length qs)" False "protocols a" ps] exact by simp
  then have "tracks ?key (\<lambda>k qs n. n = of_nat (length qs)) False
      (map_of (upd_member (?key p) (counter (protocols a) (?key p) + 1) (protocols a))) (ps @ [p])"
    using exact by (intro omap.tracks_uncapped) (simp_all add: add.commute)
  then show ?thesis
    using exact by (simp add: protocols_exact_def bump_def keys_ordered_upd_member del: map_of_upd_member)
qed

lemma exact_cong [simp]:
  "flows_exact iface ps (a\<lparr>protocols := m\<rparr>) = flows_exact iface ps a"
  "flows_exact iface ps (a\<lparr>recent := r\<rparr>) = flows_exact iface ps a"
  "talkers_exact ps (a\<lparr>protocols := m\<rparr>) = talkers_exact ps a"
  "talkers_exact ps (a\<lparr>flows := fs, flows_omitted := n\<rparr>) = talkers_exact ps a"
  "talkers_exact ps (a\<lparr>recent := r\<rparr>) = talkers_exact ps a"
  "protocols_exact ps (a\<lparr>flows := fs, flows_omitted := n\<rparr>) = protocols_exact ps a"
  "protocols_exact ps (a\<lparr>recent := r\<rparr>) = protocols_exact ps a"
  "flows_exact iface ps (count_talker p a) = flows_exact iface ps a"
  "protocols_exact ps (count_talker p a) = protocols_exact ps a"
  "recent (count_talker p a) = recent a"
  by (simp_all add: flows_exact_def talkers_exact_def protocols_exact_def count_talker_def)

lemma add_packet_sampled:
  assumes "sampled iface ps a" "length ps < max_batch" "\<forall>q \<in> set (ps @ [p]). int64 (millis (timestamp q))"
  obtains b where "add_packet L iface p a = Inr b" "sampled iface (ps @ [p]) b"
    "recent b = recent a @ [packet_json p]"
proof -
  note parts = assms(1) [unfolded sampled_def]
  let ?n = "protocol_name (protocol p)"
  show ?thesis
  proof (cases "with_address p")
    case False
    let ?b = "a\<lparr>protocols := bump ?n 1 (protocols a)\<rparr>"
    have "add_packet L iface p a = Inr (?b\<lparr>recent := recent a @ [packet_json p]\<rparr>)"
      using False by (simp add: add_packet_def with_address_def Let_def)
    then show ?thesis
      by (rule that) (use parts count_protocol_exact [of ps a p] False in \<open>simp_all add: sampled_def\<close>)
  next
    case True
    let ?qs = "filter with_address ps"
    have "length ?qs \<le> max_batch"
      using assms(2) length_filter_le [of with_address ps] by linarith
    moreover have "\<forall>q \<in> set (?qs @ [p]). int64 (millis (timestamp q))" using assms(3) by auto
    ultimately obtain fs n where f: "count_flow L iface p (packet_json p) a = Inr (a\<lparr>flows := fs, flows_omitted := n\<rparr>)"
      "flows_exact iface (?qs @ [p]) (a\<lparr>flows := fs, flows_omitted := n\<rparr>)"
      using parts count_flow_exact by metis
    let ?c = "a\<lparr>flows := fs, flows_omitted := n\<rparr>"
    let ?d = "?c\<lparr>protocols := bump ?n 1 (protocols ?c)\<rparr>"
    have "add_packet L iface p a = Inr ((count_talker p ?d)\<lparr>recent := recent (count_talker p ?d) @ [packet_json p]\<rparr>)"
      using True f(1) by (simp add: add_packet_def with_address_def Let_def)
    moreover have "talkers_exact (?qs @ [p]) (count_talker p ?d)"
      using parts by (intro count_talker_exact) simp
    moreover have "protocols_exact (ps @ [p]) ?d"
      using parts by (intro count_protocol_exact) simp
    ultimately show ?thesis
      by (intro that [of "(count_talker p ?d)\<lparr>recent := recent (count_talker p ?d) @ [packet_json p]\<rparr>"])
        (use f(2) True in \<open>simp_all add: sampled_def\<close>)
  qed
qed

section \<open>All packets between two publications\<close>

definition last_of :: "nat \<Rightarrow> 'a list \<Rightarrow> 'a list" where
  "last_of n xs = drop (length xs - n) xs"

lemma last_of_short [simp]: "length xs \<le> n \<Longrightarrow> last_of n xs = xs"
  by (simp add: last_of_def)

lemma last_of_append: "last_of n (last_of n xs @ ys) = last_of n (xs @ ys)"
  by (cases "length xs \<le> n") (auto simp: last_of_def add.commute)

lemma trim_recent_eq: "trim_recent a = a\<lparr>recent := last_of max_recent (recent a)\<rparr>"
  by (simp add: trim_recent_def last_of_def)

lemma add_packets_sampled:
  assumes "sampled iface ps a" "length ps + length qs \<le> max_batch"
    "\<forall>q \<in> set (ps @ qs). int64 (millis (timestamp q))"
  obtains b where "add_packets L iface qs a = Inr b" "sampled iface (ps @ qs) b"
    "recent b = recent a @ map packet_json qs"
  using assms
proof (induction qs arbitrary: ps a thesis)
  case (Cons q qs)
  obtain c where c: "add_packet L iface q a = Inr c" "sampled iface (ps @ [q]) c"
    "recent c = recent a @ [packet_json q]"
    by (rule add_packet_sampled [of iface ps a q L]) (use Cons.prems in auto)
  obtain b where "add_packets L iface qs c = Inr b" "sampled iface ((ps @ [q]) @ qs) b"
    "recent b = recent c @ map packet_json qs"
    by (rule Cons.IH [OF _ c(2)]) (use Cons.prems in auto)
  with c show ?case by (intro Cons.prems(1)) simp_all
qed simp

lemma sample_batches_sampled:
  assumes "sampled iface ps a" "length (ps @ concat pss) \<le> max_batch"
    "\<forall>q \<in> set (ps @ concat pss). int64 (millis (timestamp q))" "length (recent a) \<le> max_recent"
  shows "\<exists>b. sample_batches L iface pss a = Inr b \<and> sampled iface (ps @ concat pss) b \<and>
    recent b = last_of max_recent (recent a @ map packet_json (concat pss))"
  using assms
proof (induction pss arbitrary: ps a)
  case (Cons qs pss)
  obtain c where c: "add_packets L iface qs a = Inr c" "sampled iface (ps @ qs) c"
    "recent c = recent a @ map packet_json qs"
    by (rule add_packets_sampled [of iface ps a qs L]) (use Cons.prems in auto)
  have "sampled iface (ps @ qs) (trim_recent c)"
    using c(2) by (simp add: trim_recent_eq sampled_def)
  moreover have "length (recent (trim_recent c)) \<le> max_recent"
    by (simp add: trim_recent_eq last_of_def)
  ultimately have "\<exists>b. sample_batches L iface pss (trim_recent c) = Inr b \<and>
      sampled iface ((ps @ qs) @ concat pss) b \<and>
      recent b = last_of max_recent (recent (trim_recent c) @ map packet_json (concat pss))"
    using Cons.prems by (intro Cons.IH) simp_all
  then show ?case
    using c(1,3) by (simp add: trim_recent_eq last_of_append)
qed simp

lemma sampled_none: "sampled iface [] (no_aggregates\<lparr>recent := r\<rparr>)"
  by (simp add: sampled_def flows_exact_def talkers_exact_def protocols_exact_def no_aggregates_def
      fun_eq_iff del: tracks_empty) (simp add: tracks_def)

text \<open>What \<open>sampled\<close> says of one connection and one source.\<close>

lemma sampledD:
  assumes "sampled iface ps a"
  shows "map_of (flows a) k = Some f \<Longrightarrow>
      f = flow_summary iface k (filter (\<lambda>p. with_address p \<and> key_of iface p = k) ps)"
    and "map_of (talkers a) ip = Some n \<Longrightarrow> ip \<noteq> [] \<Longrightarrow>
      n = of_int (total_bytes (filter (\<lambda>p. source_ip p = ip) ps))"
    and "counter (protocols a) name = of_nat (length (filter (\<lambda>p. protocol_name (protocol p) = name) ps))"
proof -
  have fil: "filter P (filter with_address ps) = filter (\<lambda>p. with_address p \<and> P p) ps" for P
    by (simp add: conj_commute)
  show "f = flow_summary iface k (filter (\<lambda>p. with_address p \<and> key_of iface p = k) ps)"
    if "map_of (flows a) k = Some f"
    using that assms tracksD(1) [of "key_of iface" _ _ "map_of (flows a)" "filter with_address ps" k f]
    by (auto simp: sampled_def flows_exact_def hist_def fil)
  show "n = of_int (total_bytes (filter (\<lambda>p. source_ip p = ip) ps))"
    if "map_of (talkers a) ip = Some n" "ip \<noteq> []"
  proof -
    have "filter (\<lambda>p. with_address p \<and> source_ip p = ip) ps = filter (\<lambda>p. source_ip p = ip) ps"
      using that(2) by (auto intro: filter_cong simp: with_address_def)
    then show ?thesis
      using that assms tracksD(1) [of source_ip _ _ "map_of (talkers a)" "filter with_address ps" ip n]
      by (auto simp: sampled_def talkers_exact_def hist_def fil)
  qed
  show "counter (protocols a) name = of_nat (length (filter (\<lambda>p. protocol_name (protocol p) = name) ps))"
    using counter_right [of "\<lambda>p. protocol_name (protocol p)" "\<lambda>k qs n. n = of_nat (length qs)" False
        "protocols a" ps name] assms
    by (simp add: sampled_def protocols_exact_def hist_def)
qed

lemma sampled_omitted:
  assumes "sampled iface ps a" "length ps \<le> max_batch"
  shows "unat (flows_omitted a) =
      length (filter (\<lambda>p. with_address p \<and> map_of (flows a) (key_of iface p) = None) ps)"
    and "unat (talkers_omitted a) =
      length (filter (\<lambda>p. with_address p \<and> map_of (talkers a) (source_ip p) = None) ps)"
proof -
  have small: "unat (of_nat (length (filter P ps)) :: u64) = length (filter P ps)" for P
  proof -
    have "length (filter P ps) < 2 ^ 64"
      by (rule le_less_trans [OF length_filter_le]) (use assms(2) in \<open>simp add: max_batch_def\<close>)
    then show ?thesis by (simp add: unat_of_nat take_bit_nat_eq_self)
  qed
  show "unat (flows_omitted a) =
      length (filter (\<lambda>p. with_address p \<and> map_of (flows a) (key_of iface p) = None) ps)"
    using assms(1) by (simp add: sampled_def flows_exact_def missed_def conj_commute small)
  show "unat (talkers_omitted a) =
      length (filter (\<lambda>p. with_address p \<and> map_of (talkers a) (source_ip p) = None) ps)"
    using assms(1) by (simp add: sampled_def talkers_exact_def missed_def conj_commute small)
qed

lemma sample_batches_start:
  assumes "length (concat pss) \<le> max_batch" "\<forall>q \<in> set (concat pss). int64 (millis (timestamp q))"
    "length r \<le> max_recent"
  shows "\<exists>a. sample_batches L iface pss (no_aggregates\<lparr>recent := r\<rparr>) = Inr a \<and>
    sampled iface (concat pss) a \<and> recent a = last_of max_recent (r @ map packet_json (concat pss))"
  using sample_batches_sampled [OF sampled_none, of pss r L iface] assms by simp

text \<open>
  C11. Exact aggregation: however the packets between two publications arrive in batches, at most 4096
  connections and 1024 sources are kept and the recent list is the last 200 packets seen. Every
  connection summary is the summary of all packets of that connection, every recorded source has all
  of its bytes, every protocol count is exact, and the two omission counters count exactly the packets
  whose connection or source is not recorded.
\<close>

theorem sampling_accounting:
  assumes "length (concat pss) \<le> max_batch" "\<forall>q \<in> set (concat pss). int64 (millis (timestamp q))"
    "length r \<le> 200"
  shows "\<exists>a. sample_batches L iface pss (no_aggregates\<lparr>recent := r\<rparr>) = Inr a \<and>
    length (flows a) \<le> 4096 \<and> length (talkers a) \<le> 1024 \<and>
    recent a = last_of 200 (r @ map packet_json (concat pss)) \<and>
    (\<forall>k f. map_of (flows a) k = Some f \<longrightarrow>
       f = flow_summary iface k (filter (\<lambda>p. with_address p \<and> key_of iface p = k) (concat pss))) \<and>
    (\<forall>ip n. map_of (talkers a) ip = Some n \<and> ip \<noteq> [] \<longrightarrow>
       n = of_int (total_bytes (filter (\<lambda>p. source_ip p = ip) (concat pss)))) \<and>
    (\<forall>name. counter (protocols a) name =
       of_nat (length (filter (\<lambda>p. protocol_name (protocol p) = name) (concat pss)))) \<and>
    unat (flows_omitted a) =
      length (filter (\<lambda>p. with_address p \<and> map_of (flows a) (key_of iface p) = None) (concat pss)) \<and>
    unat (talkers_omitted a) =
      length (filter (\<lambda>p. with_address p \<and> map_of (talkers a) (source_ip p) = None) (concat pss))"
proof -
  obtain a where a: "sample_batches L iface pss (no_aggregates\<lparr>recent := r\<rparr>) = Inr a"
    "sampled iface (concat pss) a" "recent a = last_of 200 (r @ map packet_json (concat pss))"
    using sample_batches_start [of pss r L iface] assms by (auto simp: max_recent_def)
  moreover have "length (flows a) \<le> 4096" "length (talkers a) \<le> 1024"
    using a(2) by (simp_all add: sampled_def flows_exact_def talkers_exact_def max_flows_def max_talkers_def)
  ultimately show ?thesis
    using sampledD [OF a(2)] sampled_omitted [OF a(2) assms(1)] by (intro exI [of _ a]) blast
qed

theorem sampling_accounting_witness:
  "\<exists>a. sample_batches undefined ''eth0'' [[empty_packet\<lparr>source_ip := ''192.0.2.1'', wire_bytes := 60\<rparr>], []]
     (no_aggregates\<lparr>recent := []\<rparr>) = Inr a \<and> length (flows a) \<le> 4096"
  using sampling_accounting [of "[[empty_packet\<lparr>source_ip := ''192.0.2.1'', wire_bytes := 60\<rparr>], []]" "[]"
      undefined "''eth0''"]
  by (auto simp: max_batch_def int64_def empty_packet_def millis_def)

end
