(* ===== verification/Metrics.thy ===== *)
theory Metrics
  imports Sampling Engine
begin

text \<open>
  What \<open>ApplianceRuntime::sample\<close> publishes (\<open>src/server.cpp\<close>): the metrics object with rates, protocol
  counts, the ten heaviest sources and the flag \<open>breakdown_complete\<close>. \<open>std::sort\<close> is a parameter,
  with what the standard says of it as \<open>std_sort\<close>; rates are rationals.
\<close>

section \<open>Operations\<close>

definition heavier :: "string \<times> u64 \<Rightarrow> string \<times> u64 \<Rightarrow> bool" where
  "heavier a b \<longleftrightarrow> snd b < snd a"

definition u64_text :: "u64 \<Rightarrow> json" where
  "u64_text n = JString (to_string (unat n))"

fun count_members :: "(string \<times> u64) list \<Rightarrow> json \<Rightarrow> json" where
  "count_members [] v = v"
| "count_members ((name, n) # ps) v = count_members ps (jset v name (u64_text n))"

definition talker_json :: "string \<times> u64 \<Rightarrow> json" where
  "talker_json t = jset (jset JNull ''ip'' (JString (fst t))) ''wire_bytes'' (u64_text (snd t))"

type_synonym talker_sort = "(string \<times> u64) list \<Rightarrow> (string \<times> u64) list"

definition top_talkers :: "talker_sort \<Rightarrow> aggregates \<Rightarrow> (string \<times> u64) list" where
  "top_talkers srt a = take 10 (srt (talkers a))"

definition publish :: "talker_sort \<Rightarrow> int \<Rightarrow> rat \<Rightarrow> u64 \<Rightarrow> u64 \<Rightarrow> CaptureSnapshot \<Rightarrow> aggregates \<Rightarrow> json \<Rightarrow> json" where
  "publish srt wall elapsed delta_packets delta_bytes snap a metrics =
     (let v = jset metrics ''timestamp'' (JInt wall);
          v = jset v ''bits_per_second'' (JReal (of_nat (unat delta_bytes) * 8 / elapsed));
          v = jset v ''packets_per_second'' (JReal (of_nat (unat delta_packets) / elapsed));
          v = jset v ''elapsed_seconds'' (JReal elapsed);
          v = jset v ''protocols'' (count_members (protocols a) (JObject []));
          v = jset v ''top_talkers'' (JArray (map talker_json (top_talkers srt a)));
          v = jset v ''talkers_omitted'' (u64_text (talkers_omitted a));
          v = jset v ''flows_omitted'' (u64_text (flows_omitted a))
      in jset v ''breakdown_complete'' (JBool (metadata_dropped snap = 0 \<and> talkers_omitted a = 0)))"

definition reset_aggregates :: "aggregates \<Rightarrow> aggregates" where
  "reset_aggregates a = a\<lparr>protocols := [], talkers := [], flows := [], talkers_omitted := 0, flows_omitted := 0\<rparr>"

section \<open>The published breakdown\<close>

lemma publish_fields [simp]:
  "jfield (publish srt wall elapsed dp db snap a metrics) ''top_talkers'' =
     JArray (map talker_json (top_talkers srt a))"
  "jfield (publish srt wall elapsed dp db snap a metrics) ''breakdown_complete'' =
     JBool (metadata_dropped snap = 0 \<and> talkers_omitted a = 0)"
  "jfield (publish srt wall elapsed dp db snap a metrics) ''protocols'' =
     count_members (protocols a) (JObject [])"
  by (simp_all add: publish_def Let_def)

lemma count_members_field:
  "keys_ordered ps \<Longrightarrow> jfield (count_members ps v) name =
     (case map_of ps name of None \<Rightarrow> jfield v name | Some n \<Rightarrow> u64_text n)"
proof (induction ps v rule: count_members.induct)
  case (2 k n ps v)
  then have "map_of ps k = None"
    by (auto simp: keys_ordered_Cons map_of_eq_None_iff)
  with 2 show ?case by (auto simp: keys_ordered_Cons split: option.splits)
qed simp

lemma top_in_talkers: "std_sort before srt \<Longrightarrow> set (top_talkers srt a) \<subseteq> set (talkers a)"
  using set_take_subset std_sort_set by (fastforce simp: top_talkers_def)

lemma top_sorted: "std_sort heavier srt \<Longrightarrow> sorted_wrt (\<lambda>s t. snd t \<le> snd s) (top_talkers srt a)"
  unfolding std_sort_def heavier_def top_talkers_def not_less by (blast intro: sorted_wrt_take)

text \<open>A recorded source is listed, or it is not heavier than any that is.\<close>

lemma top_or_lighter:
  assumes "std_sort heavier srt" "u \<in> set (talkers a)"
  shows "u \<in> set (top_talkers srt a) \<or>
    length (top_talkers srt a) = 10 \<and> (\<forall>t \<in> set (top_talkers srt a). snd u \<le> snd t)"
proof -
  let ?s = "srt (talkers a)"
  have u: "u \<in> set (take 10 ?s) \<union> set (drop 10 ?s)"
    using assms std_sort_set by (metis append_take_drop_id set_append)
  have "sorted_wrt (\<lambda>s t. snd t \<le> snd s) (take 10 ?s @ drop 10 ?s)"
    using assms(1) unfolding std_sort_def heavier_def not_less by simp
  then have "\<forall>t \<in> set (take 10 ?s). \<forall>v \<in> set (drop 10 ?s). snd v \<le> snd t"
    unfolding sorted_wrt_append by blast
  moreover have "drop 10 ?s \<noteq> [] \<Longrightarrow> length (take 10 ?s) = 10" by simp
  ultimately show ?thesis
    using u by (fastforce simp: top_talkers_def)
qed

definition bytes_from :: "string \<Rightarrow> PacketMetadata list \<Rightarrow> u64" where
  "bytes_from ip ps = of_int (total_bytes (filter (\<lambda>p. source_ip p = ip) ps))"

text \<open>The sources listed are those of packets with an address.\<close>

lemma all_recorded:
  assumes "sampled iface ps a" "length ps \<le> max_batch" "talkers_omitted a = 0" "p \<in> set ps" "with_address p"
  shows "(source_ip p, bytes_from (source_ip p) ps) \<in> set (talkers a)"
proof -
  have "filter (\<lambda>p. with_address p \<and> map_of (talkers a) (source_ip p) = None) ps = []"
    using sampled_omitted(2) [OF assms(1,2)] assms(3) by simp
  then obtain n where n: "map_of (talkers a) (source_ip p) = Some n"
    using assms(4,5) unfolding filter_empty_conv by (cases "map_of (talkers a) (source_ip p)") auto
  then show ?thesis
    using sampledD(2) [OF assms(1) n] assms(5) map_of_SomeD [OF n]
    by (simp add: with_address_def bytes_from_def)
qed

lemma listed_exact:
  assumes "sampled iface ps a" "std_sort heavier srt" "(ip, n) \<in> set (top_talkers srt a)" "ip \<noteq> []"
  shows "n = bytes_from ip ps"
proof -
  have "keys_ordered (talkers a)" using assms(1) by (simp add: sampled_def talkers_exact_def)
  then have "map_of (talkers a) ip = Some n"
    using top_in_talkers [OF assms(2)] assms(3) by (auto simp: keys_ordered_distinct)
  then show ?thesis using sampledD(2) [OF assms(1)] assms(4) by (simp add: bytes_from_def)
qed

lemma published_protocol:
  assumes "sampled iface ps a" "p \<in> set ps"
  shows "jfield (count_members (protocols a) (JObject [])) (protocol_name (protocol p)) =
    u64_text (of_nat (length (filter (\<lambda>q. protocol_name (protocol q) = protocol_name (protocol p)) ps)))"
proof -
  let ?key = "\<lambda>p. protocol_name (protocol p)"
  let ?n = "?key p"
  note exact = assms(1) [unfolded sampled_def protocols_exact_def]
  have "hist ?key ?n ps \<noteq> []" using assms(2) by (auto simp: hist_def filter_empty_conv)
  then obtain n where n: "map_of (protocols a) ?n = Some n"
    using exact tracksD(2) [of ?key _ False "map_of (protocols a)" ps ?n]
    by (cases "map_of (protocols a) ?n") auto
  have "counter (protocols a) ?n = n" using n by (simp add: counter_def)
  then show ?thesis
    using exact n sampledD(3) [OF assms(1), of ?n] by (simp add: count_members_field)
qed

text \<open>
  C28. The published breakdown: every protocol count is exact, the list of top sources is in descending order with exact byte totals,
  and when \<open>breakdown_complete\<close> is published no packet's metadata was dropped and every source of the
  period is in the list, or the list has ten entries none of which is lighter.
\<close>

theorem published_breakdown:
  assumes "sample_batches L iface pss (no_aggregates\<lparr>recent := r\<rparr>) = Inr a"
    and "length (concat pss) \<le> max_batch" "\<forall>q \<in> set (concat pss). int64 (millis (timestamp q))"
    "length r \<le> max_recent" "std_sort heavier srt"
    and "m = publish srt wall elapsed dp db snap a metrics"
  shows "\<exists>top. jfield m ''top_talkers'' = JArray (map talker_json top) \<and> length top \<le> 10 \<and>
    sorted_wrt (\<lambda>s t. snd t \<le> snd s) top \<and>
    (\<forall>p \<in> set (concat pss). jfield (jfield m ''protocols'') (protocol_name (protocol p)) =
       u64_text (of_nat (length (filter (\<lambda>q. protocol_name (protocol q) = protocol_name (protocol p))
         (concat pss))))) \<and>
    (\<forall>(ip, n) \<in> set top. ip \<noteq> [] \<longrightarrow> n = bytes_from ip (concat pss)) \<and>
    (jfield m ''breakdown_complete'' = JBool True \<longrightarrow> metadata_dropped snap = 0 \<and>
      (\<forall>p \<in> set (concat pss). with_address p \<longrightarrow>
         (source_ip p, bytes_from (source_ip p) (concat pss)) \<in> set top \<or>
         length top = 10 \<and> (\<forall>t \<in> set top. bytes_from (source_ip p) (concat pss) \<le> snd t)))"
proof -
  have ok: "sampled iface (concat pss) a"
    using sample_batches_start [OF assms(2-4), of L iface] assms(1) by simp
  have "\<forall>p \<in> set (concat pss). with_address p \<longrightarrow>
      (source_ip p, bytes_from (source_ip p) (concat pss)) \<in> set (top_talkers srt a) \<or>
      length (top_talkers srt a) = 10 \<and>
      (\<forall>t \<in> set (top_talkers srt a). bytes_from (source_ip p) (concat pss) \<le> snd t)"
    if "talkers_omitted a = 0"
    using top_or_lighter [OF assms(5)] all_recorded [OF ok assms(2) that] by fastforce
  then show ?thesis
    using assms(6) top_sorted [OF assms(5)] listed_exact [OF ok assms(5)]
    by (intro exI [of _ "top_talkers srt a"]) (auto simp: top_talkers_def published_protocol [OF ok])
qed

text \<open>A stable sort is one the standard allows.\<close>

lemma sort_key_std: "std_sort heavier (sort_key (\<lambda>t. - uint (snd t)))"
  by (rule std_sort_by_key) (simp add: heavier_def word_less_alt)

definition two_hosts :: "PacketMetadata list" where
  "two_hosts = [empty_packet\<lparr>source_ip := ''192.0.2.1'', wire_bytes := 60\<rparr>,
     empty_packet\<lparr>source_ip := ''192.0.2.2'', wire_bytes := 90\<rparr>]"

theorem published_breakdown_witness:
  "\<exists>a top. sample_batches undefined ''eth0'' [two_hosts] (no_aggregates\<lparr>recent := []\<rparr>) = Inr a \<and>
     jfield (publish (sort_key (\<lambda>t. - uint (snd t))) 0 1 2 150 zero_counters a JNull) ''top_talkers'' =
       JArray (map talker_json top) \<and> length top \<le> 10"
proof -
  have facts: "length (concat [two_hosts]) \<le> max_batch"
    "\<forall>q \<in> set (concat [two_hosts]). int64 (millis (timestamp q))" "length [] \<le> max_recent"
    by (simp_all add: max_batch_def int64_def empty_packet_def millis_def two_hosts_def)
  obtain a where "sample_batches undefined ''eth0'' [two_hosts] (no_aggregates\<lparr>recent := []\<rparr>) = Inr a"
    using sample_batches_start [OF facts] by blast
  from published_breakdown [OF this facts sort_key_std refl] this show ?thesis by blast
qed

end
