(* ===== verification/Store.thy ===== *)
theory Store
  imports Sampling
begin

text \<open>
  The database (\<open>src/store.cpp\<close>): three tables as association lists with unique keys, and the SQL statements
  of the program as functions on them. Each statement executed may fail; \<open>sql n\<close> is the answer to the n-th
  statement of a call, an error message or success. A failed statement changes nothing, and \<open>ROLLBACK\<close>
  restores the tables of the matching \<open>BEGIN\<close>. Integers are unbounded where SQLite keeps 64 bits.
  \<open>json_extract\<close> of SQLite is a parameter, as is the order \<open>ORDER BY\<close> leaves open among equal rows.
\<close>

section \<open>Tables\<close>

record sample_row =
  row_packets :: int
  row_bytes :: int
  row_details :: string

record flow_row =
  first_seen :: int
  last_seen :: int
  flow_count :: int
  flow_octets :: int
  metadata :: string

record store =
  settings :: "(string \<times> string) list"
  samples :: "(int \<times> sample_row) list"
  flow_table :: "(string \<times> flow_row) list"

type_synonym sql = "nat \<Rightarrow> string option"

text \<open>\<open>INSERT ... ON CONFLICT(key) DO UPDATE\<close>: the row of the key, changed or added.\<close>

fun upsert :: "'k \<Rightarrow> ('v \<Rightarrow> 'v) \<Rightarrow> 'v \<Rightarrow> ('k \<times> 'v) list \<Rightarrow> ('k \<times> 'v) list" where
  "upsert k change new [] = [(k, new)]"
| "upsert k change new ((j, v) # rows) =
     (if j = k then (j, change v) # rows else (j, v) # upsert k change new rows)"

definition unique_keys :: "('k \<times> 'v) list \<Rightarrow> bool" where
  "unique_keys rows \<longleftrightarrow> distinct (map fst rows)"

section \<open>Statements and opening\<close>

text \<open>A result code of SQLite with the message \<open>sqlite3_errmsg\<close> would then return.\<close>

type_synonym sqlite_code = "int \<times> string"

definition check_code :: "sqlite_code \<Rightarrow> unit result" where
  "check_code c = (if fst c \<noteq> 0 \<and> fst c \<noteq> 101 \<and> fst c \<noteq> 100 then Inl (Runtime_error (snd c)) else Inr ())"

text \<open>
  The life of a \<open>Statement\<close>: \<open>sqlite3_prepare_v2\<close>, the bindings and one \<open>sqlite3_step\<close>, each checked; the code
  of the step is the result.
\<close>

fun check_codes :: "sqlite_code list \<Rightarrow> unit result" where
  "check_codes [] = Inr ()"
| "check_codes (c # cs) = ebind (check_code c) (\<lambda>_. check_codes cs)"

definition run_statement :: "sqlite_code \<Rightarrow> sqlite_code list \<Rightarrow> sqlite_code \<Rightarrow> int result" where
  "run_statement prepare bindings step =
     ebind (check_code prepare) (\<lambda>_. ebind (check_codes bindings) (\<lambda>_.
     ebind (check_code step) (\<lambda>_. Inr (fst step))))"

definition empty_store :: store where
  "empty_store = \<lparr>settings = [], samples = [], flow_table = []\<rparr>"

text \<open>
  \<open>Store::Store\<close>: the codes of opening the file and of the schema script, and the tables of an existing
  file. \<open>CREATE TABLE IF NOT EXISTS\<close> leaves those alone.
\<close>

definition open_store :: "sqlite_code \<Rightarrow> sqlite_code \<Rightarrow> store option \<Rightarrow> store result" where
  "open_store opened schema found =
     ebind (check_code opened) (\<lambda>_. ebind (check_code schema) (\<lambda>_.
       Inr (case found of None \<Rightarrow> empty_store | Some db \<Rightarrow> db)))"

text \<open>What the operations below see of a statement: nothing, or the message of its first failing call.\<close>

definition statement_answer :: "sqlite_code \<Rightarrow> sqlite_code list \<Rightarrow> sqlite_code \<Rightarrow> string option" where
  "statement_answer prepare bindings step =
     (case run_statement prepare bindings step of Inl e \<Rightarrow> Some (what e) | Inr n \<Rightarrow> None)"

section \<open>Settings\<close>

definition store_put :: "sql \<Rightarrow> json_lib \<Rightarrow> string \<Rightarrow> json \<Rightarrow> store \<Rightarrow> unit result \<times> store" where
  "store_put sql L key v db = (case sql 0 of
     Some message \<Rightarrow> (Inl (Runtime_error message), db)
   | None \<Rightarrow> (Inr (), db\<lparr>settings := upsert key (\<lambda>_. json_text L v) (json_text L v) (settings db)\<rparr>))"

definition store_lookup :: "sql \<Rightarrow> json_lib \<Rightarrow> string \<Rightarrow> store \<Rightarrow> json result" where
  "store_lookup sql L key db = (case sql 0 of
     Some message \<Rightarrow> Inl (Runtime_error message)
   | None \<Rightarrow> (case map_of (settings db) key of
       None \<Rightarrow> Inr JNull | Some text \<Rightarrow> parse_json L (c_str text)))"

section \<open>Samples and history\<close>

definition retention :: int where
  "retention = 7 * 86400"

definition add_sample :: "sample_row \<Rightarrow> sample_row \<Rightarrow> sample_row" where
  "add_sample new old = old\<lparr>row_packets := row_packets old + row_packets new,
     row_bytes := row_bytes old + row_bytes new, row_details := row_details new\<rparr>"

definition save_sample :: "sql \<Rightarrow> json_lib \<Rightarrow> int \<Rightarrow> u64 \<Rightarrow> u64 \<Rightarrow> json \<Rightarrow> store \<Rightarrow> unit result \<times> store" where
  "save_sample sql L ts n b details db =
     (let row = \<lparr>row_packets = sint n, row_bytes = sint b, row_details = json_text L details\<rparr>
      in case sql 0 of
        Some message \<Rightarrow> (Inl (Runtime_error message), db)
      | None \<Rightarrow>
          let db = db\<lparr>samples := upsert ts (add_sample row) row (samples db)\<rparr>
          in case sql 1 of
            Some message \<Rightarrow> (Inl (Runtime_error message), db)
          | None \<Rightarrow> (Inr (), db\<lparr>samples := filter (\<lambda>(t, r). \<not> t < ts - retention) (samples db)\<rparr>))"

text \<open>The range check at the head of \<open>Store::history\<close>; \<open>to - from\<close> is computed in 64 bits.\<close>

definition history_refused :: "int \<Rightarrow> int \<Rightarrow> int \<Rightarrow> bool" where
  "history_refused frm til interval \<longleftrightarrow>
     (interval \<noteq> 60 \<and> interval \<noteq> 300 \<and> interval \<noteq> 3600) \<or> til \<le> frm \<or>
     sint (of_int (til - frm) :: u64) > 7 * 86400"

text \<open>SQLite's integer division truncates towards zero.\<close>

definition bucket :: "int \<Rightarrow> int \<Rightarrow> int" where
  "bucket interval ts = (ts sdiv interval) * interval"

definition in_range :: "int \<Rightarrow> int \<Rightarrow> int \<times> sample_row \<Rightarrow> bool" where
  "in_range frm til row \<longleftrightarrow> frm \<le> fst row \<and> fst row < til"

definition buckets :: "int \<Rightarrow> int \<Rightarrow> int \<Rightarrow> store \<Rightarrow> int list" where
  "buckets frm til interval db =
     sort (remdups (map (bucket interval \<circ> fst) (filter (in_range frm til) (samples db))))"

definition bucket_rows :: "int \<Rightarrow> int \<Rightarrow> int \<Rightarrow> store \<Rightarrow> int \<Rightarrow> (int \<times> sample_row) list" where
  "bucket_rows frm til interval db t =
     filter (\<lambda>row. bucket interval (fst row) = t) (filter (in_range frm til) (samples db))"

type_synonym json_number = "string \<Rightarrow> string \<Rightarrow> int"

definition sum_of :: "(sample_row \<Rightarrow> int) \<Rightarrow> (int \<times> sample_row) list \<Rightarrow> int" where
  "sum_of f rows = (\<Sum>row\<leftarrow>rows. f (snd row))"

definition int_text :: "int \<Rightarrow> json" where
  "int_text n = JString (to_string_int n)"

definition history_row :: "json_number \<Rightarrow> int \<Rightarrow> (int \<times> sample_row) list \<Rightarrow> json" where
  "history_row extract t rows =
     (let v = jset JNull ''timestamp'' (JInt t);
          v = jset v ''packets'' (int_text (sum_of row_packets rows));
          v = jset v ''wire_bytes'' (int_text (sum_of row_bytes rows));
          v = jset v ''samples'' (JInt (int (length rows)));
          p = (\<lambda>name. int_text (sum_of (\<lambda>r. extract (row_details r) name) rows));
          ps = jset (jset (jset (jset JNull ''tcp'' (p ''tcp'')) ''udp'' (p ''udp'')) ''icmp'' (p ''icmp''))
                 ''other'' (p ''other'')
      in jset v ''protocols'' ps)"

definition history_limit :: nat where
  "history_limit = 1000"

definition history_buckets :: "int \<Rightarrow> int \<Rightarrow> int \<Rightarrow> store \<Rightarrow> (int \<times> (int \<times> sample_row) list) list" where
  "history_buckets frm til interval db =
     map (\<lambda>t. (t, bucket_rows frm til interval db t)) (take history_limit (buckets frm til interval db))"

definition store_history :: "sql \<Rightarrow> json_number \<Rightarrow> int \<Rightarrow> int \<Rightarrow> int \<Rightarrow> store \<Rightarrow> json result" where
  "store_history sql extract frm til interval db =
     (if history_refused frm til interval
      then Inl (Invalid_argument ''History requires interval 60/300/3600 and a range up to seven days'')
      else case sql 0 of
        Some message \<Rightarrow> Inl (Runtime_error message)
      | None \<Rightarrow> Inr (JArray (map (\<lambda>(t, rows). history_row extract t rows) (history_buckets frm til interval db))))"

section \<open>Flows\<close>

type_synonym flow_order = "(string \<times> flow_row) list \<Rightarrow> (string \<times> flow_row) list"

definition newer :: "string \<times> flow_row \<Rightarrow> string \<times> flow_row \<Rightarrow> bool" where
  "newer a b \<longleftrightarrow> last_seen (snd b) < last_seen (snd a)"

text \<open>What \<open>ORDER BY last_seen DESC\<close> promises.\<close>

definition orders_newest :: "flow_order \<Rightarrow> bool" where
  "orders_newest ord \<longleftrightarrow> std_sort newer ord"

definition add_flow :: "flow_row \<Rightarrow> flow_row \<Rightarrow> flow_row" where
  "add_flow new old = old\<lparr>last_seen := last_seen new, flow_count := flow_count old + flow_count new,
     flow_octets := flow_octets old + flow_octets new, metadata := metadata new\<rparr>"

definition flow_values :: "json_lib \<Rightarrow> json \<Rightarrow> (string \<times> flow_row) result" where
  "flow_values L flow =
     ebind (ebind (jindex flow ''key'') (as_string L)) (\<lambda>key.
     ebind (ebind (jindex flow ''first_seen'') to_int64) (\<lambda>first.
     ebind (ebind (jindex flow ''timestamp_ms'') to_int64) (\<lambda>seen.
     ebind (ebind (jindex flow ''packets'') to_int64) (\<lambda>n.
     ebind (ebind (jindex flow ''bytes'') to_int64) (\<lambda>b.
       Inr (key, \<lparr>first_seen = first, last_seen = seen, flow_count = n, flow_octets = b,
         metadata = json_text L flow\<rparr>))))))"

text \<open>The inserts of one transaction, from the n-th statement on.\<close>

fun insert_flows :: "sql \<Rightarrow> json_lib \<Rightarrow> nat \<Rightarrow> json list \<Rightarrow> (string \<times> flow_row) list \<Rightarrow>
    (nat \<times> (string \<times> flow_row) list) result" where
  "insert_flows sql L n [] rows = Inr (n, rows)"
| "insert_flows sql L n (flow # fs) rows =
     ebind (flow_values L flow) (\<lambda>(key, row). case sql n of
       Some message \<Rightarrow> Inl (Runtime_error message)
     | None \<Rightarrow> insert_flows sql L (n + 1) fs (upsert key (add_flow row) row rows))"

definition max_stored_flows :: nat where
  "max_stored_flows = 10000"

definition expire :: "int \<Rightarrow> (string \<times> flow_row) list \<Rightarrow> (string \<times> flow_row) list" where
  "expire wall rows = filter (\<lambda>(k, r). \<not> last_seen r < (wall - 604800) * 1000) rows"

definition evict :: "flow_order \<Rightarrow> (string \<times> flow_row) list \<Rightarrow> (string \<times> flow_row) list" where
  "evict ord rows =
     (let old = map fst (drop max_stored_flows (ord rows)) in filter (\<lambda>(k, r). k \<notin> set old) rows)"

definition record_flows :: "sql \<Rightarrow> json_lib \<Rightarrow> flow_order \<Rightarrow> int \<Rightarrow> json list \<Rightarrow> store \<Rightarrow> unit result \<times> store" where
  "record_flows sql L ord wall fs db = (case sql 0 of
     Some message \<Rightarrow> (Inl (Runtime_error message), db)
   | None \<Rightarrow> (case insert_flows sql L 1 fs (flow_table db) of
       Inl e \<Rightarrow> (Inl e, db)
     | Inr (n, rows) \<Rightarrow> (case sql n of
         Some message \<Rightarrow> (Inl (Runtime_error message), db)
       | None \<Rightarrow> (Inr (), db\<lparr>flow_table := evict ord (expire wall rows)\<rparr>))))"

definition connection_row :: "json_lib \<Rightarrow> flow_row \<Rightarrow> json result" where
  "connection_row L r =
     ebind (parse_json L (c_str (metadata r))) (\<lambda>row.
       if row = JNull \<or> is_object row
       then Inr (jset (jset (jset (jset row ''first_seen'' (JInt (first_seen r))) ''last_seen'' (JInt (last_seen r)))
              ''packets'' (int_text (flow_count r))) ''bytes'' (int_text (flow_octets r)))
       else Inl Json_exception)"

fun connection_rows :: "json_lib \<Rightarrow> (string \<times> flow_row) list \<Rightarrow> json list result" where
  "connection_rows L [] = Inr []"
| "connection_rows L ((k, r) # rows) =
     ebind (connection_row L r) (\<lambda>v. ebind (connection_rows L rows) (\<lambda>vs. Inr (v # vs)))"

definition connections :: "sql \<Rightarrow> json_lib \<Rightarrow> flow_order \<Rightarrow> store \<Rightarrow> json result" where
  "connections sql L ord db = (case sql 0 of
     Some message \<Rightarrow> Inl (Runtime_error message)
   | None \<Rightarrow> ebind (connection_rows L (take 200 (ord (flow_table db)))) (\<lambda>rows. Inr (JArray rows)))"

section \<open>Statements\<close>

text \<open>A statement is answered by the message of the first of its calls that fails.\<close>

definition accepted_code :: "sqlite_code \<Rightarrow> bool" where
  "accepted_code c \<longleftrightarrow> fst c \<in> {0, 100, 101}"

lemma check_code_cases: "check_code c = (if accepted_code c then Inr () else Inl (Runtime_error (snd c)))"
  by (auto simp: check_code_def accepted_code_def)

lemma check_codes_find:
  "check_codes cs = (case find (\<lambda>c. \<not> accepted_code c) cs of None \<Rightarrow> Inr () | Some c \<Rightarrow> Inl (Runtime_error (snd c)))"
  by (induction cs) (simp_all add: check_code_cases)

lemma statement_answer_first_failure:
  "statement_answer prepare bindings step =
     map_option snd (find (\<lambda>c. \<not> accepted_code c) (prepare # bindings @ [step]))"
proof -
  have "find P (xs @ [y]) = (case find P xs of None \<Rightarrow> if P y then Some y else None | Some x \<Rightarrow> Some x)"
    for P and xs :: "sqlite_code list" and y
    by (induction xs) simp_all
  then show ?thesis
    by (simp add: statement_answer_def run_statement_def check_code_cases check_codes_find split: option.splits)
qed

section \<open>Tables\<close>

lemma map_of_upsert: "map_of (upsert k change new rows) j =
    (if j = k then Some (case map_of rows k of None \<Rightarrow> new | Some v \<Rightarrow> change v) else map_of rows j)"
  by (induction k change new rows rule: upsert.induct) auto

lemma fst_upsert: "fst ` set (upsert k change new rows) = insert k (fst ` set rows)"
  by (induction k change new rows rule: upsert.induct) auto

lemma unique_upsert: "unique_keys rows \<Longrightarrow> unique_keys (upsert k change new rows)"
proof (induction k change new rows rule: upsert.induct)
  case (2 k change new j v rows)
  then show ?case
    using fst_upsert [of k change new rows] by (auto simp: unique_keys_def)
qed (simp add: unique_keys_def)

lemma unique_filter: "unique_keys rows \<Longrightarrow> unique_keys (filter P rows)"
  by (simp add: unique_keys_def distinct_map_filter)

lemma map_of_filter:
  "unique_keys rows \<Longrightarrow> map_of (filter P rows) k = Some v \<longleftrightarrow> map_of rows k = Some v \<and> P (k, v)"
  using unique_filter [of rows P] by (auto simp: unique_keys_def)

section \<open>History\<close>

lemma sum_by_key:
  assumes "distinct ts" "\<forall>r \<in> set rows. g r \<in> set ts"
  shows "(\<Sum>t\<leftarrow>ts. \<Sum>r\<leftarrow>filter (\<lambda>r. g r = t) rows. f r) = (\<Sum>r\<leftarrow>rows. (f r :: int))"
  using assms(2)
proof (induction rows)
  case (Cons r rows)
  have "(\<Sum>t\<leftarrow>ts. if g r = t then f r else 0) = f r"
    using assms(1) Cons.prems by (simp add: sum_list_distinct_conv_sum_set)
  moreover have "(\<Sum>t\<leftarrow>ts. \<Sum>x\<leftarrow>filter (\<lambda>x. g x = t) (r # rows). f x) =
      (\<Sum>t\<leftarrow>ts. if g r = t then f r else 0) + (\<Sum>t\<leftarrow>ts. \<Sum>x\<leftarrow>filter (\<lambda>x. g x = t) rows. f x)"
    by (subst sum_list_addf [symmetric]) (rule arg_cong [of _ _ sum_list], rule map_cong, auto)
  ultimately show ?case using Cons by simp
qed simp

lemma buckets_facts:
  "distinct (buckets frm til interval db)" "sorted (buckets frm til interval db)"
  "set (buckets frm til interval db) = (bucket interval \<circ> fst) ` set (filter (in_range frm til) (samples db))"
  by (simp_all add: buckets_def)

lemma sdiv_near:
  assumes "0 < (i :: int)"
  shows "(t sdiv i) * i < t + i" "t - i < (t sdiv i) * i"
proof -
  have "\<bar>t\<bar> div i * i + \<bar>t\<bar> mod i = \<bar>t\<bar>" "0 \<le> \<bar>t\<bar> mod i" "\<bar>t\<bar> mod i < i"
    using assms by simp_all
  then have "\<bar>t\<bar> div i * i \<le> \<bar>t\<bar>" "\<bar>t\<bar> < \<bar>t\<bar> div i * i + i" by linarith+
  then show "(t sdiv i) * i < t + i" "t - i < (t sdiv i) * i"
    using assms by (auto simp: signed_divide_int_def sgn_if split: if_splits)
qed

lemma few_buckets:
  assumes "0 < interval" "til - frm \<le> 998 * interval"
  shows "length (buckets frm til interval db) \<le> 1000"
proof -
  let ?q = "(frm - interval) div interval"
  have "set (buckets frm til interval db) \<subseteq> (\<lambda>n. n * interval) ` {?q + 1 .. ?q + 1000}"
  proof
    fix b
    assume "b \<in> set (buckets frm til interval db)"
    then obtain t where t: "frm \<le> t" "t < til" "b = (t sdiv interval) * interval"
      by (auto simp: buckets_facts in_range_def bucket_def)
    have "frm - interval < (t sdiv interval) * interval"
      using sdiv_near(2) [OF assms(1), of t] t(1) by linarith
    moreover have "?q * interval \<le> frm - interval"
      using assms(1) div_mult_mod_eq [of "frm - interval" interval] pos_mod_sign [OF assms(1), of "frm - interval"]
      by linarith
    ultimately have "?q * interval < (t sdiv interval) * interval" by linarith
    then have lo: "?q < t sdiv interval" using assms(1) by simp
    have "(t sdiv interval) * interval < frm - interval + 1000 * interval"
      using sdiv_near(1) [OF assms(1), of t] t(2) assms(2) by linarith
    then have "(t sdiv interval) * interval div interval \<le> (frm - interval + 1000 * interval) div interval"
      using assms(1) by (intro zdiv_mono1) simp_all
    then have "t sdiv interval \<le> ?q + 1000"
      using assms(1) div_mult_self1 [of interval frm "-1"] by simp
    with lo t(3) show "b \<in> (\<lambda>n. n * interval) ` {?q + 1 .. ?q + 1000}" by auto
  qed
  then have "card (set (buckets frm til interval db)) \<le> card {?q + 1 .. ?q + 1000}"
    by (meson card_image_le card_mono finite_atLeastAtMost_int finite_imageI le_trans)
  then show ?thesis
    using distinct_card [OF buckets_facts(1)] by simp
qed

lemma history_total:
  assumes "0 < interval" "til - frm \<le> 998 * interval"
  shows "(\<Sum>(t, rows)\<leftarrow>history_buckets frm til interval db. sum_of f rows) =
    sum_of f (filter (in_range frm til) (samples db))"
proof -
  let ?ts = "buckets frm til interval db"
  let ?rows = "filter (in_range frm til) (samples db)"
  have "take history_limit ?ts = ?ts"
    using few_buckets [OF assms] by (simp add: history_limit_def)
  then have "(\<Sum>(t, rows)\<leftarrow>history_buckets frm til interval db. sum_of f rows) =
      (\<Sum>t\<leftarrow>?ts. \<Sum>r\<leftarrow>filter (\<lambda>r. bucket interval (fst r) = t) ?rows. f (snd r))"
    by (simp add: history_buckets_def bucket_rows_def sum_of_def comp_def)
  also have "\<dots> = (\<Sum>r\<leftarrow>?rows. f (snd r))"
    by (rule sum_by_key [OF buckets_facts(1)]) (auto simp: buckets_facts)
  finally show ?thesis by (simp add: sum_of_def)
qed

lemma sum_of_length: "sum_of (\<lambda>_. 1) rows = int (length rows)"
  by (simp add: sum_of_def sum_list_triv)

text \<open>
  What a bucket is, apart from the way it is computed: the multiple of the interval next to a time on the
  side of zero. For times after 1970 it is the start of the interval the time lies in.
\<close>

definition lies_in :: "int \<Rightarrow> int \<Rightarrow> int \<Rightarrow> bool" where
  "lies_in interval t ts \<longleftrightarrow> interval dvd t \<and>
     (if 0 \<le> ts then t \<le> ts \<and> ts < t + interval else t \<le> 0 \<and> ts \<le> t \<and> t < ts + interval)"

lemma dvd_near:
  assumes "(i :: int) dvd a" "i dvd b" "\<bar>a - b\<bar> < i"
  shows "a = b"
proof -
  have "i dvd a - b" using assms(1,2) by simp
  then have "a - b = 0" using assms(3) zdvd_imp_le [of i "\<bar>a - b\<bar>"] by (cases "a - b = 0") auto
  then show ?thesis by simp
qed

lemma bucket_lies_in:
  assumes "0 < interval"
  shows "lies_in interval (bucket interval ts) ts"
proof -
  have "\<bar>ts\<bar> div interval * interval + \<bar>ts\<bar> mod interval = \<bar>ts\<bar>" "0 \<le> \<bar>ts\<bar> mod interval" "\<bar>ts\<bar> mod interval < interval"
    using assms by simp_all
  then have near: "\<bar>ts\<bar> div interval * interval \<le> \<bar>ts\<bar>" "\<bar>ts\<bar> < \<bar>ts\<bar> div interval * interval + interval"
    by linarith+
  have "0 \<le> \<bar>ts\<bar> div interval * interval" using assms by (simp add: pos_imp_zdiv_nonneg_iff)
  then show ?thesis
    using assms near by (auto simp: lies_in_def bucket_def signed_divide_int_def sgn_if)
qed

lemma bucket_eq_iff: "0 < interval \<Longrightarrow> bucket interval ts = t \<longleftrightarrow> lies_in interval t ts"
proof
  assume i: "0 < interval" and t: "lies_in interval t ts"
  note b = bucket_lies_in [OF i, of ts]
  have "\<bar>bucket interval ts - t\<bar> < interval"
    using b t by (auto simp: lies_in_def split: if_splits)
  with b t show "bucket interval ts = t" by (intro dvd_near) (auto simp: lies_in_def)
qed (use bucket_lies_in in blast)

text \<open>What a row of the answer says of a bucket with the samples \<open>rs\<close>.\<close>

definition describes :: "json_number \<Rightarrow> json \<Rightarrow> int \<times> (int \<times> sample_row) list \<Rightarrow> bool" where
  "describes extract j row \<longleftrightarrow> (case row of (t, rs) \<Rightarrow>
     jfield j ''timestamp'' = JInt t \<and>
     jfield j ''packets'' = JString (to_string_int (\<Sum>(ts, r)\<leftarrow>rs. row_packets r)) \<and>
     jfield j ''wire_bytes'' = JString (to_string_int (\<Sum>(ts, r)\<leftarrow>rs. row_bytes r)) \<and>
     jfield j ''samples'' = JInt (int (length rs)) \<and>
     (\<forall>name \<in> {''tcp'', ''udp'', ''icmp'', ''other''}. jfield (jfield j ''protocols'') name =
        JString (to_string_int (\<Sum>(ts, r)\<leftarrow>rs. extract (row_details r) name))))"

lemma history_row_describes: "describes extract (history_row extract t rs) (t, rs)"
  by (simp add: describes_def history_row_def int_text_def sum_of_def case_prod_unfold Let_def)

lemma dropped_later:
  assumes "sorted (ts :: int list)" "distinct ts" "b \<in> set ts" "b \<notin> set (take n ts)" "t \<in> set (take n ts)"
  shows "t < b \<and> n < length ts"
proof -
  have split: "ts = take n ts @ drop n ts" by simp
  have "b \<in> set (drop n ts)" using assms(3,4) split by (metis Un_iff set_append)
  moreover have "\<forall>x \<in> set (take n ts). \<forall>y \<in> set (drop n ts). x \<le> y"
    using assms(1) split by (metis sorted_append)
  moreover have "t \<noteq> b" using assms(4,5) by blast
  ultimately show ?thesis using assms(5) by (cases "n < length ts") fastforce+
qed

text \<open>
  C35. History. For every accepted request, the answer has at most 1000 rows, one for each bucket that has
  samples in the range, in ascending order of their times. Each row gives the packets, bytes, protocol
  counts and number of exactly the stored samples of the range that lie in its bucket. A sample of the
  range that no row counts lies in a bucket after all 1000 rows of a full answer; and there is none, so the
  rows add up to all samples of the range, when the range is at most 998 intervals long (as every
  accepted range at interval 3600 is).
\<close>

theorem history_accounts_for_samples:
  assumes "store_history sql extract frm til interval db = Inr v"
  shows "\<exists>js rows. v = JArray js \<and> list_all2 (describes extract) js rows \<and>
    length rows \<le> 1000 \<and> sorted_wrt (<) (map fst rows) \<and>
    (\<forall>(t, rs) \<in> set rows. rs \<noteq> [] \<and>
       rs = filter (\<lambda>(ts, r). frm \<le> ts \<and> ts < til \<and> lies_in interval t ts) (samples db)) \<and>
    (\<forall>(ts, r) \<in> set (samples db). frm \<le> ts \<and> ts < til \<longrightarrow>
       (\<exists>(t, rs) \<in> set rows. (ts, r) \<in> set rs) \<or>
       length rows = 1000 \<and> \<not> til - frm \<le> 998 * interval \<and>
       (\<exists>b. lies_in interval b ts \<and> (\<forall>t \<in> fst ` set rows. t < b))) \<and>
    (til - frm \<le> 998 * interval \<longrightarrow>
       (\<Sum>(t, rs)\<leftarrow>rows. sum_of row_packets rs) = sum_of row_packets (filter (in_range frm til) (samples db)) \<and>
       (\<Sum>(t, rs)\<leftarrow>rows. sum_of row_bytes rs) = sum_of row_bytes (filter (in_range frm til) (samples db)) \<and>
       (\<Sum>(t, rs)\<leftarrow>rows. int (length rs)) = int (length (filter (in_range frm til) (samples db))))"
proof -
  let ?rows = "history_buckets frm til interval db" and ?bs = "buckets frm til interval db"
  have ok: "\<not> history_refused frm til interval"
    and v: "v = JArray (map (\<lambda>(t, rs). history_row extract t rs) ?rows)"
    using assms by (auto simp: store_history_def split: if_splits option.splits)
  have i: "0 < interval" using ok by (auto simp: history_refused_def)
  have times: "map fst ?rows = take 1000 ?bs"
    by (simp add: history_buckets_def history_limit_def comp_def)
  have row: "rs = bucket_rows frm til interval db t \<and> t \<in> set ?bs" if "(t, rs) \<in> set ?rows" for t rs
    using that set_take_subset [of history_limit ?bs] by (auto simp: history_buckets_def)
  have content: "bucket_rows frm til interval db t =
      filter (\<lambda>(ts, r). frm \<le> ts \<and> ts < til \<and> lies_in interval t ts) (samples db)" for t
    by (simp add: bucket_rows_def bucket_eq_iff [OF i] in_range_def case_prod_unfold conj_ac)
  have "describes extract (case p of (t, rs) \<Rightarrow> history_row extract t rs) p" for p
    by (cases p) (simp add: history_row_describes)
  then have "list_all2 (describes extract) (map (\<lambda>(t, rs). history_row extract t rs) ?rows) ?rows"
    by (simp add: list_all2_map1 list_all2_same)
  moreover have "length ?rows \<le> 1000" by (simp add: history_buckets_def history_limit_def)
  moreover have "sorted_wrt (<) (map fst ?rows)"
    unfolding times using buckets_facts(1,2) [of frm til interval db]
    by (simp add: strict_sorted_iff sorted_wrt_take)
  moreover have "\<forall>(t, rs) \<in> set ?rows. rs \<noteq> [] \<and>
       rs = filter (\<lambda>(ts, r). frm \<le> ts \<and> ts < til \<and> lies_in interval t ts) (samples db)"
  proof (clarify, intro conjI)
    fix t rs
    assume "(t, rs) \<in> set ?rows"
    note r = row [OF this]
    from r content show "rs = filter (\<lambda>(ts, r). frm \<le> ts \<and> ts < til \<and> lies_in interval t ts) (samples db)" by simp
    from r show "rs \<noteq> []" by (auto simp: buckets_facts bucket_rows_def filter_empty_conv)
  qed
  moreover have "\<forall>(ts, r) \<in> set (samples db). frm \<le> ts \<and> ts < til \<longrightarrow>
       (\<exists>(t, rs) \<in> set ?rows. (ts, r) \<in> set rs) \<or>
       length ?rows = 1000 \<and> \<not> til - frm \<le> 998 * interval \<and>
       (\<exists>b. lies_in interval b ts \<and> (\<forall>t \<in> fst ` set ?rows. t < b))"
  proof (clarify)
    fix ts r
    assume s: "(ts, r) \<in> set (samples db)" "frm \<le> ts" "ts < til"
    let ?b = "bucket interval ts"
    have b: "?b \<in> set ?bs" using s by (force simp: buckets_facts in_range_def)
    assume left: "\<not> (length ?rows = 1000 \<and> \<not> til - frm \<le> 998 * interval \<and>
       (\<exists>b. lies_in interval b ts \<and> (\<forall>t \<in> fst ` set ?rows. t < b)))"
    have "?b \<in> set (take 1000 ?bs)"
    proof (rule ccontr)
      assume out: "?b \<notin> set (take 1000 ?bs)"
      note later = dropped_later [OF buckets_facts(2,1) b out]
      have "fst ` set ?rows = set (take 1000 ?bs)" using times by (metis list.set_map)
      then have "\<forall>t \<in> fst ` set ?rows. t < ?b" using later by simp
      moreover have long: "1000 < length ?bs"
        using out b by (metis not_less take_all)
      moreover have "length ?rows = 1000" using long by (simp add: history_buckets_def history_limit_def)
      moreover have "\<not> til - frm \<le> 998 * interval" using few_buckets [OF i, of til frm db] long by linarith
      ultimately show False using left bucket_lies_in [OF i] by blast
    qed
    then have "(?b, bucket_rows frm til interval db ?b) \<in> set ?rows"
      by (simp add: history_buckets_def history_limit_def)
    moreover have "(ts, r) \<in> set (bucket_rows frm til interval db ?b)"
      using s by (simp add: bucket_rows_def in_range_def)
    ultimately show "\<exists>(t, rs) \<in> set ?rows. (ts, r) \<in> set rs" by blast
  qed
  moreover have "til - frm \<le> 998 * interval \<longrightarrow>
       (\<Sum>(t, rs)\<leftarrow>?rows. sum_of row_packets rs) = sum_of row_packets (filter (in_range frm til) (samples db)) \<and>
       (\<Sum>(t, rs)\<leftarrow>?rows. sum_of row_bytes rs) = sum_of row_bytes (filter (in_range frm til) (samples db)) \<and>
       (\<Sum>(t, rs)\<leftarrow>?rows. int (length rs)) = int (length (filter (in_range frm til) (samples db)))"
    using history_total [OF i, of til frm _ db] history_total [OF i, of til frm "\<lambda>_. 1" db] by (simp add: sum_of_length)
  ultimately show ?thesis using v by blast
qed

text \<open>
  On a longer range the limit of 1000 rows cuts the answer off, without a sign: seven days at interval
  300 have 2016 buckets.
\<close>

definition week_of_samples :: store where
  "week_of_samples = \<lparr>settings = [],
     samples = map (\<lambda>n. (300 * int n, \<lparr>row_packets = 1, row_bytes = 60, row_details = []\<rparr>)) [0..<2016],
     flow_table = []\<rparr>"

lemma bucket_multiple: "bucket 300 (300 * int n) = 300 * int n"
  by (cases n) (simp_all add: bucket_def signed_divide_int_def sgn_if)

theorem history_cut_off:
  "\<not> history_refused 0 604800 300 \<and> length (buckets 0 604800 300 week_of_samples) = 2016 \<and>
   length (history_buckets 0 604800 300 week_of_samples) = 1000"
proof -
  have rows: "filter (in_range 0 604800) (samples week_of_samples) = samples week_of_samples"
    by (auto simp: filter_id_conv week_of_samples_def in_range_def)
  have keys: "map (bucket 300 \<circ> fst) (samples week_of_samples) = map (\<lambda>n. 300 * int n) [0..<2016]"
    by (simp add: week_of_samples_def bucket_multiple comp_def)
  have "distinct (map (\<lambda>n. 300 * int n) [0..<2016])"
    by (simp add: distinct_map inj_on_def)
  then have once: "remdups (map (\<lambda>n. 300 * int n) [0..<2016]) = map (\<lambda>n. 300 * int n) [0..<2016]"
    by (rule distinct_remdups_id)
  have n: "length (buckets 0 604800 300 week_of_samples) = 2016"
    unfolding buckets_def rows keys once by simp
  then show ?thesis
    by (simp add: history_refused_def history_buckets_def history_limit_def)
qed

text \<open>The difference of the bounds is computed in 64 bits, and the check does not see it overflow.\<close>

lemma history_range_wraps: "\<not> history_refused (- (2 ^ 63)) (2 ^ 63 - 1) 60"
  by (simp add: history_refused_def)

section \<open>Samples\<close>

text \<open>
  Two samples in the same second: packets and bytes add up, the protocol counts of the first are lost.
\<close>

theorem same_second_details_lost:
  assumes "save_sample (\<lambda>_. None) L ts n b details db = (Inr (), db1)"
    and "save_sample (\<lambda>_. None) L ts n' b' details' db1 = (Inr (), db2)" "map_of (samples db) ts = None"
    "unique_keys (samples db)"
  shows "map_of (samples db2) ts = Some \<lparr>row_packets = sint n + sint n', row_bytes = sint b + sint b',
    row_details = json_text L details'\<rparr>"
proof -
  have db1: "db1 = db\<lparr>samples := filter (\<lambda>(t, r). \<not> t < ts - retention)
      (upsert ts (add_sample \<lparr>row_packets = sint n, row_bytes = sint b, row_details = json_text L details\<rparr>)
        \<lparr>row_packets = sint n, row_bytes = sint b, row_details = json_text L details\<rparr> (samples db))\<rparr>"
    using assms(1) by (simp add: save_sample_def Let_def)
  have u: "unique_keys (samples db1)"
    unfolding db1 using assms(4) by (simp add: unique_filter unique_upsert)
  have "map_of (samples db1) ts = Some \<lparr>row_packets = sint n, row_bytes = sint b, row_details = json_text L details\<rparr>"
    unfolding db1 using assms(3,4) by (simp add: map_of_filter unique_upsert map_of_upsert retention_def)
  then show ?thesis
    using assms(2) u
    by (auto simp: save_sample_def Let_def map_of_filter unique_upsert map_of_upsert retention_def add_sample_def)
qed

section \<open>Recording flows\<close>

lemma insert_flows_Inr:
  "insert_flows sql L n fs rows = Inr (m, rows') \<Longrightarrow>
   \<exists>vals. map (flow_values L) fs = map Inr vals \<and>
     rows' = fold (\<lambda>(k, r). upsert k (add_flow r) r) vals rows"
proof (induction sql L n fs rows rule: insert_flows.induct)
  case (2 sql L n flow fs rows)
  obtain key row where v: "flow_values L flow = Inr (key, row)" "sql n = None"
    "insert_flows sql L (n + 1) fs (upsert key (add_flow row) row rows) = Inr (m, rows')"
    using "2.prems" by (auto simp: exn_simps split: option.splits)
  obtain vals where vals: "map (flow_values L) fs = map Inr vals"
    "rows' = fold (\<lambda>(k, r). upsert k (add_flow r) r) vals (upsert key (add_flow row) row rows)"
    using "2.IH" [OF v(2,3)] by blast
  then have "map (flow_values L) (flow # fs) = map Inr ((key, row) # vals) \<and>
      rows' = fold (\<lambda>(k, r). upsert k (add_flow r) r) ((key, row) # vals) rows"
    using v(1) by simp
  then show ?case by blast
qed simp

text \<open>The totals of a key, zero when it has no row.\<close>

definition key_total :: "(flow_row \<Rightarrow> int) \<Rightarrow> string \<Rightarrow> (string \<times> flow_row) list \<Rightarrow> int" where
  "key_total f k rows = (case map_of rows k of None \<Rightarrow> 0 | Some r \<Rightarrow> f r)"

definition new_total :: "(flow_row \<Rightarrow> int) \<Rightarrow> string \<Rightarrow> (string \<times> flow_row) list \<Rightarrow> int" where
  "new_total f k vals = (\<Sum>(j, r)\<leftarrow>filter (\<lambda>(j, r). j = k) vals. f r)"

lemma inserted_totals:
  assumes "f \<in> {flow_count, flow_octets}"
  shows "key_total f k (fold (\<lambda>(k, r). upsert k (add_flow r) r) vals rows) =
    key_total f k rows + new_total f k vals"
proof (induction vals arbitrary: rows)
  case (Cons v vals)
  obtain j r where v: "v = (j, r)" by (cases v)
  have "key_total f k (upsert j (add_flow r) r rows) = key_total f k rows + (if j = k then f r else 0)"
    using assms by (auto simp: key_total_def map_of_upsert add_flow_def split: option.splits)
  then show ?case
    using Cons [of "upsert j (add_flow r) r rows"] v by (simp add: new_total_def)
qed (simp add: new_total_def)

lemma unique_fold_upsert:
  "unique_keys rows \<Longrightarrow> unique_keys (fold (\<lambda>(k, r). upsert k (add_flow r) r) vals rows)"
  by (induction vals arbitrary: rows) (auto simp: unique_upsert)

lemma evict_take:
  assumes "unique_keys rows" "orders_newest ord"
  shows "mset (evict ord rows) = mset (take max_stored_flows (ord rows))"
proof -
  let ?s = "ord rows" and ?P = "\<lambda>(k, r). k \<notin> set (map fst (drop max_stored_flows (ord rows)))"
  have m: "mset ?s = mset rows" using assms(2) by (simp add: orders_newest_def std_sort_def)
  then have "distinct (map fst ?s)"
    using assms(1) unfolding unique_keys_def by (metis mset_eq_imp_distinct_iff mset_map)
  then have "distinct (map fst (take max_stored_flows ?s) @ map fst (drop max_stored_flows ?s))"
    by (metis append_take_drop_id map_append)
  then have "\<forall>x \<in> set (take max_stored_flows ?s). fst x \<notin> set (map fst (drop max_stored_flows ?s))"
    by auto
  then have "filter ?P (take max_stored_flows ?s) = take max_stored_flows ?s"
    by (simp add: filter_id_conv case_prod_unfold)
  moreover have "filter ?P (drop max_stored_flows ?s) = []"
    by (force simp: filter_empty_conv)
  moreover have "filter ?P ?s = filter ?P (take max_stored_flows ?s) @ filter ?P (drop max_stored_flows ?s)"
    by (metis append_take_drop_id filter_append)
  ultimately have "filter ?P ?s = take max_stored_flows ?s" by simp
  moreover have "mset (evict ord rows) = mset (filter ?P ?s)"
    unfolding evict_def Let_def by (simp add: m)
  ultimately show ?thesis by simp
qed

lemma evict_length:
  assumes "unique_keys rows" "orders_newest ord"
  shows "length (evict ord rows) \<le> max_stored_flows"
  using mset_eq_length [OF evict_take [OF assms]] by simp

text \<open>A row is evicted only from a full table.\<close>

lemma evict_keeps:
  assumes "unique_keys rows" "orders_newest ord" "map_of rows k = Some row"
    and "length (evict ord rows) < max_stored_flows"
  shows "map_of (evict ord rows) k = Some row"
proof -
  have "length (take max_stored_flows (ord rows)) < max_stored_flows"
    using assms(4) mset_eq_length [OF evict_take [OF assms(1,2)]] by simp
  then have "drop max_stored_flows (ord rows) = []" by simp
  then have "evict ord rows = rows" by (simp add: evict_def case_prod_unfold)
  then show ?thesis using assms(3) by simp
qed

section \<open>A period of capture in the database\<close>

definition summary_row :: "json_lib \<Rightarrow> string \<Rightarrow> string \<Rightarrow> PacketMetadata list \<Rightarrow> flow_row" where
  "summary_row L iface k ps = \<lparr>first_seen = millis (timestamp (hd ps)), last_seen = millis (timestamp (last ps)),
     flow_count = int (length ps), flow_octets = total_bytes ps, metadata = json_text L (flow_summary iface k ps)\<rparr>"

lemma summary_values:
  assumes "ps \<noteq> []" "length ps \<le> max_batch" "\<forall>p \<in> set ps. int64 (millis (timestamp p))"
  shows "flow_values L (flow_summary iface k ps) = Inr (k, summary_row L iface k ps)"
proof -
  have "jfield (flow_summary iface k ps) ''key'' = JString k"
    "jfield (flow_summary iface k ps) ''timestamp_ms'' = JInt (millis (timestamp (last ps)))"
    by (simp_all add: flow_summary_def)
  moreover have "int64 (millis (timestamp (hd ps)))" "int64 (millis (timestamp (last ps)))"
    using assms(1,3) by simp_all
  ultimately show ?thesis
    using small_numbers [OF assms(2)]
    by (simp add: flow_values_def to_int64_in_range summary_row_def del: to_int64.simps)
qed

definition packets_of :: "string \<Rightarrow> string \<Rightarrow> PacketMetadata list \<Rightarrow> PacketMetadata list" where
  "packets_of iface k ps = filter (\<lambda>p. with_address p \<and> key_of iface p = k) ps"

lemma recorded_flow:
  assumes "sampled iface ps a" "map_of (flows a) k = Some f"
  shows "f = flow_summary iface k (packets_of iface k ps)" "packets_of iface k ps \<noteq> []"
proof -
  have "filter (\<lambda>p. key_of iface p = k) (filter with_address ps) = packets_of iface k ps"
    by (simp add: packets_of_def conj_commute)
  then show "f = flow_summary iface k (packets_of iface k ps)" "packets_of iface k ps \<noteq> []"
    using assms tracksD(1) [of "key_of iface" _ _ "map_of (flows a)" "filter with_address ps" k f]
    by (auto simp: sampled_def flows_exact_def hist_def)
qed

lemma recorded_values:
  assumes "sampled iface ps a" "length ps \<le> max_batch" "\<forall>p \<in> set ps. int64 (millis (timestamp p))"
  shows "map (flow_values L) (map snd (flows a)) =
    map Inr (map (\<lambda>(k, f). (k, summary_row L iface k (packets_of iface k ps))) (flows a))"
proof -
  have "distinct (map fst (flows a))"
    using assms(1) by (simp add: sampled_def flows_exact_def keys_ordered_distinct)
  moreover have "flow_values L f = Inr (k, summary_row L iface k (packets_of iface k ps))"
    if "map_of (flows a) k = Some f" for k f
  proof -
    have "length (packets_of iface k ps) \<le> max_batch"
      using assms(2) length_filter_le unfolding packets_of_def by (rule order_trans [rotated])
    moreover have "\<forall>p \<in> set (packets_of iface k ps). int64 (millis (timestamp p))"
      using assms(3) by (simp add: packets_of_def)
    ultimately show ?thesis
      using recorded_flow [OF assms(1) that] summary_values by metis
  qed
  ultimately show ?thesis by auto
qed

lemma new_total_map:
  assumes "distinct (map fst m)"
  shows "new_total f k (map (\<lambda>(k, v). (k, g k)) m) = (case map_of m k of None \<Rightarrow> 0 | Some v \<Rightarrow> f (g k))"
  using assms
proof (induction m)
  case (Cons x m)
  obtain j v where x: "x = (j, v)" by (cases x)
  show ?case
  proof (cases "j = k")
    case True
    then have "map_of m k = None" using Cons.prems x by (simp add: map_of_eq_None_iff)
    then show ?thesis using Cons True x by (simp add: new_total_def)
  next
    case False
    then show ?thesis using Cons x by (simp add: new_total_def)
  qed
qed (simp add: new_total_def)

lemma fold_upsert_other:
  "k \<notin> fst ` set vals \<Longrightarrow> map_of (fold (\<lambda>(k, r). upsert k (add_flow r) r) vals rows) k = map_of rows k"
  by (induction vals arbitrary: rows) (auto simp: map_of_upsert)

lemma record_flows_result:
  assumes "record_flows sql L ord wall fs db = (res, db')"
  obtains e where "res = Inl e" "db' = db"
    | vals where "res = Inr ()" "map (flow_values L) fs = map Inr vals"
      "db' = db\<lparr>flow_table := evict ord (expire wall (fold (\<lambda>(k, r). upsert k (add_flow r) r) vals (flow_table db)))\<rparr>"
proof (cases "sql 0")
  case (Some message)
  then have "res = Inl (Runtime_error message)" "db' = db" using assms by (simp_all add: record_flows_def)
  then show ?thesis by (rule that(1))
next
  case begin_ok: None
  show ?thesis
  proof (cases "insert_flows sql L 1 fs (flow_table db)")
    case (Inl e)
    then have "res = Inl e" "db' = db" using assms begin_ok by (simp_all add: record_flows_def)
    then show ?thesis by (rule that(1))
  next
    case (Inr x)
    obtain n rows where x: "x = (n, rows)" by (cases x)
    obtain vals where vals: "map (flow_values L) fs = map Inr vals"
      "rows = fold (\<lambda>(k, r). upsert k (add_flow r) r) vals (flow_table db)"
      using insert_flows_Inr [OF Inr [unfolded x]] by blast
    show ?thesis
    proof (cases "sql n")
      case None
      then have "res = Inr ()" "db' = db\<lparr>flow_table := evict ord (expire wall rows)\<rparr>"
        using assms begin_ok Inr x by (simp_all add: record_flows_def)
      then show ?thesis using that(2) [OF _ vals(1)] vals(2) by simp
    next
      case (Some message)
      then have "res = Inl (Runtime_error message)" "db' = db"
        using assms begin_ok Inr x by (simp_all add: record_flows_def)
      then show ?thesis by (rule that(1))
    qed
  qed
qed

lemma retained_row:
  assumes "unique_keys rows" "map_of (evict ord (expire wall rows)) k = Some row"
  shows "map_of rows k = Some row \<and> (wall - 604800) * 1000 \<le> last_seen row"
  using assms unique_filter [OF assms(1)] by (auto simp: evict_def expire_def map_of_filter Let_def)

lemma recent_row_retained:
  assumes "unique_keys rows" "orders_newest ord" "length (evict ord (expire wall rows)) < max_stored_flows"
    and "map_of rows k = Some row" "(wall - 604800) * 1000 \<le> last_seen row"
  shows "map_of (evict ord (expire wall rows)) k = Some row"
proof (rule evict_keeps [OF _ assms(2) _ assms(3)])
  show "unique_keys (expire wall rows)" unfolding expire_def by (rule unique_filter [OF assms(1)])
  show "map_of (expire wall rows) k = Some row"
    using assms(4,5) unfolding expire_def by (simp add: map_of_filter [OF assms(1)])
qed

text \<open>One row for each key inserted: a key's totals grow by its row, other keys keep theirs.\<close>

lemma inserted_row:
  assumes "distinct (map fst m)" "vals = map (\<lambda>(k, v). (k, g k)) m"
    and "map_of (fold (\<lambda>(k, r). upsert k (add_flow r) r) vals rows) k = Some row"
  shows "case map_of m k of None \<Rightarrow> map_of rows k = Some row
    | Some v \<Rightarrow> flow_count row = key_total flow_count k rows + flow_count (g k) \<and>
        flow_octets row = key_total flow_octets k rows + flow_octets (g k)"
proof (cases "map_of m k")
  case None
  then have "k \<notin> fst ` set vals" unfolding assms(2) by (force simp: map_of_eq_None_iff)
  from fold_upsert_other [OF this, of rows] show ?thesis using None assms(3) by simp
next
  case (Some v)
  have "f row = key_total f k rows + f (g k)" if "f \<in> {flow_count, flow_octets}" for f
    using inserted_totals [OF that, of k vals rows] assms(3) Some new_total_map [OF assms(1), of f k g]
    unfolding assms(2) by (simp add: key_total_def)
  then show ?thesis using Some by simp
qed

lemma inserted_seen:
  assumes "distinct (map fst m)" "map_of m k = Some v"
  shows "\<exists>row. map_of (fold (\<lambda>(k, r). upsert k (add_flow r) r) (map (\<lambda>(k, v). (k, g k)) m) rows) k = Some row \<and>
    last_seen row = last_seen (g k)"
  using assms
proof (induction m arbitrary: rows)
  case (Cons x m)
  obtain j w where x: "x = (j, w)" by (cases x)
  show ?case
  proof (cases "j = k")
    case True
    then have "k \<notin> fst ` set (map (\<lambda>(k, v). (k, g k)) m)" using Cons.prems(1) x by force
    from fold_upsert_other [OF this] show ?thesis
      using True x by (simp add: map_of_upsert) (simp add: add_flow_def split: option.splits)
  next
    case False
    then show ?thesis using Cons x by simp
  qed
qed simp

lemma period_rows:
  assumes "sampled iface ps a" "length ps \<le> max_batch" "\<forall>p \<in> set ps. int64 (millis (timestamp p))"
    and "map (flow_values L) (map snd (flows a)) = map Inr vals"
  shows "vals = map (\<lambda>(k, f). (k, summary_row L iface k (packets_of iface k ps))) (flows a)"
  using trans [OF assms(4) [symmetric] recorded_values [OF assms(1-3), of L]]
  by (simp only: inj_map_eq_map [OF inj_Inr])

text \<open>
  What a period with the packets \<open>ps\<close> and the recorded connections \<open>ks\<close> does to the table, at the time \<open>wall\<close>: at
  most 10000 connections are left, none last seen more than seven days ago; the totals of a connection of
  the period have grown by exactly its packets and bytes, every other connection is as before, and no
  recent one is missing unless the table is full.
\<close>

definition accounts_for :: "string \<Rightarrow> PacketMetadata list \<Rightarrow> string set \<Rightarrow> int \<Rightarrow>
    (string \<times> flow_row) list \<Rightarrow> (string \<times> flow_row) list \<Rightarrow> bool" where
  "accounts_for iface ps ks wall old new \<longleftrightarrow> length new \<le> 10000 \<and>
     (\<forall>k row. map_of new k = Some row \<longrightarrow> (wall - 604800) * 1000 \<le> last_seen row \<and>
       (if k \<in> ks
        then flow_count row = key_total flow_count k old + int (length (packets_of iface k ps)) \<and>
          flow_octets row = key_total flow_octets k old + total_bytes (packets_of iface k ps)
        else map_of old k = Some row)) \<and>
     (length new < 10000 \<longrightarrow>
       (\<forall>k \<in> ks. (wall - 604800) * 1000 \<le> millis (timestamp (last (packets_of iface k ps))) \<longrightarrow>
          (\<exists>row. map_of new k = Some row)) \<and>
       (\<forall>k row. k \<notin> ks \<and> map_of old k = Some row \<and> (wall - 604800) * 1000 \<le> last_seen row \<longrightarrow>
          map_of new k = Some row))"

lemma stored_period:
  assumes "sample_batches L iface pss (no_aggregates\<lparr>recent := r\<rparr>) = Inr a"
    and "length (concat pss) \<le> max_batch" "\<forall>q \<in> set (concat pss). int64 (millis (timestamp q))"
    "length r \<le> max_recent"
    and "record_flows sql L ord wall (map snd (flows a)) db = (res, db')"
    "unique_keys (flow_table db)" "orders_newest ord"
  shows "(res \<noteq> Inr () \<longrightarrow> db' = db) \<and>
    (res = Inr () \<longrightarrow> settings db' = settings db \<and> samples db' = samples db \<and>
      accounts_for iface (concat pss) (dom (map_of (flows a))) wall (flow_table db) (flow_table db'))"
  using assms(5)
proof (cases rule: record_flows_result)
  case (1 e)
  then show ?thesis by simp
next
  case (2 vals)
  have ok: "sampled iface (concat pss) a"
    using sample_batches_start [OF assms(2-4), of L iface] assms(1) by simp
  have keys: "distinct (map fst (flows a))"
    using ok by (simp add: sampled_def flows_exact_def keys_ordered_distinct)
  let ?t = "fold (\<lambda>(k, r). upsert k (add_flow r) r) vals (flow_table db)"
  have u: "unique_keys ?t" by (rule unique_fold_upsert [OF assms(6)])
  have row: "map_of ?t k = Some row \<and> (wall - 604800) * 1000 \<le> last_seen row"
    if "map_of (flow_table db') k = Some row" for k row
    using retained_row [OF u] that 2(3) by simp
  have totals: "if k \<in> dom (map_of (flows a))
      then flow_count row = key_total flow_count k (flow_table db) + int (length (packets_of iface k (concat pss))) \<and>
        flow_octets row = key_total flow_octets k (flow_table db) + total_bytes (packets_of iface k (concat pss))
      else map_of (flow_table db) k = Some row"
    if "map_of (flow_table db') k = Some row" for k row
    using inserted_row [OF keys period_rows [OF ok assms(2,3) 2(2)], of "flow_table db" k row] row [OF that]
    by (cases "map_of (flows a) k") (auto simp: summary_row_def)
  have small: "length (flow_table db') \<le> 10000" "settings db' = settings db" "samples db' = samples db"
    using evict_length [OF unique_filter [OF u] assms(7)] 2(3) by (simp_all add: expire_def max_stored_flows_def)
  have kept: "map_of (flow_table db') k = Some row"
    if "length (flow_table db') < 10000" "map_of ?t k = Some row" "(wall - 604800) * 1000 \<le> last_seen row" for k row
    using recent_row_retained [OF u assms(7), of wall k row] that 2(3) by (simp add: max_stored_flows_def)
  have vals: "vals = map (\<lambda>(k, f). (k, summary_row L iface k (packets_of iface k (concat pss)))) (flows a)"
    by (rule period_rows [OF ok assms(2,3) 2(2)])
  have new: "\<exists>row. map_of (flow_table db') k = Some row"
    if room: "length (flow_table db') < 10000" and f: "map_of (flows a) k = Some f"
      and seen: "(wall - 604800) * 1000 \<le> millis (timestamp (last (packets_of iface k (concat pss))))" for k f
  proof -
    obtain row where "map_of ?t k = Some row" "last_seen row = millis (timestamp (last (packets_of iface k (concat pss))))"
      using inserted_seen [OF keys f, of "\<lambda>k. summary_row L iface k (packets_of iface k (concat pss))" "flow_table db"]
      unfolding vals by (auto simp: summary_row_def)
    then show ?thesis using kept [OF room] seen by auto
  qed
  have old: "map_of (flow_table db') k = Some row"
    if "length (flow_table db') < 10000" "map_of (flows a) k = None" "map_of (flow_table db) k = Some row"
      "(wall - 604800) * 1000 \<le> last_seen row" for k row
  proof -
    have "k \<notin> fst ` set vals" unfolding vals using that(2) by (force simp: map_of_eq_None_iff)
    from trans [OF fold_upsert_other [OF this] that(3)] have "map_of ?t k = Some row" .
    then show ?thesis by (rule kept [OF that(1) _ that(4)])
  qed
  have "accounts_for iface (concat pss) (dom (map_of (flows a))) wall (flow_table db) (flow_table db')"
    unfolding accounts_for_def using small(1) row totals new old by blast
  then show ?thesis using 2(1) small(2,3) by blast
qed

section \<open>Settings\<close>

text \<open>
  A setting is read back as it was written, provided the JSON library reads its own text back; a
  failed write changes nothing, and other settings are not touched.
\<close>

theorem settings_roundtrip:
  assumes "store_put sql L key v db = (res, db')" "parse_json L (c_str (json_text L v)) = Inr v"
  shows "(res = Inr () \<longrightarrow> store_lookup (\<lambda>_. None) L key db' = Inr v) \<and>
    (res \<noteq> Inr () \<longrightarrow> db' = db) \<and>
    (\<forall>j. j \<noteq> key \<longrightarrow> store_lookup sql' L j db' = store_lookup sql' L j db)"
  using assms
  by (auto simp: store_put_def store_lookup_def map_of_upsert split: option.splits)

section \<open>Witnesses\<close>

definition by_last_seen :: flow_order where
  "by_last_seen = sort_key (\<lambda>x. - last_seen (snd x))"

lemma by_last_seen_orders: "orders_newest by_last_seen"
  unfolding orders_newest_def by_last_seen_def by (rule std_sort_by_key) (simp add: newer_def)

theorem history_accounts_for_samples_witness:
  "\<exists>js rows. store_history (\<lambda>_. None) (\<lambda>_ _. 0) 0 604800 3600 week_of_samples = Inr (JArray js) \<and>
     list_all2 (describes (\<lambda>_ _. 0)) js rows \<and> (\<Sum>(t, rs)\<leftarrow>rows. int (length rs)) = 2016"
proof -
  obtain v where v: "store_history (\<lambda>_. None) (\<lambda>_ _. 0) 0 604800 3600 week_of_samples = Inr v"
    by (simp add: store_history_def history_refused_def)
  have "filter (in_range 0 604800) (samples week_of_samples) = samples week_of_samples"
    by (auto simp: filter_id_conv week_of_samples_def in_range_def)
  then have "length (filter (in_range 0 604800) (samples week_of_samples)) = 2016"
    by (simp add: week_of_samples_def)
  with history_accounts_for_samples [OF v] v show ?thesis by fastforce
qed

lemma insert_flows_ok:
  "map (flow_values L) fs = map Inr vals \<Longrightarrow> \<exists>x. insert_flows (\<lambda>_. None) L n fs rows = Inr x"
proof (induction fs arbitrary: vals n rows)
  case (Cons f fs)
  then obtain v vs where v: "flow_values L f = Inr v" "map (flow_values L) fs = map Inr vs"
    by (cases vals) auto
  obtain k r where "v = (k, r)" by (cases v)
  then show ?case using v(1) Cons.IH [OF v(2)] by simp
qed simp

definition null_lib :: json_lib where
  "null_lib = \<lparr>read_json = (\<lambda>_. Inr JNull), write_json = (\<lambda>_. ''null''), real_text = (\<lambda>_. [])\<rparr>"

theorem settings_roundtrip_witness:
  "store_lookup (\<lambda>_. None) null_lib ''k'' (snd (store_put (\<lambda>_. None) null_lib ''k'' JNull empty_store)) = Inr JNull"
proof -
  have "parse_json null_lib (c_str (json_text null_lib JNull)) = Inr JNull"
    by (simp add: parse_json_def null_lib_def)
  moreover obtain db' where "store_put (\<lambda>_. None) null_lib ''k'' JNull empty_store = (Inr (), db')"
    by (simp add: store_put_def)
  ultimately show ?thesis using settings_roundtrip by fastforce
qed

end
