(* ===== verification/Runtime.thy ===== *)
theory Runtime
  imports Controller Metrics Store
begin

text \<open>
  \<open>ApplianceRuntime\<close> of \<open>src/server.cpp\<close>: capture control, the sampling loop body, the metrics snapshot
  and the HTTP endpoints. All of it runs on one worker thread, so each operation is a program over the
  runtime's state; the controller's programs run inside it on the component \<open>net\<close>, and the operations of
  theory Store on the component \<open>database\<close>. What the capture engine, SQLite's statements and the clocks
  answer comes from the environment, call by call.
\<close>

section \<open>State and environment\<close>

datatype rt_event =
    Open_capture string "string option"
  | Start_engine "string option"
  | Stop_engine
  | Drain "PacketMetadata list"
  | Engine_counters CaptureSnapshot
  | Save_setting string json "unit result"
  | Load_setting string "json result"
  | Save_sample int u64 u64 json "unit result"
  | Save_flows "json list" "unit result"
  | List_flows "json result"
  | Query_history int int int "json result"
  | Wall_clock int
  | Steady_clock int

text \<open>
  The environment answers for the capture engine, the clocks and SQLite: whether the statements of a
  database call succeed, the rows' order where \<open>ORDER BY\<close> leaves it open, \<open>json_extract\<close>, and the clock
  behind \<open>strftime\<close>.
\<close>

record rt_env =
  net_env :: env
  sorter :: talker_sort
  open_capture_reply :: "rt_event list \<Rightarrow> string \<Rightarrow> string option"
  start_engine_reply :: "rt_event list \<Rightarrow> string option"
  drain_reply :: "rt_event list \<Rightarrow> PacketMetadata list"
  counters_reply :: "rt_event list \<Rightarrow> CaptureSnapshot"
  statement_reply :: "rt_event list \<Rightarrow> sql"
  row_order :: flow_order
  extract_number :: json_number
  sqlite_clock :: "rt_event list \<Rightarrow> int"
  wall_reply :: "rt_event list \<Rightarrow> int"
  steady_reply :: "rt_event list \<Rightarrow> int"

record runtime =
  net :: ctl
  database :: store
  has_engine :: bool
  capture_interface :: string
  capture_failure :: string
  storage_error :: string
  metrics :: json
  aggs :: aggregates
  previous_packets :: u64
  previous_bytes :: u64
  last_sample :: int
  calls :: "rt_event list"

type_synonym 'a rt_prog = "(rt_env, runtime, 'a) act"

section \<open>Calls\<close>

definition on_net :: "'a prog \<Rightarrow> 'a rt_prog" where
  "on_net m E s = (case m (net_env E) (net s) of (r, t) \<Rightarrow> (r, s\<lparr>net := t\<rparr>))"

definition modifyP :: "(runtime \<Rightarrow> runtime) \<Rightarrow> unit rt_prog" where
  "modifyP f E s = (Inr (), f s)"

text \<open>One call: ask the environment, log the answer.\<close>

definition callP :: "(rt_env \<Rightarrow> rt_event list \<Rightarrow> 'a) \<Rightarrow> ('a \<Rightarrow> rt_event) \<Rightarrow> 'a rt_prog" where
  "callP answer ev E s =
     (let x = answer E (calls s) in (Inr x, s\<lparr>calls := calls s @ [ev x]\<rparr>))"

text \<open>An answer that is an error message is thrown as \<open>std::runtime_error\<close>.\<close>

definition no_error :: "string option \<Rightarrow> unit rt_prog" where
  "no_error r = (case r of None \<Rightarrow> returnP () | Some message \<Rightarrow> throwP (Runtime_error message))"

definition live_capture :: "string \<Rightarrow> unit rt_prog" where
  "live_capture name = bindP (callP (\<lambda>E h. open_capture_reply E h name) (Open_capture name)) no_error"

definition engine_start :: "unit rt_prog" where
  "engine_start = bindP (callP start_engine_reply Start_engine) no_error"

definition engine_stop :: "unit rt_prog" where
  "engine_stop = callP (\<lambda>E h. ()) (\<lambda>_. Stop_engine)"

definition engine_drain :: "nat \<Rightarrow> PacketMetadata list rt_prog" where
  "engine_drain limit = callP (\<lambda>E h. take limit (drain_reply E h)) Drain"

definition engine_snapshot :: "CaptureSnapshot rt_prog" where
  "engine_snapshot = callP counters_reply Engine_counters"

text \<open>A call of \<open>store_\<close>: an operation of theory Store on the tables, with its exceptions.\<close>

definition storeP :: "(rt_env \<Rightarrow> rt_event list \<Rightarrow> store \<Rightarrow> 'a result \<times> store) \<Rightarrow> ('a result \<Rightarrow> rt_event) \<Rightarrow>
    'a rt_prog" where
  "storeP operation ev E s = (case operation E (calls s) (database s) of
     (r, db) \<Rightarrow> (r, s\<lparr>database := db, calls := calls s @ [ev r]\<rparr>))"

definition json_of :: "rt_env \<Rightarrow> json_lib" where
  "json_of E = json_fun (net_env E)"

definition save_setting :: "string \<Rightarrow> json \<Rightarrow> unit rt_prog" where
  "save_setting key v =
     storeP (\<lambda>E h. store_put (statement_reply E h) (json_of E) key v) (Save_setting key v)"

definition load_setting :: "string \<Rightarrow> json rt_prog" where
  "load_setting key =
     storeP (\<lambda>E h db. (store_lookup (statement_reply E h) (json_of E) key db, db)) (Load_setting key)"

definition store_sample :: "int \<Rightarrow> u64 \<Rightarrow> u64 \<Rightarrow> json \<Rightarrow> unit rt_prog" where
  "store_sample ts n b details =
     storeP (\<lambda>E h. save_sample (statement_reply E h) (json_of E) ts n b details) (Save_sample ts n b details)"

definition store_flows :: "json list \<Rightarrow> unit rt_prog" where
  "store_flows fs =
     storeP (\<lambda>E h. record_flows (statement_reply E h) (json_of E) (row_order E) (sqlite_clock E h) fs) (Save_flows fs)"

definition store_connections :: "json rt_prog" where
  "store_connections =
     storeP (\<lambda>E h db. (connections (statement_reply E h) (json_of E) (row_order E) db, db)) List_flows"

definition now_seconds :: "int rt_prog" where
  "now_seconds = callP wall_reply Wall_clock"

definition steady_now :: "int rt_prog" where
  "steady_now = callP steady_reply Steady_clock"

section \<open>Sampling\<close>

definition elapsed_seconds :: "int \<Rightarrow> int \<Rightarrow> rat" where
  "elapsed_seconds t t0 = max (1 / 1000000) (of_int (t - t0) / 1000000000)"

text \<open>
  The aggregation can throw only on a number out of the range of \<open>Int64\<close>, which lemma
  \<open>sample_batches_start\<close> excludes; the model then keeps the aggregates of before the batch.
\<close>

definition aggregate :: "PacketMetadata list \<Rightarrow> unit rt_prog" where
  "aggregate ps = askP (\<lambda>E. getP (\<lambda>s.
     bindP (liftP (add_packets (json_fun (net_env E)) (capture_interface s) ps (aggs s))) (\<lambda>a.
       modifyP (\<lambda>s. s\<lparr>aggs := trim_recent a\<rparr>))))"

definition store_period :: "u64 \<Rightarrow> u64 \<Rightarrow> unit rt_prog" where
  "store_period dp db =
     catchP
       (bindP now_seconds (\<lambda>ts. getP (\<lambda>s.
        thenP (store_sample ts dp db (metrics s))
        (thenP (store_flows (map snd (flows (aggs s))))
          (modifyP (\<lambda>s. s\<lparr>storage_error := []\<rparr>))))))
       (\<lambda>e. modifyP (\<lambda>s. s\<lparr>storage_error := what e\<rparr>))"

definition publish_period :: "int \<Rightarrow> rat \<Rightarrow> unit rt_prog" where
  "publish_period t elapsed =
     bindP engine_snapshot (\<lambda>snap.
     bindP now_seconds (\<lambda>wall. askP (\<lambda>E. getP (\<lambda>s.
       let dp = packets snap - previous_packets s;
           db = wire_total snap - previous_bytes s
       in thenP (modifyP (\<lambda>s. s\<lparr>metrics := publish (sorter E) wall elapsed dp db snap (aggs s) (metrics s)\<rparr>))
          (thenP (store_period dp db)
            (modifyP (\<lambda>s. s\<lparr>previous_packets := packets snap, previous_bytes := wire_total snap,
               last_sample := t, aggs := reset_aggregates (aggs s)\<rparr>)))))))"

definition sample :: "bool \<Rightarrow> unit rt_prog" where
  "sample force = getP (\<lambda>s. whenP (has_engine s)
     (bindP (engine_drain 8192) (\<lambda>ps.
      thenP (aggregate ps)
      (bindP steady_now (\<lambda>t. getP (\<lambda>s.
        let elapsed = elapsed_seconds t (last_sample s)
        in whenP (\<not> (elapsed < 1 \<and> \<not> force)) (publish_period t elapsed)))))))"

section \<open>Capture control\<close>

definition capture_char :: "char \<Rightarrow> bool" where
  "capture_char c \<longleftrightarrow> is_lower c \<or> is_upper c \<or> is_digit c \<or> c \<in> set ''_.-''"

definition capture_name :: "string \<Rightarrow> bool" where
  "capture_name name \<longleftrightarrow> \<not> (name = [] \<or> length name > 15 \<or> (\<exists>c \<in> set name. \<not> capture_char c))"

definition stop_and_sample :: "unit rt_prog" where
  "stop_and_sample = getP (\<lambda>s. whenP (has_engine s) (thenP engine_stop (sample True)))"

definition fresh_capture :: "string \<Rightarrow> runtime \<Rightarrow> runtime" where
  "fresh_capture name s = s\<lparr>has_engine := True, capture_interface := name, capture_failure := [],
     previous_packets := 0, previous_bytes := 0, aggs := no_aggregates, metrics := JObject []\<rparr>"

definition start_capture :: "string \<Rightarrow> unit rt_prog" where
  "start_capture name = run_steps
     [throw_if (\<not> capture_name name) (Invalid_argument ''Invalid capture interface''),
      live_capture name,
      stop_and_sample,
      engine_start,
      save_setting ''capture_interface'' (JString name),
      modifyP (fresh_capture name),
      bindP steady_now (\<lambda>t. modifyP (\<lambda>s. s\<lparr>last_sample := t\<rparr>))]"

definition stop_capture :: "unit rt_prog" where
  "stop_capture = run_steps
     [stop_and_sample,
      modifyP (\<lambda>s. s\<lparr>has_engine := False, capture_interface := []\<rparr>),
      save_setting ''capture_interface'' (JString [])]"

section \<open>Status\<close>

definition engine_members :: "CaptureSnapshot \<Rightarrow> json \<Rightarrow> json" where
  "engine_members snap v =
     (let v = jset v ''packets'' (u64_text (packets snap));
          v = jset v ''wire_bytes'' (u64_text (wire_total snap));
          v = jset v ''metadata_dropped'' (u64_text (metadata_dropped snap));
          v = jset v ''kernel_dropped'' (case kernel_dropped snap of None \<Rightarrow> JNull | Some n \<Rightarrow> u64_text n);
          v = jset v ''running'' (JBool (running snap))
      in jset v ''capture_error'' (JString (capture_error snap)))"

definition snapshot_json :: "json rt_prog" where
  "snapshot_json = getP (\<lambda>s.
     bindP (on_net state_json) (\<lambda>state.
     let v = jset (jset (jset (jset (metrics s) ''type'' (JString ''metrics'')) ''schema_version'' (JInt 1))
               ''capture_interface'' (JString (capture_interface s))) ''network'' state
     in if has_engine s then bindP engine_snapshot (\<lambda>snap. returnP (engine_members snap v))
        else returnP (jset v ''running'' (JBool False))))"

definition status_json :: "json rt_prog" where
  "status_json =
     bindP (on_net state_json) (\<lambda>state. getP (\<lambda>s.
     bindP snapshot_json (\<lambda>snap.
       returnP (jset (jset (jset (jset (jset (jset JNull ''version'' (JString ''0.2.0'')) ''network'' state)
         ''capture_interface'' (JString (capture_interface s))) ''capture_error'' (JString (capture_failure s)))
         ''storage_error'' (JString (storage_error s))) ''metrics'' snap))))"

section \<open>Query integers\<close>

text \<open>
  \<open>std::stoll\<close>: leading white space, a sign, decimal digits; the value and the number of characters
  consumed. Without digits it throws \<open>std::invalid_argument\<close>, out of range \<open>std::out_of_range\<close>.
\<close>

definition stoll :: "string \<Rightarrow> (int \<times> nat) result" where
  "stoll text =
     (let s = c_str text;
          t = dropWhile is_space s;
          neg = (t \<noteq> [] \<and> hd t = CHR ''-'');
          u = (if t \<noteq> [] \<and> (hd t = CHR ''-'' \<or> hd t = CHR ''+'') then tl t else t);
          ds = takeWhile is_digit u;
          n = (if neg then - int (digits_val 10 ds) else int (digits_val 10 ds))
      in if ds = [] then Inl (Invalid_argument ''stoll'')
         else if n < - (2 ^ 63) \<or> 2 ^ 63 \<le> n then Inl Out_of_range
         else Inr (n, length s - length u + length ds))"

definition query_number :: "string \<Rightarrow> int \<Rightarrow> int result" where
  "query_number value fallback =
     (if value = [] then Inr fallback
      else ebind (stoll value) (\<lambda>(n, consumed).
        if consumed \<noteq> length value then Inl (Invalid_argument ''Invalid query integer'') else Inr n))"

section \<open>Endpoints\<close>

datatype http_method = Get | Post | Put | Delete

record http_request =
  req_path :: string
  req_method :: http_method
  req_body :: string
  req_header :: "string \<Rightarrow> string"
  req_parameter :: "string \<Rightarrow> string"

definition body_json :: "http_request \<Rightarrow> json rt_prog" where
  "body_json r = askP (\<lambda>E. liftP (parse_json (json_fun (net_env E)) (req_body r)))"

definition body_config :: "http_request \<Rightarrow> NetworkConfig rt_prog" where
  "body_config r = bindP (body_json r) (\<lambda>v. askP (\<lambda>E. liftP (config_from_json (pton_fun (net_env E)) v)))"

definition validate_request :: "http_request \<Rightarrow> json rt_prog" where
  "validate_request r = bindP (body_config r) (\<lambda>c.
     returnP (jset (jset JNull ''valid'' (JBool True)) ''config'' (config_json c)))"

definition capture_request :: "http_request \<Rightarrow> json rt_prog" where
  "capture_request r =
     bindP (body_json r) (\<lambda>body.
     bindP (liftP (jindex body ''interface'')) (\<lambda>name.
     thenP (throw_if (\<not> is_string name) (Invalid_argument ''interface must be a string''))
     (thenP (start_capture (string_of name)) snapshot_json)))"

definition ask_history :: "int \<Rightarrow> int \<Rightarrow> int \<Rightarrow> json rt_prog" where
  "ask_history frm til interval =
     storeP (\<lambda>E h db. (store_history (statement_reply E h) (extract_number E) frm til interval db, db))
       (Query_history frm til interval)"

text \<open>The order in which C++ evaluates the two bounds is open; here it is \<open>from\<close>, then \<open>to\<close>.\<close>

definition history_request :: "http_request \<Rightarrow> json rt_prog" where
  "history_request r =
     bindP (liftP (query_number (req_parameter r ''interval'') 60)) (\<lambda>interval.
     thenP (throw_if (interval \<noteq> 60 \<and> interval \<noteq> 300 \<and> interval \<noteq> 3600) (Invalid_argument ''Invalid interval''))
     (bindP now_seconds (\<lambda>t. bindP (liftP (query_number (req_parameter r ''from'') (t - 3600))) (\<lambda>frm.
      bindP now_seconds (\<lambda>t. bindP (liftP (query_number (req_parameter r ''to'') (t + 1))) (\<lambda>til.
        ask_history frm til interval))))))"

definition request :: "http_request \<Rightarrow> json rt_prog" where
  "request r =
     (let path = req_path r; method = req_method r in
      if path = ''/api/v1/status'' \<and> method = Get then status_json
      else if path = ''/api/v1/interfaces'' \<and> method = Get then on_net interfaces
      else if path = ''/api/v1/config'' \<and> method = Get then on_net state_json
      else if path = ''/api/v1/config/validate'' \<and> method = Post then validate_request r
      else if path = ''/api/v1/config'' \<and> method = Put
        then bindP (body_config r) (\<lambda>c. thenP (on_net (apply_config c)) (on_net state_json))
      else if path = ''/api/v1/config/confirm'' \<and> method = Post then thenP (on_net confirm) (on_net state_json)
      else if path = ''/api/v1/config/rollback'' \<and> method = Post then thenP (on_net rollback) (on_net state_json)
      else if path = ''/api/v1/capture'' \<and> method = Put then capture_request r
      else if path = ''/api/v1/capture'' \<and> method = Delete then thenP stop_capture snapshot_json
      else if path = ''/api/v1/metrics'' \<and> method = Get then snapshot_json
      else if path = ''/api/v1/packets'' \<and> method = Get then getP (\<lambda>s. returnP (JArray (recent (aggs s))))
      else if path = ''/api/v1/flows'' \<and> method = Get then store_connections
      else if path = ''/api/v1/history'' \<and> method = Get then history_request r
      else throwP (Invalid_argument ''Unknown endpoint or unsupported method''))"

end
