(* ===== verification/Gateway.thy ===== *)
theory Gateway
  imports Runtime
begin

text \<open>
  The way into the appliance (\<open>src/server.cpp\<close>): the constant-time token comparison, the origin check and
  the HTTP gateway, which answers 401 or submits the request; the bounded control queue with its
  answers 200, 422, 409 and 429; and the application worker that runs the queue, the confirmation timer and
  the sampler, and rolls back on shutdown.

  Requests arrive from other threads at any moment. \<open>control_step\<close> interleaves them with the worker; a
  worker step stands for code the worker runs alone, because nothing else touches the runtime.
\<close>

section \<open>Access\<close>

definition char_byte :: "char \<Rightarrow> byte" where
  "char_byte c = of_nat (code_of c)"

definition token_equal :: "string \<Rightarrow> string \<Rightarrow> bool" where
  "token_equal a b \<longleftrightarrow>
     length a = length b \<and>
     fold (\<lambda>(x, y) difference. difference OR ucast (char_byte x XOR char_byte y)) (zip a b) (0 :: u32) = 0"

definition valid_origin :: "http_request \<Rightarrow> bool" where
  "valid_origin r \<longleftrightarrow>
     (let origin = req_header r ''origin''; host = req_header r ''host''
      in origin = [] \<or> origin = ''http://'' @ host \<or> origin = ''https://'' @ host)"

definition bearer :: string where
  "bearer = ''Bearer ''"

definition admitted :: "string \<Rightarrow> http_request \<Rightarrow> bool" where
  "admitted token r \<longleftrightarrow>
     (let auth = req_header r ''authorization''
      in valid_origin r \<and> take (length bearer) auth = bearer \<and> token_equal token (drop (length bearer) auth))"

definition error_json :: "string \<Rightarrow> json" where
  "error_json message = jset JNull ''error'' (JString message)"

section \<open>Control queue\<close>

text \<open>
  A request is named by the number of its arrival. A queued task carries that number as its \<open>reply\<close>
  callback; \<open>replies\<close> logs the calls of these callbacks and \<open>accepted\<close> the requests that were queued.
\<close>

type_synonym task = "nat \<times> json rt_prog"

datatype worker_at = Testing | Taking | Holding "task option" | Leaving | Finished

record control =
  tasks :: "task list"
  replies :: "(nat \<times> json \<times> nat) list"
  accepted :: "nat list"
  arrivals :: nat
  worker_at :: worker_at
  stopping :: bool
  app :: runtime

definition max_tasks :: nat where "max_tasks = 64"

definition reply :: "nat \<Rightarrow> json \<Rightarrow> nat \<Rightarrow> control \<Rightarrow> control" where
  "reply i v status c = c\<lparr>replies := replies c @ [(i, v, status)]\<rparr>"

definition submit :: "json rt_prog \<Rightarrow> control \<Rightarrow> control" where
  "submit m c =
     (let i = arrivals c; c = c\<lparr>arrivals := i + 1\<rparr>
      in if max_tasks \<le> length (tasks c) then reply i (error_json ''Control queue full'') 429 c
         else c\<lparr>tasks := tasks c @ [(i, m)], accepted := accepted c @ [i]\<rparr>)"

definition gateway :: "string \<Rightarrow> http_request \<Rightarrow> control \<Rightarrow> control" where
  "gateway token r c =
     (if admitted token r then submit (request r) c
      else reply (arrivals c) (error_json ''Unauthorized'') 401 (c\<lparr>arrivals := arrivals c + 1\<rparr>))"

section \<open>Worker\<close>

text \<open>
  Running one task: the answer with its status. An exception that is not a \<open>std::exception\<close> leaves the
  worker's thread function, which ends the process: \<open>None\<close>.
\<close>

definition answer :: "json result \<Rightarrow> (json \<times> nat) option" where
  "answer r = (case r of
     Inr v \<Rightarrow> Some (v, 200)
   | Inl (Invalid_argument m) \<Rightarrow> Some (error_json m, 422)
   | Inl Foreign_exception \<Rightarrow> None
   | Inl e \<Rightarrow> Some (error_json (what e), 409))"

definition run_task :: "rt_env \<Rightarrow> task option \<Rightarrow> control \<Rightarrow> control option" where
  "run_task E t c = (case t of
     None \<Rightarrow> Some c
   | Some (i, m) \<Rightarrow>
       (case m E (app c) of (r, s) \<Rightarrow>
          map_option (\<lambda>(v, status). reply i v status (c\<lparr>app := s\<rparr>)) (answer r)))"

text \<open>A statement of the worker that catches \<open>std::exception\<close>.\<close>

definition run_caught :: "rt_env \<Rightarrow> unit rt_prog \<Rightarrow> (exn \<Rightarrow> unit rt_prog) \<Rightarrow> control \<Rightarrow> control option" where
  "run_caught E m h c = (case catchP m h E (app c) of
     (Inr _, s) \<Rightarrow> Some (c\<lparr>app := s\<rparr>)
   | (Inl _, s) \<Rightarrow> None)"

definition run_tick :: "rt_env \<Rightarrow> control \<Rightarrow> control option" where
  "run_tick E = run_caught E (on_net tick) (\<lambda>_. returnP ())"

definition run_sample :: "rt_env \<Rightarrow> control \<Rightarrow> control option" where
  "run_sample E = run_caught E (sample False) (\<lambda>e. modifyP (\<lambda>s. s\<lparr>capture_failure := what e\<rparr>))"

definition worker_round :: "rt_env \<Rightarrow> task option \<Rightarrow> control \<Rightarrow> control option" where
  "worker_round E t c =
     Option.bind (run_tick E c) (\<lambda>c. Option.bind (run_task E t c) (\<lambda>c. run_sample E c))"

text \<open>\<open>catch (...)\<close>: whatever is thrown is dropped.\<close>

definition ignoring :: "unit rt_prog \<Rightarrow> unit rt_prog" where
  "ignoring m E s = (Inr (), snd (m E s))"

definition shutdown_rollback :: "unit rt_prog" where
  "shutdown_rollback =
     bindP (on_net state_json) (\<lambda>state.
       whenP (jfield state ''status'' = JString ''awaiting_confirmation'') (on_net rollback))"

definition worker_exit :: "rt_env \<Rightarrow> control \<Rightarrow> control option" where
  "worker_exit E c =
     (let s = snd (getP (\<lambda>s. whenP (has_engine s) engine_stop) E (app c));
          s = snd (ignoring (sample True) E s)
      in map_option (\<lambda>c. c\<lparr>tasks := []\<rparr>)
           (run_caught E shutdown_rollback (\<lambda>_. returnP ()) (c\<lparr>app := s\<rparr>)))"

section \<open>Interleaving\<close>

text \<open>
  A task may be any program: the HTTP gateway submits \<open>request r\<close>, the live socket a snapshot. Taking
  from the queue ends with the first task, or with none after the wait timed out or was woken by a stop.
\<close>

inductive control_step :: "rt_env \<Rightarrow> string \<Rightarrow> control \<Rightarrow> control \<Rightarrow> bool" for E token where
  step_http: "control_step E token c (gateway token r c)"
| step_live: "control_step E token c (submit snapshot_json c)"
| step_stop: "control_step E token c (c\<lparr>stopping := True\<rparr>)"
| step_test: "worker_at c = Testing \<Longrightarrow>
    control_step E token c (c\<lparr>worker_at := (if stopping c then Leaving else Taking)\<rparr>)"
| step_take: "worker_at c = Taking \<Longrightarrow> tasks c = t # ts \<Longrightarrow>
    control_step E token c (c\<lparr>tasks := ts, worker_at := Holding (Some t)\<rparr>)"
| step_idle: "worker_at c = Taking \<Longrightarrow> tasks c = [] \<Longrightarrow>
    control_step E token c (c\<lparr>worker_at := Holding None\<rparr>)"
| step_round: "worker_at c = Holding t \<Longrightarrow> worker_round E t c = Some c' \<Longrightarrow>
    control_step E token c (c'\<lparr>worker_at := Testing\<rparr>)"
| step_exit: "worker_at c = Leaving \<Longrightarrow> worker_exit E c = Some c' \<Longrightarrow>
    control_step E token c (c'\<lparr>worker_at := Finished\<rparr>)"

definition start_control :: "runtime \<Rightarrow> control" where
  "start_control s = \<lparr>tasks = [], replies = [], accepted = [], arrivals = 0, worker_at = Testing,
     stopping = False, app = s\<rparr>"

inductive control_reachable :: "rt_env \<Rightarrow> string \<Rightarrow> runtime \<Rightarrow> control \<Rightarrow> bool" for E token s where
  reach_start: "control_reachable E token s (start_control s)"
| reach_step: "control_reachable E token s c \<Longrightarrow> control_step E token c c' \<Longrightarrow> control_reachable E token s c'"

end
