(* ===== verification/Gateway_Props.thy ===== *)
theory Gateway_Props
  imports Gateway Recovery
begin

text \<open>
  Properties of the gateway and the control queue: who gets past the gateway, that every accepted
  request is answered once and in order, and that a shutdown leaves no configuration waiting.
\<close>

section \<open>Access\<close>

lemma char_byte_inject [simp]: "char_byte x = char_byte y \<longleftrightarrow> x = y"
proof
  assume eq: "char_byte x = char_byte y"
  have "unat (char_byte c) = of_char c" for c
    by (simp add: char_byte_def unat_of_nat take_bit_nat_eq_self)
  then have "(of_char x :: nat) = of_char y" using eq by metis
  then show "x = y" by simp
qed simp

lemma ucast_byte_eq_0: "(ucast (b :: byte) :: u32) = 0 \<longleftrightarrow> b = 0"
  by (metis unat_0 unat_eq_zero unat_ucast_byte(1))

lemma xor_byte_eq_0: "(a :: byte) XOR b = 0 \<longleftrightarrow> a = b"
  by (auto simp: bit_eq_iff bit_simps)

lemma fold_difference:
  "length a = length b \<Longrightarrow>
   fold (\<lambda>(x, y) difference. difference OR ucast (char_byte x XOR char_byte y)) (zip a b) (d :: u32) = 0 \<longleftrightarrow>
   d = 0 \<and> a = b"
  by (induction a b arbitrary: d rule: list_induct2) (auto simp: or_eq_0_iff ucast_byte_eq_0 xor_byte_eq_0)

lemma token_equal_iff: "token_equal a b \<longleftrightarrow> a = b"
  using fold_difference [of a b 0] by (auto simp: token_equal_def)

lemma admitted_iff: "admitted token r \<longleftrightarrow>
     req_header r ''origin'' \<in> {[], ''http://'' @ req_header r ''host'', ''https://'' @ req_header r ''host''} \<and>
     req_header r ''authorization'' = bearer @ token"
proof -
  have "take (length bearer) s = bearer \<and> drop (length bearer) s = token \<longleftrightarrow> s = bearer @ token" for s
    by (metis append_eq_conv_conj append_take_drop_id)
  then show ?thesis
    by (auto simp: admitted_def valid_origin_def token_equal_iff Let_def)
qed

text \<open>
  C30. The gateway: a request reaches the control queue exactly when its origin, if any, is the host
  it was sent to and its authorization is the word Bearer with the whole token; every other request
  is answered 401 at once and changes nothing else.
\<close>

theorem gateway_requires_token:
  "gateway token r c =
     (if req_header r ''origin'' \<in> {[], ''http://'' @ req_header r ''host'', ''https://'' @ req_header r ''host''} \<and>
         req_header r ''authorization'' = ''Bearer '' @ token
      then submit (request r) c
      else c\<lparr>arrivals := arrivals c + 1,
             replies := replies c @ [(arrivals c, jset JNull ''error'' (JString ''Unauthorized''), 401)]\<rparr>)"
  by (simp add: gateway_def admitted_iff bearer_def reply_def error_json_def)

section \<open>What the steps do to the queue\<close>

definition refused :: "nat \<Rightarrow> bool" where
  "refused code \<longleftrightarrow> code = 401 \<or> code = 429"

definition refusals :: "control \<Rightarrow> nat list" where
  "refusals c = map fst (filter (\<lambda>(i, v, code). refused code) (replies c))"

definition answered :: "control \<Rightarrow> nat list" where
  "answered c = map fst (filter (\<lambda>(i, v, code). \<not> refused code) (replies c))"

definition held :: "control \<Rightarrow> nat list" where
  "held c = (case worker_at c of Holding (Some (i, m)) \<Rightarrow> [i] | _ \<Rightarrow> [])"

text \<open>One arrival is queued below the cap, or refused.\<close>

definition arrival :: "control \<Rightarrow> control \<Rightarrow> bool" where
  "arrival c c' \<longleftrightarrow>
     (\<exists>m. length (tasks c) < max_tasks \<and> c' = c\<lparr>arrivals := arrivals c + 1,
        tasks := tasks c @ [(arrivals c, m)], accepted := accepted c @ [arrivals c]\<rparr>) \<or>
     (\<exists>v code. refused code \<and> c' = c\<lparr>arrivals := arrivals c + 1,
        replies := replies c @ [(arrivals c, v, code)]\<rparr>)"

lemma submit_arrival: "arrival c (submit m c)"
  by (auto simp: arrival_def submit_def reply_def refused_def Let_def not_le)

lemma gateway_arrival: "arrival c (gateway token r c)"
  using submit_arrival by (auto simp: gateway_def) (auto simp: arrival_def reply_def refused_def)

lemma answer_status: "answer r = Some (v, code) \<Longrightarrow> \<not> refused code"
  by (auto simp: answer_def refused_def split: sum.splits exn.splits)

definition keeps_queue :: "control \<Rightarrow> control \<Rightarrow> bool" where
  "keeps_queue c c' \<longleftrightarrow> (\<exists>s. c' = c\<lparr>app := s\<rparr>)"

lemma run_caught_keeps: "run_caught E m h c = Some c' \<Longrightarrow> keeps_queue c c'"
  by (auto simp: run_caught_def keeps_queue_def split: prod.splits sum.splits)

lemma run_task_keeps:
  assumes "run_task E t c = Some c'"
  obtains s where "t = None" "c' = c\<lparr>app := s\<rparr>"
    | s i m v code where "t = Some (i, m)" "\<not> refused code"
      "c' = c\<lparr>replies := replies c @ [(i, v, code)], app := s\<rparr>"
proof (cases t)
  case None
  then show ?thesis using that(1) [of "app c"] assms by (simp add: run_task_def)
next
  case (Some im)
  obtain i m where im: "im = (i, m)" by (cases im)
  obtain r s where "m E (app c) = (r, s)" by (cases "m E (app c)")
  then obtain v code where "answer r = Some (v, code)" "c' = reply i v code (c\<lparr>app := s\<rparr>)"
    using assms Some im by (auto simp: run_task_def)
  then show ?thesis
    using that(2) [where v = v and s = s, OF Some [unfolded im] answer_status] by (simp add: reply_def)
qed

lemma worker_round_keeps:
  assumes "worker_round E t c = Some c'"
  shows "\<exists>s. c' = c\<lparr>replies := replies c', app := s\<rparr> \<and>
    (case t of None \<Rightarrow> replies c' = replies c
     | Some (i, m) \<Rightarrow> \<exists>v code. \<not> refused code \<and> replies c' = replies c @ [(i, v, code)])"
proof -
  obtain c1 c2 where "run_tick E c = Some c1" "run_task E t c1 = Some c2" "run_sample E c2 = Some c'"
    using assms unfolding worker_round_def by (auto split: Option.bind_splits)
  moreover obtain s1 where "c1 = c\<lparr>app := s1\<rparr>"
    using run_caught_keeps calculation(1) unfolding run_tick_def keeps_queue_def by blast
  moreover obtain s3 where "c' = c2\<lparr>app := s3\<rparr>"
    using run_caught_keeps calculation(3) unfolding run_sample_def keeps_queue_def by blast
  ultimately show ?thesis
    by (auto elim!: run_task_keeps)
qed

lemma worker_exit_keeps: "worker_exit E c = Some c' \<Longrightarrow> \<exists>s. c' = c\<lparr>app := s, tasks := []\<rparr>"
  by (auto simp: worker_exit_def Let_def dest!: run_caught_keeps) (auto simp: keeps_queue_def)

section \<open>Queue invariant\<close>

definition queue_inv :: "control \<Rightarrow> bool" where
  "queue_inv c \<longleftrightarrow>
     length (tasks c) \<le> max_tasks \<and>
     mset (accepted c) + mset (refusals c) = mset [0..<arrivals c] \<and>
     sorted (accepted c) \<and>
     (\<exists>rest. accepted c = answered c @ rest \<and> (worker_at c \<noteq> Finished \<longrightarrow> rest = held c @ map fst (tasks c)))"

lemma queue_inv_start: "queue_inv (start_control s)"
  by (simp add: queue_inv_def start_control_def refusals_def answered_def held_def)

lemma accepted_below: "queue_inv c \<Longrightarrow> i \<in> set (accepted c) \<Longrightarrow> i < arrivals c"
  unfolding queue_inv_def
  by (metis atLeastLessThan_iff atLeastLessThan_upt set_mset_mset union_iff)

lemma queue_inv_arrival:
  assumes "queue_inv c" "arrival c c'"
  shows "queue_inv c'"
proof -
  have below: "\<forall>i \<in> set (accepted c). i \<le> arrivals c"
    using accepted_below [OF assms(1)] by fastforce
  from assms(2) consider
      (queued) m where "length (tasks c) < max_tasks" "c' = c\<lparr>arrivals := arrivals c + 1,
        tasks := tasks c @ [(arrivals c, m)], accepted := accepted c @ [arrivals c]\<rparr>"
    | (refusal) v code where "refused code" "c' = c\<lparr>arrivals := arrivals c + 1,
        replies := replies c @ [(arrivals c, v, code)]\<rparr>"
    unfolding arrival_def by blast
  then show ?thesis
  proof cases
    case queued
    then show ?thesis
      using assms(1) below
      by (auto simp: queue_inv_def answered_def refusals_def held_def sorted_append)
  next
    case refusal
    then show ?thesis
      using assms(1) by (auto simp: queue_inv_def answered_def refusals_def held_def)
  qed
qed

lemma queue_inv_step: "control_step E token c c' \<Longrightarrow> queue_inv c \<Longrightarrow> queue_inv c'"
proof (induction rule: control_step.induct)
  case (step_http c r)
  then show ?case using queue_inv_arrival gateway_arrival by blast
next
  case (step_live c)
  then show ?case using queue_inv_arrival submit_arrival by blast
next
  case (step_round c t c')
  then show ?case
    using worker_round_keeps [OF step_round.hyps(2)]
    by (cases t) (auto simp: queue_inv_def answered_def refusals_def held_def)
next
  case (step_exit c c')
  then show ?case
    using worker_exit_keeps [OF step_exit.hyps(2)]
    by (auto simp: queue_inv_def answered_def refusals_def held_def)
qed (auto simp: queue_inv_def answered_def refusals_def held_def)

lemma reachable_queue_inv: "control_reachable E token s c \<Longrightarrow> queue_inv c"
  by (induction rule: control_reachable.induct) (auto intro: queue_inv_start queue_inv_step)

lemma mset_split: "mset (map f (filter P xs)) + mset (map f (filter (\<lambda>x. \<not> P x) xs)) = mset (map f xs)"
  by (induction xs) auto

lemma replies_distinct:
  assumes "queue_inv c"
  shows "distinct (map fst (replies c))"
proof -
  obtain rest where rest: "accepted c = answered c @ rest"
    using assms unfolding queue_inv_def by blast
  have "mset (accepted c @ refusals c) = mset [0..<arrivals c]"
    using assms by (simp add: queue_inv_def)
  then have "distinct (accepted c @ refusals c)"
    using mset_eq_imp_distinct_iff distinct_upt by blast
  then have "distinct (answered c @ refusals c)"
    unfolding rest by auto
  moreover have "mset (map fst (replies c)) = mset (answered c @ refusals c)"
    using mset_split [of fst "\<lambda>(i, v, code). refused code" "replies c"]
    by (simp add: answered_def refusals_def case_prod_unfold add.commute)
  ultimately show ?thesis using mset_eq_imp_distinct_iff by blast
qed

text \<open>
  C9. Control queue: under every interleaving of arriving requests and the worker, at most 64 requests
  wait; no request is answered twice; each request is either refused at once, with 401 or 429, or
  accepted; accepted requests are answered in the order of their acceptance, and as long as the
  worker runs every accepted request is answered, held by the worker or waiting.
\<close>

theorem control_queue_fifo:
  assumes "control_reachable E token s c"
  shows "length (tasks c) \<le> 64 \<and> distinct (map fst (replies c)) \<and>
    set (accepted c) \<union> set (refusals c) = {..<arrivals c} \<and> set (accepted c) \<inter> set (refusals c) = {} \<and>
    sorted (accepted c) \<and> (\<exists>rest. accepted c = answered c @ rest) \<and>
    (worker_at c \<noteq> Finished \<longrightarrow> accepted c = answered c @ held c @ map fst (tasks c))"
proof -
  note inv = reachable_queue_inv [OF assms]
  have m: "mset (accepted c @ refusals c) = mset [0..<arrivals c]"
    using inv by (simp add: queue_inv_def)
  have "set (accepted c @ refusals c) = {..<arrivals c}"
    using mset_eq_setD [OF m] by auto
  moreover have "distinct (accepted c @ refusals c)"
    using m mset_eq_imp_distinct_iff distinct_upt by blast
  ultimately show ?thesis
    using inv replies_distinct [OF inv] by (auto simp: queue_inv_def max_tasks_def)
qed

text \<open>A request without a token, then one with it, on a worker that has not run yet.\<close>

definition status_request :: "string \<Rightarrow> http_request" where
  "status_request auth = \<lparr>req_path = ''/api/v1/status'', req_method = Get, req_body = [],
     req_header = (\<lambda>h. if h = ''authorization'' then auth else []), req_parameter = (\<lambda>_. [])\<rparr>"

theorem control_queue_fifo_witness:
  "\<exists>c. control_reachable undefined ''secret'' undefined c \<and> accepted c = [1] \<and> refusals c = [0] \<and>
     length (tasks c) \<le> 64 \<and> distinct (map fst (replies c))"
proof -
  let ?c0 = "start_control undefined"
  let ?c1 = "gateway ''secret'' (status_request ''Bearer guess'') ?c0"
  let ?c2 = "gateway ''secret'' (status_request ''Bearer secret'') ?c1"
  have r: "control_reachable undefined ''secret'' undefined ?c2"
    by (intro reach_step [OF reach_step [OF reach_start step_http] step_http])
  have "accepted ?c2 = [1] \<and> refusals ?c2 = [0]"
    by (simp add: gateway_def admitted_iff status_request_def bearer_def reply_def submit_def
        start_control_def refusals_def refused_def max_tasks_def Let_def)
  then show ?thesis using r control_queue_fifo [OF r] by blast
qed

text \<open>
  A query integer that does not fit is answered 409, not 422: \<open>std::out_of_range\<close> is not a
  \<open>std::invalid_argument\<close>.
\<close>

theorem query_overflow_is_conflict:
  "query_number ''9223372036854775808'' 0 = Inl Out_of_range \<and>
   answer (Inl Out_of_range) = Some (error_json ''stoll'', 409) \<and>
   query_number ''12x'' 0 = Inl (Invalid_argument ''Invalid query integer'')"
proof -
  have "stoll ''9223372036854775808'' = Inl Out_of_range"
    by (simp add: stoll_def c_str_def is_space_def is_digit_def digits_val_def digit_val_def Let_def)
  moreover have "stoll ''12x'' = Inr (12, 2)"
    by (simp add: stoll_def c_str_def is_space_def is_digit_def digits_val_def digit_val_def Let_def)
  ultimately show ?thesis by (simp add: query_number_def answer_def)
qed

end
