(* ===== verification/Live_Socket.thy ===== *)
theory Live_Socket
  imports Gateway_Props
begin

text \<open>
  The live WebSocket (\<open>LiveSocket\<close> of \<open>src/server.cpp\<close>): a connection with its flag \<open>busy\<close> and its
  \<open>sequence\<close>. A message asks for a snapshot by acknowledging the last sequence number; the answer is
  prepared by the worker, or by the event loop itself when the control queue is full, and its callback
  runs in three atomic parts that messages can fall between.
\<close>

section \<open>State and operations\<close>

datatype close_code = Violation | Invalid_message

text \<open>Where the answer to an accepted message is: submitted, numbered, sent.\<close>

datatype answer_stage = Submitted | Numbered u64 | Delivered

text \<open>
  \<open>context\<close> says that the connection passed the origin check. \<open>frames_sent\<close> and \<open>acks_taken\<close> log the
  sequence numbers sent and the acknowledgements accepted; \<open>answers\<close> are the callbacks not yet done.
\<close>

record socket =
  has_context :: bool
  connected :: bool
  busy :: bool
  sequence :: u64
  checked :: "string option"
  answers :: "answer_stage list"
  frames_sent :: "u64 list"
  acks_taken :: "string list"

definition new_connection :: "http_request \<Rightarrow> socket" where
  "new_connection r = \<lparr>has_context = valid_origin r, connected = valid_origin r, busy = False, sequence = 0,
     checked = None, answers = [], frames_sent = [], acks_taken = []\<rparr>"

definition sequence_text :: "u64 \<Rightarrow> string" where
  "sequence_text n = to_string (unat n)"

datatype live_result = Ignored | Closed close_code | Accepted string

text \<open>What \<open>handleNewMessage\<close> does with a text message, up to \<open>busy.exchange\<close>; every exception closes.\<close>

definition live_check :: "json_lib \<Rightarrow> string \<Rightarrow> u64 \<Rightarrow> string \<Rightarrow> live_result result" where
  "live_check L token seq message =
     ebind (parse_json L message) (\<lambda>body.
     ebind (jindex body ''token'') (\<lambda>t.
       if \<not> is_string t \<or> \<not> token_equal token (string_of t) then Inr (Closed Violation)
       else ebind (json_get body ''ack'' (JString ''0'')) (\<lambda>a.
            ebind (as_string L a) (\<lambda>ack.
              if ack \<noteq> sequence_text seq then Inr Ignored else Inr (Accepted ack)))))"

text \<open>
  The comparison with \<open>sequence\<close> and \<open>busy.exchange(true)\<close> are two atomic accesses: \<open>checked\<close> holds the
  acknowledgement between them. One event loop handles the messages of a connection, one at a time.
\<close>

definition live_message :: "json_lib \<Rightarrow> string \<Rightarrow> bool \<Rightarrow> bool \<Rightarrow> string \<Rightarrow> socket \<Rightarrow> socket" where
  "live_message L token is_text alive message c =
     (if \<not> is_text \<or> \<not> alive \<or> \<not> has_context c then c
      else case live_check L token (sequence c) message of
        Inl e \<Rightarrow> c\<lparr>connected := False\<rparr>
      | Inr Ignored \<Rightarrow> c
      | Inr (Closed code) \<Rightarrow> c\<lparr>connected := False\<rparr>
      | Inr (Accepted ack) \<Rightarrow> c\<lparr>checked := Some ack\<rparr>)"

definition live_exchange :: "string \<Rightarrow> socket \<Rightarrow> socket" where
  "live_exchange ack c =
     (if busy c then c\<lparr>checked := None\<rparr>
      else c\<lparr>checked := None, busy := True, answers := answers c @ [Submitted],
             acks_taken := acks_taken c @ [ack]\<rparr>)"

text \<open>The callback: \<open>++sequence\<close>, the send, \<open>busy = false\<close>.\<close>

definition number_answer :: "nat \<Rightarrow> socket \<Rightarrow> socket" where
  "number_answer i c = c\<lparr>sequence := sequence c + 1, answers := (answers c)[i := Numbered (sequence c + 1)]\<rparr>"

definition send_answer :: "nat \<Rightarrow> u64 \<Rightarrow> socket \<Rightarrow> socket" where
  "send_answer i n c = c\<lparr>answers := (answers c)[i := Delivered],
     frames_sent := (if connected c then frames_sent c @ [n] else frames_sent c)\<rparr>"

definition remove_at :: "nat \<Rightarrow> 'a list \<Rightarrow> 'a list" where
  "remove_at i xs = take i xs @ drop (Suc i) xs"

definition release_answer :: "nat \<Rightarrow> socket \<Rightarrow> socket" where
  "release_answer i c = c\<lparr>busy := False, answers := remove_at i (answers c)\<rparr>"

section \<open>Interleaving\<close>

text \<open>
  Messages arrive at any moment; several answers may, as far as the step relation goes, be under way at
  once. A submitted answer is dropped when the worker ends, and the peer may go away.
\<close>

inductive live_step :: "json_lib \<Rightarrow> string \<Rightarrow> socket \<Rightarrow> socket \<Rightarrow> bool" for L token where
  live_in: "checked c = None \<Longrightarrow> live_step L token c (live_message L token is_text alive message c)"
| live_take: "checked c = Some ack \<Longrightarrow> live_step L token c (live_exchange ack c)"
| live_number: "i < length (answers c) \<Longrightarrow> answers c ! i = Submitted \<Longrightarrow>
    live_step L token c (number_answer i c)"
| live_send: "i < length (answers c) \<Longrightarrow> answers c ! i = Numbered n \<Longrightarrow>
    live_step L token c (send_answer i n c)"
| live_release: "i < length (answers c) \<Longrightarrow> answers c ! i = Delivered \<Longrightarrow>
    live_step L token c (release_answer i c)"
| live_drop: "i < length (answers c) \<Longrightarrow> answers c ! i = Submitted \<Longrightarrow>
    live_step L token c (c\<lparr>answers := remove_at i (answers c)\<rparr>)"
| live_gone: "live_step L token c (c\<lparr>connected := False\<rparr>)"

inductive live_reachable :: "json_lib \<Rightarrow> string \<Rightarrow> http_request \<Rightarrow> socket \<Rightarrow> bool" for L token r where
  live_new: "live_reachable L token r (new_connection r)"
| live_next: "live_reachable L token r c \<Longrightarrow> live_step L token c c' \<Longrightarrow> live_reachable L token r c'"

section \<open>Invariant\<close>

text \<open>
  With \<open>k\<close> messages accepted, at most one answer is under way, \<open>busy\<close> is up while it is, and its stage
  says whether the k-th number has been drawn and sent. After a dropped answer \<open>busy\<close> stays up.
\<close>

definition stage_ok :: "nat \<Rightarrow> socket \<Rightarrow> bool" where
  "stage_ok k c \<longleftrightarrow> (case answers c of
     [] \<Rightarrow> (\<not> busy c \<and> sequence c = of_nat k) \<or>
           (busy c \<and> (\<exists>j. k = Suc j \<and> sequence c = of_nat j \<and> subseq (frames_sent c) (map of_nat [1..<k])))
   | [Submitted] \<Rightarrow> busy c \<and> (\<exists>j. k = Suc j \<and> sequence c = of_nat j \<and> subseq (frames_sent c) (map of_nat [1..<k]))
   | [Numbered n] \<Rightarrow> busy c \<and> 0 < k \<and> n = of_nat k \<and> sequence c = of_nat k \<and>
       subseq (frames_sent c) (map of_nat [1..<k])
   | [Delivered] \<Rightarrow> busy c \<and> sequence c = of_nat k
   | _ \<Rightarrow> False)"

definition early :: "nat \<Rightarrow> string \<Rightarrow> bool" where
  "early k ack \<longleftrightarrow> (\<exists>j \<le> k. ack = sequence_text (of_nat j))"

definition live_inv :: "socket \<Rightarrow> bool" where
  "live_inv c \<longleftrightarrow>
     subseq (frames_sent c) (map of_nat [1..<Suc (length (acks_taken c))]) \<and>
     stage_ok (length (acks_taken c)) c \<and>
     (\<forall>ack. checked c = Some ack \<longrightarrow> early (length (acks_taken c)) ack) \<and>
     (\<forall>i < length (acks_taken c). early i (acks_taken c ! i))"

lemma stage_cases:
  assumes "stage_ok k c"
  obtains "answers c = []" "\<not> busy c" "sequence c = of_nat k"
    | j where "answers c = []" "busy c" "k = Suc j" "sequence c = of_nat j"
      "subseq (frames_sent c) (map of_nat [1..<k])"
    | j where "answers c = [Submitted]" "busy c" "k = Suc j" "sequence c = of_nat j"
      "subseq (frames_sent c) (map of_nat [1..<k])"
    | "answers c = [Numbered (of_nat k)]" "busy c" "0 < k" "sequence c = of_nat k"
      "subseq (frames_sent c) (map of_nat [1..<k])"
    | "answers c = [Delivered]" "busy c" "sequence c = of_nat k"
  using assms by (auto simp: stage_ok_def split: list.splits answer_stage.splits)

lemma sequence_early: "stage_ok k c \<Longrightarrow> early k (sequence_text (sequence c))"
  by (erule stage_cases)
    (auto simp: early_def simp del: upt_Suc intro: exI [of _ k] exI [of _ "k - 1"])

lemma live_inv_new: "live_inv (new_connection r)"
  by (simp add: live_inv_def new_connection_def stage_ok_def)

lemma live_message_cases:
  obtains "live_message L token is_text alive message c = c"
    | "live_message L token is_text alive message c = c\<lparr>connected := False\<rparr>"
    | "live_message L token is_text alive message c = c\<lparr>checked := Some (sequence_text (sequence c))\<rparr>"
proof -
  have ack: "ack = sequence_text (sequence c)"
    if "live_check L token (sequence c) message = Inr (Accepted ack)" for ack
    using that unfolding live_check_def by (auto simp: exn_simps split: if_splits)
  show ?thesis
  proof (cases "\<not> is_text \<or> \<not> alive \<or> \<not> has_context c")
    case True
    then show ?thesis by (intro that(1)) (simp add: live_message_def)
  next
    case False
    then have m: "live_message L token is_text alive message c = (case live_check L token (sequence c) message of
        Inl e \<Rightarrow> c\<lparr>connected := False\<rparr> | Inr Ignored \<Rightarrow> c
      | Inr (Closed code) \<Rightarrow> c\<lparr>connected := False\<rparr>
      | Inr (Accepted ack) \<Rightarrow> c\<lparr>checked := Some ack\<rparr>)"
      by (simp add: live_message_def)
    show ?thesis
    proof (cases "live_check L token (sequence c) message")
      case (Inl e)
      then show ?thesis using m that(2) by simp
    next
      case (Inr x)
      then show ?thesis using m that ack by (cases x) simp_all
    qed
  qed
qed

lemma subseq_snoc: "subseq xs ys \<Longrightarrow> subseq xs (ys @ [y])" "subseq xs ys \<Longrightarrow> subseq (xs @ [y]) (ys @ [y])"
  by (simp_all add: subseq_rev_drop_many list_emb_append_mono)

lemma count_upto: "map of_nat [1..<Suc (Suc k)] = map of_nat [1..<Suc k] @ [of_nat (Suc k)]"
  by simp

lemma early_later: "early k ack \<Longrightarrow> early (Suc k) ack"
  using le_SucI unfolding early_def by blast

lemma live_inv_exchange:
  assumes "live_inv c" "checked c = Some ack"
  shows "live_inv (live_exchange ack c)"
proof (cases "busy c")
  case True
  then show ?thesis using assms by (auto simp: live_inv_def live_exchange_def stage_ok_def split: list.splits answer_stage.splits)
next
  case False
  let ?k = "length (acks_taken c)"
  have seq: "answers c = []" "sequence c = of_nat ?k"
    using assms(1) False unfolding live_inv_def by (auto elim: stage_cases)
  have frames: "subseq (frames_sent c) (map of_nat [1..<Suc ?k])"
    using assms(1) by (simp add: live_inv_def)
  have "\<forall>i < Suc ?k. early i ((acks_taken c @ [ack]) ! i)"
    using assms by (auto simp: live_inv_def nth_append less_Suc_eq)
  moreover have "subseq (frames_sent c) (map of_nat [1..<Suc (Suc ?k)])"
    unfolding count_upto by (rule subseq_snoc [OF frames])
  ultimately show ?thesis
    using seq False frames by (simp add: live_inv_def live_exchange_def stage_ok_def del: upt_Suc)
qed

lemma single_index: "i < length [x] \<Longrightarrow> i = 0"
  by simp

lemma live_inv_step:
  assumes "live_step L token c c'" "live_inv c"
  shows "live_inv c'"
  using assms(1)
proof (cases rule: live_step.cases)
  case (live_in is_text alive message)
  show ?thesis
    using assms(2) live_in sequence_early [of "length (acks_taken c)" c]
    by (cases rule: live_message_cases [of L token is_text alive message c])
      (auto simp: live_inv_def stage_ok_def split: list.splits answer_stage.splits)
next
  case (live_take ack)
  then show ?thesis using live_inv_exchange assms(2) by simp
next
  case (live_number i)
  have "stage_ok (length (acks_taken c)) c" using assms(2) by (simp add: live_inv_def)
  then show ?thesis
    by (rule stage_cases)
      (use live_number assms(2) in \<open>auto simp: live_inv_def number_answer_def stage_ok_def add.commute\<close>)
next
  case (live_send i n)
  have "stage_ok (length (acks_taken c)) c" using assms(2) by (simp add: live_inv_def)
  then show ?thesis
  proof (rule stage_cases)
    assume st: "answers c = [Numbered (of_nat (length (acks_taken c)))]" "busy c" "0 < length (acks_taken c)"
      "sequence c = of_nat (length (acks_taken c))" "subseq (frames_sent c) (map of_nat [1..<length (acks_taken c)])"
    then obtain j where j: "length (acks_taken c) = Suc j" by (cases "length (acks_taken c)") auto
    have "subseq (frames_sent c @ [of_nat (Suc j)]) (map of_nat [1..<Suc (Suc j)])"
      unfolding count_upto using st(5) j by (intro subseq_snoc) simp
    then show ?thesis
      using st j live_send assms(2) by (auto simp: live_inv_def send_answer_def stage_ok_def simp del: upt_Suc)
  qed (use live_send in auto)
next
  case (live_release i)
  have "stage_ok (length (acks_taken c)) c" using assms(2) by (simp add: live_inv_def)
  then show ?thesis
    by (rule stage_cases)
      (use live_release assms(2) in \<open>auto simp: live_inv_def release_answer_def stage_ok_def remove_at_def\<close>)
next
  case (live_drop i)
  have "stage_ok (length (acks_taken c)) c" using assms(2) by (simp add: live_inv_def)
  then show ?thesis
    by (rule stage_cases)
      (use live_drop assms(2) in \<open>auto simp: live_inv_def stage_ok_def remove_at_def\<close>)
next
  case live_gone
  then show ?thesis
    using assms(2) by (auto simp: live_inv_def stage_ok_def split: list.splits answer_stage.splits)
qed

lemma live_reachable_inv: "live_reachable L token r c \<Longrightarrow> live_inv c"
  by (induction rule: live_reachable.induct) (auto intro: live_inv_new live_inv_step)

section \<open>Who is served\<close>

lemma live_check_token:
  "live_check L token seq message = Inr (Accepted ack) \<Longrightarrow>
   \<exists>body. parse_json L message = Inr body \<and> jfield body ''token'' = JString token"
  unfolding live_check_def
  by (auto simp: exn_simps token_equal_iff is_string_iff jindex_def split: if_splits)

definition admitted_peer :: "http_request \<Rightarrow> socket \<Rightarrow> bool" where
  "admitted_peer r c \<longleftrightarrow> has_context c = valid_origin r \<and>
     (checked c \<noteq> None \<or> acks_taken c \<noteq> [] \<longrightarrow> valid_origin r)"

lemma admitted_peer_step: "live_step L token c c' \<Longrightarrow> admitted_peer r c \<Longrightarrow> admitted_peer r c'"
proof (induction rule: live_step.induct)
  case (live_in c is_text alive message)
  then show ?case
    by (cases "live_check L token (sequence c) message")
      (auto simp: live_message_def admitted_peer_def split: live_result.splits)
qed (auto simp: admitted_peer_def live_exchange_def number_answer_def send_answer_def release_answer_def)

lemma reachable_admitted: "live_reachable L token r c \<Longrightarrow> admitted_peer r c"
proof (induction rule: live_reachable.induct)
  case live_new
  then show ?case by (simp add: admitted_peer_def new_connection_def)
next
  case (live_next c c')
  then show ?case using admitted_peer_step by blast
qed

text \<open>
  C31. One snapshot in flight: under every interleaving of messages with the worker's callback, at most one
  answer of a connection is under way and \<open>busy\<close> is up meanwhile; the frames sent carry increasing numbers
  from 1, at most one for each accepted message; the i-th accepted message acknowledged a number that had
  been drawn before; and a message is accepted only on a connection that passed the origin check and
  only with the whole token in it.
\<close>

theorem live_one_in_flight:
  assumes "live_reachable L token r c"
  shows "length (answers c) \<le> 1 \<and> (answers c \<noteq> [] \<longrightarrow> busy c) \<and>
    subseq (frames_sent c) (map of_nat [1..<Suc (length (acks_taken c))]) \<and>
    (\<forall>i < length (acks_taken c). \<exists>j \<le> i. acks_taken c ! i = sequence_text (of_nat j)) \<and>
    (acks_taken c \<noteq> [] \<longrightarrow> valid_origin r) \<and>
    (\<forall>message ack. live_check L token (sequence c) message = Inr (Accepted ack) \<longrightarrow>
       (\<exists>body. parse_json L message = Inr body \<and> jfield body ''token'' = JString token))"
proof -
  note inv = live_reachable_inv [OF assms]
  have "stage_ok (length (acks_taken c)) c" using inv by (simp add: live_inv_def)
  then have "length (answers c) \<le> 1 \<and> (answers c \<noteq> [] \<longrightarrow> busy c)"
    by (rule stage_cases) simp_all
  then show ?thesis
    using inv reachable_admitted [OF assms] live_check_token
    by (simp add: live_inv_def early_def admitted_peer_def del: upt_Suc)
qed

text \<open>
  The acknowledgement is compared before \<open>busy\<close> is taken: if the whole callback runs in between, the
  same acknowledgement is accepted twice, so a peer can get two snapshots for one acknowledgement.
\<close>

definition echo_lib :: json_lib where
  "echo_lib = \<lparr>read_json = (\<lambda>_. Inr (JObject [(''ack'', JString ''0''), (''token'', JString ''secret'')])),
     write_json = (\<lambda>_. []), real_text = (\<lambda>_. [])\<rparr>"

definition plain_request :: http_request where
  "plain_request = \<lparr>req_path = ''/api/v1/live'', req_method = Get, req_body = [], req_header = (\<lambda>_. []),
     req_parameter = (\<lambda>_. [])\<rparr>"

lemma echo_check: "live_check echo_lib ''secret'' 0 [] = Inr (Accepted ''0'')"
proof -
  have "to_string 0 = ''0''" by (subst to_string.simps) code_simp
  then show ?thesis
    by (simp add: live_check_def echo_lib_def parse_json_def jfield_def json_get_def token_equal_iff
        sequence_text_def)
qed

definition live_at :: "bool \<Rightarrow> u64 \<Rightarrow> string option \<Rightarrow> answer_stage list \<Rightarrow> u64 list \<Rightarrow> string list \<Rightarrow> socket" where
  "live_at b n ch as fs ks = \<lparr>has_context = True, connected = True, busy = b, sequence = n, checked = ch,
     answers = as, frames_sent = fs, acks_taken = ks\<rparr>"

lemma live_at_steps:
  "live_step echo_lib ''secret'' (live_at b 0 None as fs ks) (live_at b 0 (Some ''0'') as fs ks)"
  "live_step echo_lib ''secret'' (live_at False n (Some a) as fs ks) (live_at True n None (as @ [Submitted]) fs (ks @ [a]))"
  "live_step echo_lib ''secret'' (live_at b n ch [Submitted] fs ks) (live_at b (n + 1) ch [Numbered (n + 1)] fs ks)"
  "live_step echo_lib ''secret'' (live_at b n ch [Numbered m] fs ks) (live_at b n ch [Delivered] (fs @ [m]) ks)"
  "live_step echo_lib ''secret'' (live_at b n ch [Delivered] fs ks) (live_at False n ch [] fs ks)"
proof -
  show "live_step echo_lib ''secret'' (live_at b 0 None as fs ks) (live_at b 0 (Some ''0'') as fs ks)"
    using live_in [of "live_at b 0 None as fs ks" echo_lib "''secret''" True True "[]"]
    by (simp add: live_message_def live_at_def echo_check)
  show "live_step echo_lib ''secret'' (live_at False n (Some a) as fs ks) (live_at True n None (as @ [Submitted]) fs (ks @ [a]))"
    using live_take [of "live_at False n (Some a) as fs ks" a] by (simp add: live_exchange_def live_at_def)
  show "live_step echo_lib ''secret'' (live_at b n ch [Submitted] fs ks) (live_at b (n + 1) ch [Numbered (n + 1)] fs ks)"
    using live_number [of 0 "live_at b n ch [Submitted] fs ks"] by (simp add: number_answer_def live_at_def)
  show "live_step echo_lib ''secret'' (live_at b n ch [Numbered m] fs ks) (live_at b n ch [Delivered] (fs @ [m]) ks)"
    using live_send [of 0 "live_at b n ch [Numbered m] fs ks" m] by (simp add: send_answer_def live_at_def)
  show "live_step echo_lib ''secret'' (live_at b n ch [Delivered] fs ks) (live_at False n ch [] fs ks)"
    using live_release [of 0 "live_at b n ch [Delivered] fs ks"]
    by (simp add: release_answer_def remove_at_def live_at_def)
qed

lemma live_at_new: "new_connection plain_request = live_at False 0 None [] [] []"
  by (simp add: new_connection_def valid_origin_def plain_request_def live_at_def)

theorem same_ack_taken_twice:
  "\<exists>c. live_reachable echo_lib ''secret'' plain_request c \<and> acks_taken c = [''0'', ''0'']"
proof -
  note step = live_next [where token = "''secret''" and L = echo_lib]
  have "live_reachable echo_lib ''secret'' plain_request (live_at False 0 None [] [] [])"
    using live_new live_at_new by metis
  from step [OF this live_at_steps(1)] have "live_reachable echo_lib ''secret'' plain_request
      (live_at False 0 (Some ''0'') [] [] [])" .
  from step [OF this live_at_steps(2)] have "live_reachable echo_lib ''secret'' plain_request
      (live_at True 0 None [Submitted] [] [''0''])" by simp
  from step [OF this live_at_steps(1)] have "live_reachable echo_lib ''secret'' plain_request
      (live_at True 0 (Some ''0'') [Submitted] [] [''0''])" .
  from step [OF this live_at_steps(3)] have "live_reachable echo_lib ''secret'' plain_request
      (live_at True 1 (Some ''0'') [Numbered 1] [] [''0''])" by simp
  from step [OF this live_at_steps(4)] have "live_reachable echo_lib ''secret'' plain_request
      (live_at True 1 (Some ''0'') [Delivered] [1] [''0''])" by simp
  from step [OF this live_at_steps(5)] have "live_reachable echo_lib ''secret'' plain_request
      (live_at False 1 (Some ''0'') [] [1] [''0''])" .
  from step [OF this live_at_steps(2)] have "live_reachable echo_lib ''secret'' plain_request
      (live_at True 1 None [Submitted] [1] [''0'', ''0''])" by simp
  moreover have "acks_taken (live_at True 1 None [Submitted] [1] [''0'', ''0'']) = [''0'', ''0'']"
    by (simp add: live_at_def)
  ultimately show ?thesis by blast
qed

theorem live_one_in_flight_witness:
  "\<exists>c. live_reachable echo_lib ''secret'' plain_request c \<and> acks_taken c \<noteq> [] \<and> length (answers c) \<le> 1"
proof -
  have "live_reachable echo_lib ''secret'' plain_request (live_at False 0 None [] [] [])"
    using live_new live_at_new by metis
  from live_next [OF live_next [OF this live_at_steps(1)] live_at_steps(2)]
  have c: "live_reachable echo_lib ''secret'' plain_request (live_at True 0 None [Submitted] [] [''0''])" by simp
  moreover have "length (answers (live_at True 0 None [Submitted] [] [''0''])) \<le> 1"
    using live_one_in_flight [OF c] by (rule conjunct1)
  moreover have "acks_taken (live_at True 0 None [Submitted] [] [''0'']) \<noteq> []"
    by (simp add: live_at_def)
  ultimately show ?thesis by blast
qed

end
