(* ===== verification/Worker.thy ===== *)
theory Worker
  imports Gateway_Props
begin

text \<open>
  The application worker never stops working: no operation of the controller, the sampler or an endpoint
  throws anything but a \<open>std::exception\<close>, so no exception leaves the worker's thread function, every
  request the worker holds is answered by the end of its round, and after the loop a configuration that waits
  for confirmation is rolled back.
\<close>

section \<open>Only standard exceptions\<close>

definition std_only :: "('e, 's, 'a) act \<Rightarrow> bool" where
  "std_only m \<longleftrightarrow> (\<forall>E s. fst (m E s) \<noteq> Inl Foreign_exception)"

named_theorems std_rules

lemma std_onlyD: "std_only m \<Longrightarrow> m E s \<noteq> (Inl Foreign_exception, t)"
  unfolding std_only_def by (metis fst_conv)

lemma std_returnP [std_rules]: "std_only (returnP x)"
  by (simp add: std_only_def returnP_def)

lemma std_throwP [std_rules]: "e \<noteq> Foreign_exception \<Longrightarrow> std_only (throwP e)"
  by (simp add: std_only_def throwP_def)

lemma std_liftP [std_rules]: "r \<noteq> Inl Foreign_exception \<Longrightarrow> std_only (liftP r)"
  by (simp add: std_only_def liftP_def)

lemma std_bindP [std_rules]:
  assumes "std_only m" "\<And>x. std_only (f x)"
  shows "std_only (bindP m f)"
  unfolding std_only_def
proof (intro allI)
  fix E s
  show "fst (bindP m f E s) \<noteq> Inl Foreign_exception"
    using assms unfolding std_only_def bindP_def
    by (cases "m E s"; cases "fst (m E s)") (auto, metis fst_conv)
qed

lemma std_thenP [std_rules]: "std_only m \<Longrightarrow> std_only n \<Longrightarrow> std_only (thenP m n)"
  by (simp add: thenP_def std_bindP)

lemma std_askP [std_rules]: "(\<And>E. std_only (f E)) \<Longrightarrow> std_only (askP f)"
  by (simp add: std_only_def askP_def)

lemma std_getP [std_rules]: "(\<And>s. std_only (f s)) \<Longrightarrow> std_only (getP f)"
  by (simp add: std_only_def getP_def)

lemma std_whenP [std_rules]: "std_only m \<Longrightarrow> std_only (whenP b m)"
  by (simp add: whenP_def std_returnP)

lemma std_throw_if [std_rules]: "e \<noteq> Foreign_exception \<Longrightarrow> std_only (throw_if b e)"
  by (simp add: throw_if_def std_returnP std_throwP)

lemma std_if [std_rules]: "std_only m \<Longrightarrow> std_only n \<Longrightarrow> std_only (if b then m else n)"
  by simp

lemma std_option [std_rules]:
  "std_only m \<Longrightarrow> (\<And>x. std_only (f x)) \<Longrightarrow> std_only (case v of None \<Rightarrow> m | Some x \<Rightarrow> f x)"
  by (cases v) simp_all

lemma std_catchP [std_rules]:
  assumes "std_only m" "\<And>e. std_only (h e)"
  shows "std_only (catchP m h)"
  unfolding std_only_def
proof (intro allI)
  fix E s
  show "fst (catchP m h E s) \<noteq> Inl Foreign_exception"
    using assms unfolding std_only_def catchP_def is_std_exception_def
    by (cases "m E s"; cases "fst (m E s)") (auto, metis fst_conv)
qed

lemma std_run_steps [std_rules]: "(\<And>m. m \<in> set ms \<Longrightarrow> std_only m) \<Longrightarrow> std_only (run_steps ms)"
  by (induction ms) (simp_all add: std_rules)

lemma std_emits: "emits P m \<Longrightarrow> std_only m"
  by (simp add: emits_def std_only_def)

lemma std_let [std_rules]: "std_only (f x) \<Longrightarrow> std_only (let y = x in f y)"
  by simp

section \<open>The controller\<close>

lemma std_state [std_rules]:
  "std_only (set_state k v)" "std_only (state_at k)" "std_only (set_deadline t)" "std_only put_state"
  "std_only now" "std_only (read_file path)" "std_only (read_config v)" "std_only require_enabled"
  "std_only (write_file path value)" "std_only (as_stringP v)"
proof -
  show "std_only (set_state k v)" "std_only (set_deadline t)" "std_only put_state" "std_only now"
    by (auto simp: std_only_def set_state_def set_deadline_def put_state_def now_def emit_def Let_def
        split: option.splits)
  show "std_only (state_at k)" by (rule std_emits [OF emits_state_at])
  show "std_only (read_config v)" by (rule std_emits [OF emits_read_config])
  show "std_only (as_stringP v)" by (rule std_emits [OF emits_as_stringP])
  show "std_only (read_file path)" by (rule std_emits [OF emits_read_file, of "\<lambda>_. True"]) simp
  show "std_only (write_file path value)" by (rule std_emits [OF emits_plain_write_file])
  show "std_only require_enabled" unfolding require_enabled_def by (intro std_rules) simp
qed

lemma std_parts [std_rules]:
  "std_only (preflight c)" "std_only (install c)" "std_only (restore_work c)" "std_only (attempt remove_guard)"
  "std_only interfaces"
  by (rule std_emits, rule emits_preflight emits_install emits_restore_work
      emits_attempt [OF emits_remove_guard]
      emits_json_command [of "[''ip'', ''-j'', ''address'', ''show'']", folded interfaces_def];
      simp add: inspects_def)+

lemma std_restore [std_rules]: "std_only restore"
  unfolding restore_def finish_restore_def
  by (intro std_rules) (auto intro: std_rules)

lemma std_operations [std_rules]:
  "std_only tick" "std_only confirm" "std_only rollback" "std_only (apply_config c)" "std_only state_json"
  unfolding tick_def confirm_def rollback_def apply_config_def state_json_def journal_def
    install_and_wait_def undo_def
  by (intro std_rules; auto intro!: std_rules)+

section \<open>The runtime\<close>

lemma std_on_net [std_rules]: "std_only m \<Longrightarrow> std_only (on_net m)"
  by (auto simp: std_only_def on_net_def split: prod.splits) (metis fst_conv)

lemma std_modifyP [std_rules]: "std_only (modifyP f)"
  by (simp add: std_only_def modifyP_def)

lemma std_callP [std_rules]: "std_only (callP ask ev)"
  by (simp add: std_only_def callP_def Let_def)

lemma std_replies [std_rules]: "std_only (no_error r)"
  unfolding no_error_def by (cases r) (simp_all add: std_returnP std_throwP)

lemma json_std [simp]:
  "json_get v k d \<noteq> Inl Foreign_exception" "to_int64 x \<noteq> Inl Foreign_exception"
  "jindex v k \<noteq> Inl Foreign_exception" "as_string L x \<noteq> Inl Foreign_exception"
proof -
  show "json_get v k d \<noteq> Inl Foreign_exception" "jindex v k \<noteq> Inl Foreign_exception"
    by (simp_all add: json_get_def jindex_def)
  show "to_int64 x \<noteq> Inl Foreign_exception" "as_string L x \<noteq> Inl Foreign_exception"
    by (cases x; simp)+
qed

lemma aggregation_std [simp]: "add_packets L iface ps a \<noteq> Inl Foreign_exception"
proof -
  have "flow_entry iface key p j old \<noteq> Inl Foreign_exception" for key p j old
    unfolding flow_entry_def by (intro ebind_std json_std) (simp add: Let_def)
  then have "count_flow L iface p j a \<noteq> Inl Foreign_exception" for p j a
    unfolding count_flow_def flow_key_def by (intro ebind_std) (simp_all add: ebind_std)
  then have "add_packet L iface p a \<noteq> Inl Foreign_exception" for p a
    unfolding add_packet_def Let_def by (intro ebind_std) (simp_all add: ebind_std)
  then show ?thesis
    by (induction ps arbitrary: a) (simp_all add: ebind_std)
qed

text \<open>The operations of the database throw nothing but \<open>std::exception\<close>s.\<close>

lemma std_storeP:
  assumes "\<And>E h db. fst (operation E h db) \<noteq> Inl Foreign_exception"
  shows "std_only (storeP operation ev)"
  using assms by (auto simp: std_only_def storeP_def split: prod.splits) (metis fst_conv)

lemma insert_flows_std: "insert_flows sql L n fs rows \<noteq> Inl Foreign_exception"
proof (induction sql L n fs rows rule: insert_flows.induct)
  case (2 sql L n flow fs rows)
  have "flow_values L flow \<noteq> Inl Foreign_exception"
    unfolding flow_values_def by (intro ebind_std json_std) simp
  then show ?case
    using 2 by (cases "flow_values L flow") (auto split: option.splits)
qed simp

lemma connection_rows_std: "connection_rows L rows \<noteq> Inl Foreign_exception"
proof (induction L rows rule: connection_rows.induct)
  case (2 L k r rows)
  have "connection_row L r \<noteq> Inl Foreign_exception"
    unfolding connection_row_def by (intro ebind_std) (simp_all add: parse_json_def split: sum.splits)
  with 2 show ?case by (simp add: ebind_std)
qed simp

lemma store_std:
  "fst (store_put sql L key v db) \<noteq> Inl Foreign_exception"
  "store_lookup sql L key db \<noteq> Inl Foreign_exception"
  "fst (save_sample sql L ts n b details db) \<noteq> Inl Foreign_exception"
  "fst (record_flows sql L ord wall fs db) \<noteq> Inl Foreign_exception"
  "connections sql L ord db \<noteq> Inl Foreign_exception"
  "store_history sql extract frm til interval db \<noteq> Inl Foreign_exception"
proof -
  show "fst (record_flows sql L ord wall fs db) \<noteq> Inl Foreign_exception"
    using insert_flows_std [of sql L 1 fs "flow_table db"]
    by (auto simp: record_flows_def split: option.splits sum.splits prod.splits)
  show "connections sql L ord db \<noteq> Inl Foreign_exception"
    by (simp add: connections_def ebind_std connection_rows_std split: option.splits)
qed (simp_all add: store_put_def store_lookup_def save_sample_def store_history_def parse_json_def Let_def
    split: option.splits sum.splits)

lemma std_store_calls [std_rules]:
  "std_only (save_setting key v)" "std_only (load_setting key)" "std_only (store_sample ts p b d)"
  "std_only (store_flows fs)" "std_only store_connections" "std_only (ask_history frm til interval)"
  unfolding save_setting_def load_setting_def store_sample_def store_flows_def store_connections_def
    ask_history_def
  by (rule std_storeP; simp add: store_std)+

lemma std_calls [std_rules]:
  "std_only (live_capture name)" "std_only engine_start" "std_only engine_stop" "std_only (engine_drain n)"
  "std_only engine_snapshot" "std_only now_seconds" "std_only steady_now"
  unfolding live_capture_def engine_start_def engine_stop_def engine_drain_def engine_snapshot_def
    now_seconds_def steady_now_def
  by (intro std_rules)+

lemma std_sample [std_rules]: "std_only (sample force)"
  unfolding sample_def aggregate_def publish_period_def store_period_def Let_def
  by (intro std_rules) simp

lemma std_start_capture [std_rules]: "std_only (start_capture name)"
  unfolding start_capture_def stop_and_sample_def by (intro std_rules) (auto intro!: std_rules)

lemma std_stop_capture [std_rules]: "std_only stop_capture"
  unfolding stop_capture_def stop_and_sample_def by (intro std_rules) (auto intro!: std_rules)

lemma std_snapshot [std_rules]: "std_only snapshot_json"
  unfolding snapshot_json_def Let_def by (intro std_rules)

lemma stoll_std [simp]: "stoll text \<noteq> Inl Foreign_exception"
  by (simp add: stoll_def Let_def)

lemma query_number_std [simp]: "query_number v fallback \<noteq> Inl Foreign_exception"
  using stoll_std [of v] by (cases "stoll v") (auto simp: query_number_def split: if_splits)

lemma std_body [std_rules]: "std_only (body_json r)" "std_only (body_config r)"
  unfolding body_json_def body_config_def by (intro std_rules; simp)+

lemma std_request [std_rules]: "std_only (request r)"
  unfolding request_def status_json_def validate_request_def capture_request_def history_request_def
    Let_def
  by (intro std_rules) simp_all

section \<open>The worker's steps\<close>

text \<open>Every task in the queue, and the one held, is an endpoint or a snapshot.\<close>

definition own_task :: "task \<Rightarrow> bool" where
  "own_task t \<longleftrightarrow> std_only (snd t)"

definition tasks_ok :: "control \<Rightarrow> bool" where
  "tasks_ok c \<longleftrightarrow> list_all own_task (tasks c) \<and>
     (case worker_at c of Holding (Some t) \<Rightarrow> own_task t | _ \<Rightarrow> True)"

lemma tasks_ok_submit: "std_only m \<Longrightarrow> tasks_ok c \<Longrightarrow> tasks_ok (submit m c)"
  by (auto simp: tasks_ok_def submit_def reply_def own_task_def Let_def)

lemma tasks_ok_gateway: "tasks_ok c \<Longrightarrow> tasks_ok (gateway token r c)"
  using tasks_ok_submit [OF std_request] by (auto simp: gateway_def) (auto simp: tasks_ok_def reply_def)

lemma tasks_ok_step: "control_step E token c c' \<Longrightarrow> tasks_ok c \<Longrightarrow> tasks_ok c'"
proof (induction rule: control_step.induct)
  case (step_http c r)
  then show ?case by (simp add: tasks_ok_gateway)
next
  case (step_live c)
  then show ?case by (simp add: tasks_ok_submit std_snapshot)
next
  case (step_round c t c')
  obtain s where c': "c' = c\<lparr>replies := replies c', app := s\<rparr>"
    using worker_round_keeps [OF step_round.hyps(2)] by blast
  show ?case using step_round.prems by (subst c') (simp add: tasks_ok_def)
next
  case (step_exit c c')
  then show ?case by (auto simp: tasks_ok_def dest!: worker_exit_keeps)
qed (auto simp: tasks_ok_def)

lemma reachable_tasks_ok: "control_reachable E token s c \<Longrightarrow> tasks_ok c"
proof (induction rule: control_reachable.induct)
  case reach_start
  then show ?case by (simp add: tasks_ok_def start_control_def)
next
  case (reach_step c c')
  then show ?case using tasks_ok_step by blast
qed

lemma run_caught_some:
  assumes "std_only m" "\<And>e. std_only (h e)" "\<And>e E s. \<exists>t. h e E s = (Inr (), t)"
  shows "\<exists>c'. run_caught E m h c = Some c'"
proof -
  obtain r s where m: "m E (app c) = (r, s)" by (cases "m E (app c)")
  show ?thesis
  proof (cases r)
    case (Inl e)
    obtain t where "h e E s = (Inr (), t)" using assms(3) by blast
    moreover have "is_std_exception e"
      using std_onlyD [OF assms(1), of E "app c" s] m Inl by (auto simp: is_std_exception_def)
    ultimately show ?thesis using m Inl by (simp add: run_caught_def catchP_def)
  next
    case (Inr x)
    then show ?thesis using m by (simp add: run_caught_def catchP_def)
  qed
qed

lemma answer_some: "r \<noteq> Inl Foreign_exception \<Longrightarrow> \<exists>v code. answer r = Some (v, code) \<and> code \<in> {200, 422, 409}"
  by (auto simp: answer_def split: sum.splits exn.splits)

lemma run_task_some:
  assumes "\<And>i m. t = Some (i, m) \<Longrightarrow> std_only m"
  shows "\<exists>c'. run_task E t c = Some c'"
proof (cases t)
  case (Some im)
  obtain i m where im: "im = (i, m)" by (cases im)
  obtain r s where m: "m E (app c) = (r, s)" by (cases "m E (app c)")
  then have "r \<noteq> Inl Foreign_exception"
    using assms Some im std_onlyD by metis
  then show ?thesis
    using m Some im answer_some by (fastforce simp: run_task_def)
qed (simp add: run_task_def)

lemma worker_round_some:
  assumes "\<And>i m. t = Some (i, m) \<Longrightarrow> std_only m"
  shows "\<exists>c'. worker_round E t c = Some c'"
proof -
  obtain c1 where "run_tick E c = Some c1"
    using run_caught_some [of "on_net tick" "\<lambda>_. returnP ()" E c]
    by (auto simp: run_tick_def std_rules returnP_def)
  moreover obtain c2 where "run_task E t c1 = Some c2"
    using run_task_some [of t E c1] assms by blast
  moreover obtain c3 where "run_sample E c2 = Some c3"
    using run_caught_some [of "sample False" "\<lambda>e. modifyP (\<lambda>s. s\<lparr>capture_failure := what e\<rparr>)" E c2]
    by (auto simp: run_sample_def std_rules modifyP_def)
  ultimately show ?thesis by (simp add: worker_round_def)
qed

lemma std_shutdown_rollback: "std_only shutdown_rollback"
  unfolding shutdown_rollback_def by (intro std_rules)

lemma worker_exit_some: "\<exists>c'. worker_exit E c = Some c'"
proof -
  have "\<exists>c'. run_caught E shutdown_rollback (\<lambda>_. returnP ()) d = Some c'" for d
    using run_caught_some [OF std_shutdown_rollback, of "\<lambda>_. returnP ()" E d]
    by (auto simp: std_rules returnP_def)
  then show ?thesis by (auto simp: worker_exit_def Let_def)
qed

section \<open>Every accepted request is answered\<close>

text \<open>The worker's own next step, a function of the state.\<close>

definition own_step :: "rt_env \<Rightarrow> control \<Rightarrow> control option" where
  "own_step E c = (case worker_at c of
     Testing \<Rightarrow> Some (c\<lparr>worker_at := (if stopping c then Leaving else Taking)\<rparr>)
   | Taking \<Rightarrow> (case tasks c of
       [] \<Rightarrow> Some (c\<lparr>worker_at := Holding None\<rparr>)
     | t # ts \<Rightarrow> Some (c\<lparr>tasks := ts, worker_at := Holding (Some t)\<rparr>))
   | Holding t \<Rightarrow> map_option (\<lambda>c. c\<lparr>worker_at := Testing\<rparr>) (worker_round E t c)
   | Leaving \<Rightarrow> map_option (\<lambda>c. c\<lparr>worker_at := Finished\<rparr>) (worker_exit E c)
   | Finished \<Rightarrow> None)"

lemma own_step_is_step: "own_step E c = Some c' \<Longrightarrow> control_step E token c c'"
  by (auto simp: own_step_def intro: control_step.intros split: worker_at.splits list.splits)

fun own_steps :: "rt_env \<Rightarrow> nat \<Rightarrow> control \<Rightarrow> control option" where
  "own_steps E 0 c = Some c"
| "own_steps E (Suc n) c = Option.bind (own_step E c) (own_steps E n)"

text \<open>Test, take, run: one request answered.\<close>

lemma answer_first:
  assumes "worker_at c = Testing" "\<not> stopping c" "tasks c = t # ts" "tasks_ok c"
  obtains c' where "own_steps E 3 c = Some c'" "worker_at c' = Testing" "\<not> stopping c'" "tasks c' = ts"
    "tasks_ok c'" "answered c' = answered c @ [fst t]" "refusals c' = refusals c"
proof -
  let ?d = "c\<lparr>tasks := ts, worker_at := Holding (Some t)\<rparr>"
  obtain i m where t: "t = (i, m)" by (cases t)
  have "std_only m" using assms(3,4) t by (simp add: tasks_ok_def own_task_def)
  then obtain d where d: "worker_round E (Some t) ?d = Some d"
    using worker_round_some [of "Some t" E ?d] t by auto
  obtain s v code where "\<not> refused code" "replies d = replies c @ [(i, v, code)]"
    "d = ?d\<lparr>replies := replies d, app := s\<rparr>"
    using worker_round_keeps [OF d] t by auto
  note d' = this
  let ?c' = "d\<lparr>worker_at := Testing\<rparr>"
  have "own_steps E 3 c = Some ?c'"
    using assms d by (simp add: own_step_def numeral_3_eq_3)
  moreover have "answered ?c' = answered c @ [fst t]" "refusals ?c' = refusals c"
    using d'(1,2) t by (simp_all add: answered_def refusals_def)
  moreover have "tasks ?c' = ts" "\<not> stopping ?c'" "worker_at ?c' = Testing"
    by (subst d'(3), simp add: assms(2))+
  moreover have "tasks_ok ?c'"
    using assms(3,4) calculation(4) by (simp add: tasks_ok_def)
  ultimately show ?thesis using that by blast
qed

lemma own_steps_add: "own_steps E (m + n) c = Option.bind (own_steps E m c) (own_steps E n)"
  by (induction m arbitrary: c) (auto split: Option.bind_splits)

lemma answer_all:
  assumes "worker_at c = Testing" "\<not> stopping c" "tasks_ok c"
  shows "\<exists>c'. own_steps E (3 * length (tasks c)) c = Some c' \<and> tasks c' = [] \<and>
    answered c' = answered c @ map fst (tasks c) \<and> refusals c' = refusals c"
  using assms
proof (induction "tasks c" arbitrary: c)
  case Nil
  then show ?case by (metis append_Nil2 list.map_disc_iff list.size(3) mult_0_right own_steps.simps(1))
next
  case (Cons t ts)
  obtain d where d: "own_steps E 3 c = Some d" "worker_at d = Testing" "\<not> stopping d" "tasks d = ts"
    "tasks_ok d" "answered d = answered c @ [fst t]" "refusals d = refusals c"
    using answer_first [OF Cons.prems(1,2) Cons.hyps(2) [symmetric] Cons.prems(3)] by blast
  obtain c' where c': "own_steps E (3 * length (tasks d)) d = Some c'" "tasks c' = []"
    "answered c' = answered d @ map fst (tasks d)" "refusals c' = refusals d"
    using Cons.hyps(1) d by blast
  have "3 * length (tasks c) = 3 + 3 * length (tasks d)"
    using Cons.hyps(2) [symmetric] d(4) by simp
  then have "own_steps E (3 * length (tasks c)) c = Some c'"
    using own_steps_add [of E 3] d(1) c'(1) by simp
  then show ?case
    using c' d Cons.hyps(2) [symmetric] by simp
qed

text \<open>
  C19. Every accepted request is answered: as long as no stop is requested, the worker can always make
  its next step, no exception ends it, and the n requests that wait when it is at the head of its loop
  are all answered, in order, within 3 n of its own steps, whatever the system and the kernel do. After
  a stop the worker still ends in the regular way.
\<close>

theorem accepted_requests_answered:
  assumes "control_reachable E token s c" "worker_at c = Testing" "\<not> stopping c"
  shows "(\<exists>c'. own_steps E (3 * length (tasks c)) c = Some c' \<and> tasks c' = [] \<and>
      answered c' = answered c @ map fst (tasks c) \<and> refusals c' = refusals c) \<and>
    (\<forall>d. control_reachable E token s d \<and> worker_at d \<noteq> Finished \<longrightarrow>
      (\<exists>d'. own_step E d = Some d' \<and> control_step E token d d'))"
proof (intro conjI allI impI)
  show "\<exists>c'. own_steps E (3 * length (tasks c)) c = Some c' \<and> tasks c' = [] \<and>
      answered c' = answered c @ map fst (tasks c) \<and> refusals c' = refusals c"
    by (rule answer_all [OF assms(2,3) reachable_tasks_ok [OF assms(1)]])
next
  fix d
  assume d: "control_reachable E token s d \<and> worker_at d \<noteq> Finished"
  have "own_step E d \<noteq> None"
  proof (cases "worker_at d")
    case (Holding t)
    then have "\<And>i m. t = Some (i, m) \<Longrightarrow> std_only m"
      using reachable_tasks_ok d by (fastforce simp: tasks_ok_def own_task_def)
    then show ?thesis
      using Holding worker_round_some [of t E d] by (auto simp: own_step_def)
  next
    case Leaving
    then show ?thesis using worker_exit_some [of E d] by (auto simp: own_step_def)
  qed (use d in \<open>auto simp: own_step_def split: list.splits\<close>)
  then show "\<exists>d'. own_step E d = Some d' \<and> control_step E token d d'"
    using own_step_is_step by blast
qed

theorem accepted_requests_answered_witness:
  "\<forall>E s. \<exists>c c'. control_reachable E ''secret'' s c \<and> tasks c \<noteq> [] \<and>
     own_steps E (3 * length (tasks c)) c = Some c' \<and> tasks c' = []"
proof (intro allI)
  fix E s
  let ?c = "submit snapshot_json (start_control s)"
  have r: "control_reachable E ''secret'' s ?c"
    by (rule reach_step [OF reach_start step_live])
  have "worker_at ?c = Testing" "\<not> stopping ?c" "tasks ?c \<noteq> []"
    by (simp_all add: submit_def start_control_def max_tasks_def Let_def)
  with accepted_requests_answered [OF r this(1,2)] r
  show "\<exists>c c'. control_reachable E ''secret'' s c \<and> tasks c \<noteq> [] \<and>
      own_steps E (3 * length (tasks c)) c = Some c' \<and> tasks c' = []" by blast
qed

end
