(* ===== verification/Frames.thy ===== *)
theory Frames
  imports Worker
begin

text \<open>
  What parts of the appliance's state a program can change. The interface \<open>program_frame\<close> is a reflexive and
  transitive relation between the states before and after; its rules carry it through the program
  constructs. Its interpretations: the network controller is not touched (sampling), and nothing is
  changed at all but the logs of calls that only ask (the read-only endpoints).
\<close>

section \<open>Interface\<close>

definition frames :: "('s \<Rightarrow> 's \<Rightarrow> bool) \<Rightarrow> ('e, 's, 'a) act \<Rightarrow> bool" where
  "frames R m \<longleftrightarrow> (\<forall>E s. R s (snd (m E s)))"

lemma framesD: "frames R m \<Longrightarrow> m E s = (r, t) \<Longrightarrow> R s t"
  unfolding frames_def by (metis snd_conv)

locale program_frame =
  fixes R :: "'s \<Rightarrow> 's \<Rightarrow> bool"
  assumes refl: "R s s" and trans: "R s t \<Longrightarrow> R t u \<Longrightarrow> R s u"
begin

lemma pure: "frames R (returnP x)" "frames R (throwP e)" "frames R (liftP r)"
  by (simp_all add: frames_def returnP_def throwP_def liftP_def refl)

lemma bind: "frames R m \<Longrightarrow> (\<And>x. frames R (f x)) \<Longrightarrow> frames R (bindP m f)"
  unfolding frames_def bindP_def by (auto split: prod.splits sum.splits) (metis snd_conv trans)+

lemma then_rule: "frames R m \<Longrightarrow> frames R n \<Longrightarrow> frames R (thenP m n)"
  by (simp add: thenP_def bind)

lemma catch: "frames R m \<Longrightarrow> (\<And>e. frames R (h e)) \<Longrightarrow> frames R (catchP m h)"
  unfolding frames_def catchP_def by (auto split: prod.splits sum.splits) (metis snd_conv trans)+

lemma ask: "(\<And>E. frames R (f E)) \<Longrightarrow> frames R (askP f)"
  by (simp add: frames_def askP_def)

lemma get: "(\<And>s. frames R (f s)) \<Longrightarrow> frames R (getP f)"
  by (simp add: frames_def getP_def)

lemma conditional: "frames R m \<Longrightarrow> frames R (whenP b m)" "frames R (throw_if b e)"
  by (simp_all add: whenP_def throw_if_def pure)

lemma branch: "frames R m \<Longrightarrow> frames R n \<Longrightarrow> frames R (if b then m else n)"
  by simp

lemma option: "frames R m \<Longrightarrow> (\<And>x. frames R (f x)) \<Longrightarrow> frames R (case v of None \<Rightarrow> m | Some x \<Rightarrow> f x)"
  by (cases v) simp_all

lemma let_rule: "frames R (f x) \<Longrightarrow> frames R (let y = x in f y)"
  by simp

lemmas rules = pure bind then_rule catch ask get conditional branch option let_rule

end

section \<open>The controller is not touched\<close>

definition same_net :: "runtime \<Rightarrow> runtime \<Rightarrow> bool" where
  "same_net s t \<longleftrightarrow> net t = net s"

interpretation away: program_frame same_net
  by unfold_locales (simp_all add: same_net_def)

lemma frames_callP_net: "frames same_net (callP ask ev)"
  by (simp add: frames_def callP_def same_net_def Let_def)

lemma frames_modifyP: "(\<And>s. R s (f s)) \<Longrightarrow> frames R (modifyP f)"
  by (simp add: frames_def modifyP_def)

lemma frames_storeP_net: "frames same_net (storeP operation ev)"
  by (simp add: frames_def storeP_def same_net_def split: prod.splits)

lemma frames_replies_net: "frames same_net (no_error r)"
  unfolding no_error_def by (cases r) (simp_all add: away.rules)

lemma sample_away: "frames same_net (sample force)"
  unfolding sample_def aggregate_def publish_period_def store_period_def engine_drain_def engine_snapshot_def
    now_seconds_def steady_now_def store_sample_def store_flows_def Let_def
  by (intro away.rules frames_callP_net frames_storeP_net frames_replies_net frames_modifyP) (simp_all add: same_net_def)

section \<open>Nothing is changed\<close>

text \<open>Calls that only ask.\<close>

fun asks :: "rt_event \<Rightarrow> bool" where
  "asks (Engine_counters _) = True"
| "asks (List_flows _) = True"
| "asks (Query_history _ _ _ _) = True"
| "asks (Wall_clock _) = True"
| "asks _ = False"

definition unchanged :: "runtime \<Rightarrow> runtime \<Rightarrow> bool" where
  "unchanged s t \<longleftrightarrow>
     t\<lparr>net := net s, calls := calls s\<rparr> = s \<and> same_state (net s) (net t) \<and>
     (\<exists>evs. calls t = calls s @ evs \<and> list_all asks evs) \<and>
     (\<exists>evs. trace (net t) = trace (net s) @ evs \<and> list_all read_only evs)"

lemma unchanged_refl: "unchanged s s"
  by (simp add: unchanged_def)

lemma unchanged_trans:
  assumes "unchanged s t" "unchanged t u"
  shows "unchanged s u"
proof -
  have t: "u\<lparr>net := net t, calls := calls t\<rparr> = t"
    using assms(2) by (simp add: unchanged_def)
  have "u\<lparr>net := net s, calls := calls s\<rparr> =
      (u\<lparr>net := net t, calls := calls t\<rparr>)\<lparr>net := net s, calls := calls s\<rparr>" by simp
  also have "\<dots> = t\<lparr>net := net s, calls := calls s\<rparr>" by (simp only: t)
  also have "\<dots> = s" using assms(1) by (simp add: unchanged_def)
  finally have fields: "u\<lparr>net := net s, calls := calls s\<rparr> = s" .
  obtain ev ns where "calls t = calls s @ ev" "list_all asks ev" "trace (net t) = trace (net s) @ ns"
    "list_all read_only ns" "same_state (net s) (net t)"
    using assms(1) unfolding unchanged_def by blast
  moreover obtain ev' ns' where "calls u = calls t @ ev'" "list_all asks ev'"
    "trace (net u) = trace (net t) @ ns'" "list_all read_only ns'" "same_state (net t) (net u)"
    using assms(2) unfolding unchanged_def by blast
  ultimately have "calls u = calls s @ (ev @ ev') \<and> list_all asks (ev @ ev')"
    "trace (net u) = trace (net s) @ (ns @ ns') \<and> list_all read_only (ns @ ns')"
    "same_state (net s) (net u)"
    using same_state_trans by auto
  with fields show ?thesis unfolding unchanged_def by blast
qed

interpretation quiet: program_frame unchanged
  by unfold_locales (fact unchanged_refl, fact unchanged_trans)

lemma frames_callP_quiet: "(\<And>x. asks (ev x)) \<Longrightarrow> frames unchanged (callP ask ev)"
  by (simp add: frames_def callP_def unchanged_def Let_def)

lemma frames_storeP_quiet:
  assumes "\<And>E h db. snd (operation E h db) = db" "\<And>x. asks (ev x)"
  shows "frames unchanged (storeP operation ev)"
proof -
  have "snd (storeP operation ev E s) = s\<lparr>calls := calls s @ [ev (fst (operation E (calls s) (database s)))]\<rparr>" for E s
    using assms(1) [of E "calls s" "database s"]
    by (cases "operation E (calls s) (database s)") (simp add: storeP_def)
  then show ?thesis
    using assms(2) by (simp add: frames_def unchanged_def)
qed

lemma frames_on_net: "emits read_only m \<Longrightarrow> frames unchanged (on_net m)"
  unfolding frames_def on_net_def unchanged_def emits_def by (auto split: prod.splits) (metis snd_conv)+

lemmas quiet_calls = frames_callP_quiet frames_storeP_quiet frames_on_net emits_state_json emits_interfaces

lemma snapshot_quiet: "frames unchanged snapshot_json"
  unfolding snapshot_json_def engine_snapshot_def Let_def
  by (intro quiet.rules quiet_calls) simp

lemma body_quiet: "frames unchanged (body_config r)"
  unfolding body_config_def body_json_def by (intro quiet.rules)

lemma history_quiet: "frames unchanged (history_request r)"
  unfolding history_request_def ask_history_def now_seconds_def
  by (intro quiet.rules quiet_calls) simp_all

lemma read_only_request:
  assumes "req_method r = Get \<or> req_path r = ''/api/v1/config/validate''"
  shows "frames unchanged (request r)"
proof -
  have status: "frames unchanged status_json"
    unfolding status_json_def by (intro quiet.rules quiet_calls snapshot_quiet)
  have validate: "frames unchanged (validate_request r)"
    unfolding validate_request_def by (intro quiet.rules body_quiet)
  have connections: "frames unchanged store_connections"
    unfolding store_connections_def by (intro quiet.rules quiet_calls) simp_all
  show ?thesis
    using assms status validate connections
    by (auto simp: request_def snapshot_quiet history_quiet quiet.rules frames_on_net emits_state_json
        emits_interfaces)
qed

text \<open>
  C29. The reading endpoints only read: a \<open>GET\<close> of any path, and the validation of a configuration,
  leave the controller and its journal, the database, the capture, the aggregates and the metrics as they
  were and do nothing to the system but ask; whatever the database, the kernel and the commands answer.
\<close>

theorem read_only_endpoints:
  assumes "req_method r = Get \<or> req_path r = ''/api/v1/config/validate''" "request r E s = (x, t)"
  shows "t\<lparr>net := net s, calls := calls s\<rparr> = s \<and> same_state (net s) (net t) \<and>
    (\<exists>evs. calls t = calls s @ evs \<and> list_all asks evs) \<and>
    (\<exists>evs. trace (net t) = trace (net s) @ evs \<and> list_all read_only evs)"
  using framesD [OF read_only_request [OF assms(1)] assms(2)] by (simp add: unchanged_def)

theorem read_only_endpoints_witness:
  "\<forall>E s. \<exists>x t. request (status_request []) E s = (x, t) \<and> same_state (net s) (net t)"
proof (intro allI)
  fix E s
  obtain x t where run: "request (status_request []) E s = (x, t)"
    by (cases "request (status_request []) E s")
  have "req_method (status_request []) = Get" by (simp add: status_request_def)
  with read_only_endpoints [OF disjI1 run] run
  show "\<exists>x t. request (status_request []) E s = (x, t) \<and> same_state (net s) (net t)" by blast
qed

end
