(* ===== verification/Shutdown.thy ===== *)
theory Shutdown
  imports Frames Demonstration
begin

text \<open>
  The end of the worker (\<open>ApplianceRuntime::work\<close> after its loop): the last sample leaves the controller
  alone, and a configuration that still waits for confirmation is rolled back.
\<close>

lemma state_json_run:
  assumes "indexable (net_state s)"
  obtains v t where "state_json E s = (Inr v, t)" "jfield v ''status'' = status s" "same_state s t"
proof (cases "status s = JString ''awaiting_confirmation''")
  case True
  then show ?thesis
    using assms that
    by (auto simp: state_json_def getP_def bindP_def now_def returnP_def emit_def Let_def)
next
  case False
  then show ?thesis
    using assms that by (auto simp: state_json_def getP_def returnP_def Let_def)
qed

lemma run_on_net: "m (net_env E) (net s) = (r, n) \<Longrightarrow> on_net m E s = (r, s\<lparr>net := n\<rparr>)"
  by (simp add: on_net_def)

lemma shutdown_rollback_run:
  assumes "indexable (net_state (net s))"
  obtains n where "same_state (net s) n"
    "shutdown_rollback E s = (if status (net s) = JString ''awaiting_confirmation''
       then on_net rollback E (s\<lparr>net := n\<rparr>) else (Inr (), s\<lparr>net := n\<rparr>))"
proof -
  obtain v n where v: "state_json (net_env E) (net s) = (Inr v, n)" "jfield v ''status'' = status (net s)"
    "same_state (net s) n"
    using state_json_run [OF assms] .
  from v(1) have "on_net state_json E s = (Inr v, s\<lparr>net := n\<rparr>)" by (rule run_on_net)
  then show ?thesis
    using that v by (auto simp: shutdown_rollback_def run_first whenP_def returnP_def)
qed

lemma run_caught_app:
  "m E (app c) = (r, s) \<Longrightarrow> run_caught E m (\<lambda>_. returnP ()) c = Some c' \<Longrightarrow> c' = c\<lparr>app := s\<rparr>"
  by (auto simp: run_caught_def catchP_def returnP_def split: sum.splits if_splits)

text \<open>The statements of \<open>worker_exit\<close> before the rollback.\<close>

lemma worker_exit_split:
  assumes "worker_exit E c = Some c'"
  obtains s r t where "net s = net (app c)" "shutdown_rollback E s = (r, t)" "c' = c\<lparr>app := t, tasks := []\<rparr>"
proof -
  let ?s1 = "snd (getP (\<lambda>s. whenP (has_engine s) engine_stop) E (app c))"
  let ?s2 = "snd (ignoring (sample True) E ?s1)"
  have "frames same_net (getP (\<lambda>s. whenP (has_engine s) engine_stop))"
    unfolding engine_stop_def by (intro away.rules frames_callP_net)
  then have "net ?s1 = net (app c)" by (simp add: frames_def same_net_def)
  moreover have "net ?s2 = net ?s1"
    using sample_away [of True] by (simp add: frames_def same_net_def ignoring_def)
  ultimately have net: "net ?s2 = net (app c)" by simp
  obtain r t where run: "shutdown_rollback E ?s2 = (r, t)" by (cases "shutdown_rollback E ?s2")
  obtain d where d: "run_caught E shutdown_rollback (\<lambda>_. returnP ()) (c\<lparr>app := ?s2\<rparr>) = Some d"
    "c' = d\<lparr>tasks := []\<rparr>"
    using assms by (auto simp: worker_exit_def Let_def)
  have "d = c\<lparr>app := t\<rparr>"
    using run_caught_app [OF _ d(1)] run by simp
  then show ?thesis using that [OF net run] d(2) by simp
qed

lemma shutdown_outcome:
  assumes "worker_exit E c = Some c'" "enabled (net (app c))" "indexable (net_state (net (app c)))"
    and "config_from_json (pton_fun (net_env E)) (jfield (net_state (net (app c))) ''config'') = Inr cfg"
  shows "tasks c' = [] \<and>
    (if status (net (app c)) = JString ''awaiting_confirmation''
     then (\<exists>n r. same_state (net (app c)) n \<and> restore (net_env E) n = (r, net (app c'))) \<and>
       status (net (app c')) \<in> {JString ''rolling_back'', JString ''inactive'', JString ''rollback_failed''}
     else same_state (net (app c)) (net (app c')))"
proof -
  obtain s r t where s: "net s = net (app c)" "shutdown_rollback E s = (r, t)" "c' = c\<lparr>app := t, tasks := []\<rparr>"
    using worker_exit_split [OF assms(1)] .
  obtain n where n: "same_state (net s) n"
    "shutdown_rollback E s = (if status (net s) = JString ''awaiting_confirmation''
       then on_net rollback E (s\<lparr>net := n\<rparr>) else (Inr (), s\<lparr>net := n\<rparr>))"
    using shutdown_rollback_run [of s E] assms(3) s(1) by metis
  show ?thesis
  proof (cases "status (net s) = JString ''awaiting_confirmation''")
    case False
    then show ?thesis using n s by auto
  next
    case True
    have idx: "indexable (net_state n)" using n(1) assms(3) s(1) by (simp add: same_state_def)
    have "status n = status (net s)" by (rule status_of_same [OF n(1)])
    then have "rollback (net_env E) n = restore (net_env E) (peek n)"
      using True n(1) assms(2) s(1) by (simp add: rollback_eq [OF idx] same_state_def)
    moreover obtain r' u where u: "restore (net_env E) (peek n) = (r', u)"
      by (cases "restore (net_env E) (peek n)")
    ultimately have "net t = u"
      using n(2) s(2) True by (auto simp: on_net_def)
    have same: "same_state (net s) (peek n)"
      using n(1) idx by (auto simp: same_state_def)
    have cfg: "config_from_json (pton_fun (net_env E)) (jfield (net_state (peek n)) ''config'') = Inr cfg"
      using assms(4) s(1) same by (simp add: same_state_def)
    have "status u \<in> {JString ''rolling_back'', JString ''inactive'', JString ''rollback_failed''}"
      by (rule restore_reached [OF u _ cfg]) (use idx in simp)
    then show ?thesis
      using u \<open>net t = u\<close> same s True by auto
  qed
qed

text \<open>
  Shutdown leaves nothing waiting: when the worker ends while a configuration waits for confirmation,
  a rollback has been run, and the status is \<open>inactive\<close> or records that the rollback did not complete;
  otherwise the controller's state is left as it was. The requests still queued are dropped.
\<close>

theorem shutdown_leaves_nothing_waiting:
  assumes "worker_exit E c = Some c'" "enabled (net (app c))" "indexable (net_state (net (app c)))"
    and "config_from_json (pton_fun (net_env E)) (jfield (net_state (net (app c))) ''config'') = Inr cfg"
  shows "tasks c' = [] \<and>
    (if status (net (app c)) = JString ''awaiting_confirmation''
     then (\<exists>n r. same_state (net (app c)) n \<and> restore (net_env E) n = (r, net (app c'))) \<and>
       status (net (app c')) \<in> {JString ''rolling_back'', JString ''inactive'', JString ''rollback_failed''}
     else same_state (net (app c)) (net (app c')))"
  using assms by (rule shutdown_outcome)

definition calm_app :: rt_env where
  "calm_app = \<lparr>net_env = calm, sorter = sort_key (\<lambda>t. - uint (snd t)), open_capture_reply = (\<lambda>_ _. None),
     start_engine_reply = (\<lambda>_. None), drain_reply = (\<lambda>_. []), counters_reply = (\<lambda>_. zero_counters),
     statement_reply = (\<lambda>_ _. None), row_order = by_last_seen, extract_number = (\<lambda>_ _. 0),
     sqlite_clock = (\<lambda>_. 0), wall_reply = (\<lambda>_. 0), steady_reply = (\<lambda>_. 0)\<rparr>"

definition waiting_app :: runtime where
  "waiting_app = \<lparr>net = waiting_until 10, database = empty_store, has_engine = False, capture_interface = [], capture_failure = [],
     storage_error = [], metrics = JObject [], aggs = no_aggregates, previous_packets = 0, previous_bytes = 0,
     last_sample = 0, calls = []\<rparr>"

theorem shutdown_leaves_nothing_waiting_witness:
  "\<exists>c'. worker_exit calm_app (start_control waiting_app) = Some c' \<and> tasks c' = [] \<and>
     status (net (app c')) \<noteq> JString ''awaiting_confirmation''"
proof -
  obtain c' where c': "worker_exit calm_app (start_control waiting_app) = Some c'"
    using worker_exit_some by blast
  have "net (app (start_control waiting_app)) = waiting_until 10" "net_env calm_app = calm"
    by (simp_all add: start_control_def waiting_app_def calm_app_def)
  with shutdown_leaves_nothing_waiting [OF c', of plain_config] c' show ?thesis
    using demo_config by (auto simp: waiting_config)
qed

end
