(* ===== verification/Startup.thy ===== *)
theory Startup
  imports Shutdown Witnesses
begin

text \<open>
  The command line (\<open>src/main.cpp\<close>), the checks before the appliance starts (\<open>run_appliance\<close> of
  \<open>src/server.cpp\<close>) and the constructor of \<open>ApplianceRuntime\<close>. Arguments are C strings, paths are
  strings; the files are what the environment answers.
\<close>

section \<open>Command line\<close>

record Options =
  opt_listen :: string
  opt_port :: u16
  opt_database :: string
  opt_token_file :: string
  opt_web_root :: string
  opt_capture :: string
  opt_allow_network :: bool

definition default_options :: Options where
  "default_options = \<lparr>opt_listen = ''127.0.0.1'', opt_port = 8080, opt_database = ''magicbox.sqlite'',
     opt_token_file = [], opt_web_root = ''web'', opt_capture = [], opt_allow_network = False\<rparr>"

text \<open>What \<open>main\<close> does: print and leave with 0, run the appliance, or report an exception and leave with 1.\<close>

datatype cli = Print_version | Print_help | Run Options | Refused exn

definition parse_port :: "string \<Rightarrow> u16 option" where
  "parse_port s = (case from_chars 10 s of
     None \<Rightarrow> None
   | Some (port, rest) \<Rightarrow> if rest \<noteq> [] \<or> port < 1 \<or> port > 65535 then None else Some (ucast port))"

definition set_option :: "string \<Rightarrow> string \<Rightarrow> Options \<Rightarrow> Options result" where
  "set_option arg v opts =
     (if arg = ''--listen'' then Inr (opts\<lparr>opt_listen := v\<rparr>)
      else if arg = ''--database'' then Inr (opts\<lparr>opt_database := v\<rparr>)
      else if arg = ''--web-root'' then Inr (opts\<lparr>opt_web_root := v\<rparr>)
      else if arg = ''--capture'' then Inr (opts\<lparr>opt_capture := v\<rparr>)
      else if arg = ''--token-file'' then Inr (opts\<lparr>opt_token_file := v\<rparr>)
      else if arg = ''--port'' then
        (case parse_port v of None \<Rightarrow> Inl (Invalid_argument ''Invalid port'')
         | Some port \<Rightarrow> Inr (opts\<lparr>opt_port := port\<rparr>))
      else Inl (Invalid_argument (''Unknown option: '' @ arg)))"

fun parse_args :: "string list \<Rightarrow> Options \<Rightarrow> cli" where
  "parse_args [] opts =
     (if opt_token_file opts = []
      then Refused (Invalid_argument ''--token-file is required; use --help for usage'') else Run opts)"
| "parse_args (arg # args) opts =
     (if arg = ''--version'' then Print_version
      else if arg = ''--help'' \<or> arg = ''-h'' then Print_help
      else if arg = ''--allow-network'' then parse_args args (opts\<lparr>opt_allow_network := True\<rparr>)
      else case args of
        [] \<Rightarrow> Refused (Invalid_argument (''Missing value for '' @ arg))
      | v # rest \<Rightarrow> (case set_option arg v opts of
          Inl e \<Rightarrow> Refused e | Inr opts \<Rightarrow> parse_args rest opts))"

section \<open>Checks before the start\<close>

text \<open>
  What the file system answers: the type and mode of a file, its content, whether the database lock file
  can be opened and locked, whether the dashboard is there, \<open>std::filesystem::absolute\<close>, and how the
  database opens.
\<close>

record host =
  file_stat :: "string \<Rightarrow> (bool \<times> u32) option"
  file_text :: "string \<Rightarrow> string"
  lock_opened :: "string \<Rightarrow> bool"
  lock_taken :: "string \<Rightarrow> bool"
  is_file :: "string \<Rightarrow> bool"
  absolute_path :: "string \<Rightarrow> string"
  open_code :: "string \<Rightarrow> sqlite_code"
  schema_code :: "string \<Rightarrow> sqlite_code"
  database_file :: "string \<Rightarrow> store option"

definition private_file :: "(bool \<times> u32) option \<Rightarrow> bool" where
  "private_file st = (case st of None \<Rightarrow> False | Some (regular, mode) \<Rightarrow> regular \<and> mode AND 0x3F = 0)"

definition first_line :: "string \<Rightarrow> string" where
  "first_line s = takeWhile (\<lambda>c. code_of c \<noteq> 10) s"

text \<open>\<open>root / "index.html"\<close> of the file system library.\<close>

definition index_file :: "string \<Rightarrow> string" where
  "index_file dir = (if dir = [] \<or> last dir = CHR ''/'' then dir @ ''index.html'' else dir @ ''/index.html'')"

definition en_dash :: string where
  "en_dash = [CHR 0xE2, CHR 0x80, CHR 0x93]"

definition check_start :: "host \<Rightarrow> Options \<Rightarrow> string result" where
  "check_start H opts =
     (let token = first_line (file_text H (opt_token_file opts));
          lock_path = opt_database opts @ ''.lock''
      in guard_exn (\<not> private_file (file_stat H (opt_token_file opts)))
           (Runtime_error ''Token file must exist and have mode 0600 (or 0400)'')
         (guard_exn (length token < 32 \<or> length token > 256)
           (Runtime_error (''Token must be 32'' @ en_dash @ ''256 characters''))
         (guard_exn (\<not> lock_opened H lock_path) (Runtime_error ''Cannot open database lock'')
         (guard_exn (\<not> lock_taken H lock_path)
           (Runtime_error ''Another appliance instance owns this database'')
         (guard_exn (\<not> is_file H (index_file (opt_web_root opts)))
           (Runtime_error ''Missing dashboard; set --web-root'') (Inr token))))))"

section \<open>Construction\<close>

definition new_runtime :: "bool \<Rightarrow> store \<Rightarrow> int \<Rightarrow> runtime" where
  "new_runtime allow db t = \<lparr>net = new_controller allow, database = db, has_engine = False, capture_interface = [],
     capture_failure = [], storage_error = [], metrics = JObject [], aggs = no_aggregates,
     previous_packets = 0, previous_bytes = 0, last_sample = t, calls = []\<rparr>"

definition resume_capture :: "json \<Rightarrow> unit rt_prog" where
  "resume_capture saved =
     whenP (is_string saved \<and> string_of saved \<noteq> [])
       (catchP (start_capture (string_of saved)) (\<lambda>e. modifyP (\<lambda>s. s\<lparr>capture_failure := what e\<rparr>)))"

definition start_runtime :: "Options \<Rightarrow> unit rt_prog" where
  "start_runtime opts =
     thenP (on_net start_controller)
     (bindP (load_setting ''capture_interface'') (\<lambda>saved.
       if opt_capture opts \<noteq> [] then start_capture (opt_capture opts) else resume_capture saved))"

text \<open>
  \<open>run_appliance\<close> up to the event loop: the exception that ends it, or the token with the control queue the
  gateway and the worker then share.
\<close>

definition run_appliance :: "host \<Rightarrow> rt_env \<Rightarrow> Options \<Rightarrow> (string \<times> control) result" where
  "run_appliance H E opts =
     ebind (check_start H opts) (\<lambda>token.
     ebind (open_store (open_code H (opt_database opts)) (schema_code H (opt_database opts))
       (database_file H (opt_database opts))) (\<lambda>db.
       case start_runtime opts E (new_runtime (opt_allow_network opts) db (steady_reply E [])) of
         (Inl e, s) \<Rightarrow> Inl e
       | (Inr _, s) \<Rightarrow> Inr (token, start_control s)))"

text \<open>What the event loops are set up with, and the line that announces them.\<close>

record http_settings =
  thread_num :: nat
  max_body_size :: nat
  max_message_size :: nat
  idle_timeout :: nat
  max_connections :: nat
  document_root :: string
  listener :: "string \<times> u16"

definition http_setup :: "host \<Rightarrow> Options \<Rightarrow> http_settings" where
  "http_setup H opts = \<lparr>thread_num = 2, max_body_size = 16384, max_message_size = 1024, idle_timeout = 45,
     max_connections = 64, document_root = absolute_path H (opt_web_root opts),
     listener = (opt_listen opts, opt_port opts)\<rparr>"

definition line_end :: string where
  "line_end = [CHR 0x0A]"

definition listening_text :: "Options \<Rightarrow> string" where
  "listening_text opts = ''WireLab Experiments listening on '' @ opt_listen opts @ '':'' @
     to_string (unat (opt_port opts)) @ line_end"

definition version_text :: string where
  "version_text = ''magicboxd 0.2.0'' @ line_end"

definition help_text :: string where
  "help_text = concat (map (\<lambda>l. l @ line_end)
     [''Usage: magicboxd --token-file PATH [options]'',
      ''  --listen ADDRESS       HTTP bind address (default 127.0.0.1)'',
      ''  --port PORT            HTTP port (default 8080)'',
      ''  --database PATH        SQLite database (default magicbox.sqlite)'',
      ''  --web-root PATH        Dashboard directory (default web)'',
      ''  --capture INTERFACE    Start passive Ethernet capture'',
      ''  --allow-network        Enable confirmed network configuration transactions'',
      ''  --token-file PATH      Required bearer token file, mode 0600, 32'' @ en_dash @ ''256 characters'',
      ''  --version              Print version'',
      ''Use an SSH tunnel for remote management. Network changes require dedicated unmanaged ports.''])"

text \<open>The end of \<open>main\<close> without a running appliance: the exit code, the output and the error output.\<close>

type_synonym ending = "nat \<times> string \<times> string"

definition failure_ending :: "exn \<Rightarrow> ending" where
  "failure_ending e = (1, [], ''magicboxd: '' @ what e @ line_end)"

definition main_program :: "host \<Rightarrow> rt_env \<Rightarrow> string list \<Rightarrow> ending + string \<times> control" where
  "main_program H E args = (case parse_args args default_options of
     Print_version \<Rightarrow> Inl (0, version_text, [])
   | Print_help \<Rightarrow> Inl (0, help_text, [])
   | Refused e \<Rightarrow> Inl (failure_ending e)
   | Run opts \<Rightarrow> (case run_appliance H E opts of Inl e \<Rightarrow> Inl (failure_ending e) | Inr x \<Rightarrow> Inr x))"

section \<open>The command line is understood\<close>

lemma parse_port_range: "parse_port s = Some p \<Longrightarrow> p \<noteq> 0"
proof -
  assume "parse_port s = Some p"
  then obtain n :: u32 where n: "1 \<le> n" "n \<le> 65535" "p = ucast n"
    by (auto simp: parse_port_def split: option.splits prod.splits if_splits)
  have "unat n \<le> 65535" using n(2) by (simp add: word_le_nat_alt)
  moreover have "unat n \<noteq> 0" using n(1) by (simp add: unat_eq_0)
  ultimately have "unat p \<noteq> 0"
    unfolding n(3) by (simp add: unsigned_ucast_eq take_bit_nat_eq_self)
  then show "p \<noteq> 0" by auto
qed

lemma set_option_sound:
  "set_option arg v opts = Inr opts' \<Longrightarrow>
   opt_allow_network opts' = opt_allow_network opts \<and> (opt_port opts \<noteq> 0 \<longrightarrow> opt_port opts' \<noteq> 0)"
  by (auto simp: set_option_def dest: parse_port_range split: if_splits option.splits)

lemma parse_args_sound:
  "parse_args args opts = Run opts' \<Longrightarrow>
   opt_token_file opts' \<noteq> [] \<and> (opt_port opts \<noteq> 0 \<longrightarrow> opt_port opts' \<noteq> 0) \<and>
   (opt_allow_network opts' \<longrightarrow> opt_allow_network opts \<or> ''--allow-network'' \<in> set args)"
proof (induction args opts rule: parse_args.induct)
  case (1 opts)
  then show ?case by (simp split: if_splits)
next
  case (2 arg args opts)
  show ?case
  proof (cases "arg = ''--allow-network''")
    case True
    then show ?thesis using "2.IH"(1) "2.prems" by simp
  next
    case False
    then obtain v rest opts1 where step: "args = v # rest" "set_option arg v opts = Inr opts1"
        "parse_args rest opts1 = Run opts'"
      using "2.prems" by (auto split: if_splits list.splits sum.splits)
    have "arg \<noteq> ''--version''" "\<not> (arg = ''--help'' \<or> arg = ''-h'')"
      using "2.prems" by (auto split: if_splits)
    from "2.IH"(2) [OF this False step(1) step(2) step(3)] show ?thesis
      using set_option_sound [OF step(2)] step(1) by auto
  qed
qed

text \<open>Writing options out as arguments and reading them back.\<close>

definition render_args :: "Options \<Rightarrow> string list" where
  "render_args opts =
     [''--listen'', opt_listen opts, ''--port'', to_string (unat (opt_port opts)), ''--database'', opt_database opts,
      ''--web-root'', opt_web_root opts, ''--capture'', opt_capture opts, ''--token-file'', opt_token_file opts] @
     (if opt_allow_network opts then [''--allow-network''] else [])"

lemma parse_port_text: "p \<noteq> 0 \<Longrightarrow> parse_port (to_string (unat p)) = Some p"
proof -
  assume p: "p \<noteq> 0"
  have small: "unat p < 2 ^ 32" "unat p < 65536" by (simp_all add: order.strict_trans [OF unat_u16_lt])
  then have "(of_nat (unat p) :: u32) = ucast p" by (simp add: unat_ucast_u16 [symmetric] del: unat_ucast_u16)
  moreover have "unat p \<noteq> 0" using p by (simp add: unat_eq_0)
  then have "(1 :: u32) \<le> ucast p" "(ucast p :: u32) \<le> 65535"
    using less_imp_le_nat [OF small(2)] small(2) unfolding word_le_nat_alt unat_ucast_u16
    by (simp_all add: less_Suc_eq_le [symmetric])
  ultimately show ?thesis
    using small(1) by (simp add: parse_port_def from_chars_to_string not_less)
qed

lemma render_args_parse:
  assumes "opt_token_file opts \<noteq> []" "opt_port opts \<noteq> 0"
  shows "parse_args (render_args opts) default_options = Run opts"
  using assms
  by (simp add: render_args_def set_option_def parse_port_text default_options_def)

section \<open>Ending without an appliance\<close>

text \<open>Nothing is reported as success but the two requests for information, and every failure is explained.\<close>

lemma main_ending:
  assumes "main_program H E args = Inl (code, out, err)"
  shows "if parse_args args default_options \<in> {Print_version, Print_help} then code = 0 \<and> err = []
    else code = 1 \<and> out = [] \<and> (\<exists>e. err = ''magicboxd: '' @ what e @ line_end \<and>
      (parse_args args default_options = Refused e \<or>
       (\<exists>opts. parse_args args default_options = Run opts \<and> run_appliance H E opts = Inl e)))"
  using assms by (auto simp: main_program_def failure_ending_def split: cli.splits sum.splits)

section \<open>A started appliance\<close>

lemma check_start_Inr: "check_start H opts = Inr token \<longleftrightarrow>
    private_file (file_stat H (opt_token_file opts)) \<and> token = first_line (file_text H (opt_token_file opts)) \<and>
    32 \<le> length token \<and> length token \<le> 256 \<and> lock_opened H (opt_database opts @ ''.lock'') \<and>
    lock_taken H (opt_database opts @ ''.lock'') \<and> is_file H (index_file (opt_web_root opts))"
  by (auto simp: check_start_def Let_def guard_exn_Inr_iff)

lemma capture_away: "frames same_net (start_capture name)" "frames same_net (resume_capture saved)"
  "frames same_net (load_setting key)"
proof -
  show start: "frames same_net (start_capture name)" for name
    unfolding start_capture_def stop_and_sample_def live_capture_def engine_stop_def engine_start_def
      save_setting_def steady_now_def run_steps.simps
    by (intro away.rules frames_callP_net frames_storeP_net frames_replies_net frames_modifyP sample_away)
      (simp_all add: same_net_def fresh_capture_def)
  show "frames same_net (resume_capture saved)"
    unfolding resume_capture_def
    by (intro away.rules frames_modifyP start) (simp add: same_net_def)
  show "frames same_net (load_setting key)"
    unfolding load_setting_def by (rule frames_storeP_net)
qed

lemma start_runtime_Inr:
  assumes "start_runtime opts E s = (Inr (), t)"
  shows "start_controller (net_env E) (net s) = (Inr (), net t)"
proof -
  let ?rest = "bindP (load_setting ''capture_interface'') (\<lambda>saved.
    if opt_capture opts \<noteq> [] then start_capture (opt_capture opts) else resume_capture saved)"
  obtain s1 where s1: "on_net start_controller E s = (Inr (), s1)" "?rest E s1 = (Inr (), t)"
    using assms by (auto simp: start_runtime_def thenP_Inr)
  obtain r n where n: "start_controller (net_env E) (net s) = (r, n)"
    by (cases "start_controller (net_env E) (net s)")
  have "frames same_net ?rest" by (intro away.rules capture_away)
  then have "net t = net s1" using framesD [where m = ?rest and R = same_net] s1(2) by (simp add: same_net_def)
  moreover have "r = Inr ()" "s1 = s\<lparr>net := n\<rparr>" using s1(1) n by (simp_all add: on_net_def)
  ultimately show ?thesis using n by simp
qed

lemma run_appliance_Inr:
  assumes "run_appliance H E opts = Inr (token, c)"
  obtains db where "check_start H opts = Inr token"
    "start_runtime opts E (new_runtime (opt_allow_network opts) db (steady_reply E [])) = (Inr (), app c)"
    "open_store (open_code H (opt_database opts)) (schema_code H (opt_database opts))
       (database_file H (opt_database opts)) = Inr db"
proof -
  obtain tok db where db: "check_start H opts = Inr tok"
    "open_store (open_code H (opt_database opts)) (schema_code H (opt_database opts))
       (database_file H (opt_database opts)) = Inr db"
    using assms by (auto simp: run_appliance_def ebind_Inr_iff)
  let ?s = "new_runtime (opt_allow_network opts) db (steady_reply E [])"
  obtain r s where "start_runtime opts E ?s = (r, s)" by (cases "start_runtime opts E ?s")
  then have "tok = token \<and> start_runtime opts E ?s = (Inr (), app c)"
    using assms db by (cases r) (auto simp: run_appliance_def start_control_def)
  with db that show ?thesis by blast
qed

text \<open>The permission never changes.\<close>

interpretation permission: program_frame "\<lambda>s t. enabled t = enabled s"
  by unfold_locales simp_all

lemma emits_permission: "emits P m \<Longrightarrow> frames (\<lambda>s t. enabled t = enabled s) m"
  by (simp add: emits_def frames_def same_state_def)

lemma state_permission:
  "frames (\<lambda>s t. enabled t = enabled s) (set_state k v)" "frames (\<lambda>s t. enabled t = enabled s) put_state"
  "frames (\<lambda>s t. enabled t = enabled s) (set_deadline d)" "frames (\<lambda>s t. enabled t = enabled s) (load_state v)"
  by (simp_all add: frames_def set_state_def put_state_def set_deadline_def load_state_def emit_def Let_def
      split: option.splits)

lemma start_permission: "frames (\<lambda>s t. enabled t = enabled s) start_controller"
proof -
  note parts = emits_preflight emits_install emits_restore_work emits_attempt [OF emits_remove_guard]
    emits_state_at [of plain] emits_read_config [of plain] store_get_emits acquire_lock_emits
    emits_now [of "\<lambda>_. True"] emits_read_file [of "\<lambda>_. True"]
  note rules = permission.rules state_permission parts [THEN emits_permission]
  have restore: "frames (\<lambda>s t. enabled t = enabled s) restore"
    unfolding restore_def finish_restore_def run_steps.simps
    by (intro rules)
  have tick: "frames (\<lambda>s t. enabled t = enabled s) tick"
    unfolding tick_def by (intro rules restore) simp_all
  have confirm: "frames (\<lambda>s t. enabled t = enabled s) confirm"
    unfolding confirm_def require_enabled_def by (intro rules tick)
  have apply_ok: "frames (\<lambda>s t. enabled t = enabled s) (apply_config c)" for c
    unfolding apply_config_def journal_def install_and_wait_def undo_def run_steps.simps
    by (intro rules restore) simp_all
  show ?thesis
    unfolding start_controller_def recover_def
    by (intro rules restore confirm apply_ok)
qed

text \<open>
  C32. What a running appliance is: if the program reaches its event loop, its options were understood,
  the token comes from a private regular file and is 32 to 256 characters long, the database lock is
  held, the controller may change the network only if the command line said so, and then its status is
  \<open>inactive\<close> or \<open>confirmed\<close>.
\<close>

theorem started_appliance:
  assumes "main_program H E args = Inr (token, c)"
  shows "\<exists>opts. parse_args args default_options = Run opts \<and> opt_port opts \<noteq> 0 \<and>
    private_file (file_stat H (opt_token_file opts)) \<and>
    token = first_line (file_text H (opt_token_file opts)) \<and> 32 \<le> length token \<and> length token \<le> 256 \<and>
    lock_taken H (opt_database opts @ ''.lock'') \<and>
    enabled (net (app c)) = opt_allow_network opts \<and>
    (enabled (net (app c)) \<longrightarrow> ''--allow-network'' \<in> set args \<and>
       status (net (app c)) \<in> {JString ''inactive'', JString ''confirmed''})"
proof -
  obtain opts where opts: "parse_args args default_options = Run opts" "run_appliance H E opts = Inr (token, c)"
    using assms by (auto simp: main_program_def split: cli.splits sum.splits)
  obtain db where check: "check_start H opts = Inr token"
    and run: "start_runtime opts E (new_runtime (opt_allow_network opts) db (steady_reply E [])) = (Inr (), app c)"
    using run_appliance_Inr [OF opts(2)] .
  have start: "start_controller (net_env E) (new_controller (opt_allow_network opts)) = (Inr (), net (app c))"
    using start_runtime_Inr [OF run] by (simp add: new_runtime_def)
  have en: "enabled (net (app c)) = opt_allow_network opts"
    using framesD [OF start_permission start] by (simp add: new_controller_def)
  have "status (net (app c)) \<in> {JString ''inactive'', JString ''confirmed''}" if "opt_allow_network opts"
    using start_outcome [of "net_env E" "net (app c)"] start that by auto
  then show ?thesis
    using opts(1) check en parse_args_sound [OF opts(1)]
    by (intro exI [of _ opts]) (auto simp: check_start_Inr default_options_def)
qed

text \<open>
  Every configuration of the program can be given on its command line: options with a port and a token
  file, written out as arguments, are read back unchanged, whatever the texts of their values are.
\<close>

theorem options_roundtrip:
  assumes "opt_token_file opts \<noteq> []" "opt_port opts \<noteq> 0"
  shows "parse_args (render_args opts) default_options = Run opts"
  using assms by (rule render_args_parse)

section \<open>Witnesses\<close>

definition demo_token :: string where
  "demo_token = replicate 32 (CHR ''x'')"

definition demo_host :: host where
  "demo_host = \<lparr>file_stat = (\<lambda>_. Some (True, 0x180)), file_text = (\<lambda>_. demo_token),
     lock_opened = (\<lambda>_. True), lock_taken = (\<lambda>_. True), is_file = (\<lambda>_. True), absolute_path = (\<lambda>path. path),
     open_code = (\<lambda>_. (0, [])), schema_code = (\<lambda>_. (0, [])), database_file = (\<lambda>_. None)\<rparr>"

definition demo_args :: "string list" where
  "demo_args = [''--token-file'', ''t'', ''--allow-network'']"

lemma demo_parse: "parse_args demo_args default_options =
    Run (default_options\<lparr>opt_token_file := ''t'', opt_allow_network := True\<rparr>)"
  by (simp add: demo_args_def set_option_def default_options_def)

lemma demo_check: "check_start demo_host opts = Inr demo_token"
proof -
  have "(0x180 :: u32) AND 0x3F = 0" by simp
  moreover have "takeWhile (\<lambda>c. code_of c \<noteq> 10) demo_token = demo_token"
    by (simp add: demo_token_def takeWhile_eq_all_conv)
  ultimately show ?thesis
    by (simp add: check_start_Inr demo_host_def private_file_def first_line_def)
      (simp add: demo_token_def)
qed

lemma demo_open: "open_store (open_code demo_host d) (schema_code demo_host d) (database_file demo_host d) = Inr empty_store"
  by (simp add: demo_host_def open_store_def check_code_def)

lemma no_saved_capture:
  assumes "database s = empty_store"
  shows "load_setting key calm_app s = (Inr JNull, s\<lparr>calls := calls s @ [Load_setting key (Inr JNull)]\<rparr>)"
  using assms by (simp add: load_setting_def storeP_def store_lookup_def empty_store_def calm_app_def)

lemma demo_start:
  assumes "opt_capture opts = []" "opt_allow_network opts"
  obtains t where "start_runtime opts calm_app (new_runtime True empty_store x) = (Inr (), t)"
proof -
  let ?s = "new_runtime True empty_store x"
  obtain n where n: "start_controller calm (new_controller True) = (Inr (), n)"
    using calm_start by blast
  have "on_net start_controller calm_app ?s = (Inr (), ?s\<lparr>net := n\<rparr>)"
    using n by (intro run_on_net) (simp add: calm_app_def new_runtime_def)
  moreover have "load_setting ''capture_interface'' calm_app (?s\<lparr>net := n\<rparr>) =
      (Inr JNull, ?s\<lparr>net := n, calls := calls ?s @ [Load_setting ''capture_interface'' (Inr JNull)]\<rparr>)"
    using no_saved_capture [of "?s\<lparr>net := n\<rparr>"] by (simp add: new_runtime_def)
  ultimately show ?thesis
    using that assms by (simp add: start_runtime_def run_first resume_capture_def whenP_def returnP_def)
qed

theorem started_appliance_witness:
  "\<exists>c. main_program demo_host calm_app demo_args = Inr (demo_token, c) \<and> enabled (net (app c)) \<and>
     status (net (app c)) \<in> {JString ''inactive'', JString ''confirmed''}"
proof -
  let ?o = "default_options\<lparr>opt_token_file := ''t'', opt_allow_network := True\<rparr>"
  obtain t where "start_runtime ?o calm_app (new_runtime True empty_store 0) = (Inr (), t)"
    using demo_start [of ?o 0] by (auto simp: default_options_def)
  then have run: "main_program demo_host calm_app demo_args = Inr (demo_token, start_control t)"
    by (simp add: main_program_def demo_parse run_appliance_def demo_check demo_open) (simp add: calm_app_def)
  obtain opts where "parse_args demo_args default_options = Run opts"
    "enabled (net (app (start_control t))) = opt_allow_network opts"
    "enabled (net (app (start_control t))) \<longrightarrow>
       status (net (app (start_control t))) \<in> {JString ''inactive'', JString ''confirmed''}"
    using started_appliance [OF run] by blast
  then show ?thesis using run demo_parse by auto
qed

theorem options_roundtrip_witness:
  "parse_args (render_args (default_options\<lparr>opt_token_file := ''--help''\<rparr>)) default_options =
     Run (default_options\<lparr>opt_token_file := ''--help''\<rparr>)"
  by (rule options_roundtrip) (simp_all add: default_options_def)

end
