(* ===== verification/Dataflow.thy ===== *)
theory Dataflow
  imports Startup
begin

text \<open>
  From the capture queue to the runtime's own database: a sample takes the packets of the queue, adds them
  to the period's aggregates and stores the period, and every packet is stored exactly once.
\<close>

section \<open>From the capture queue to the database\<close>

lemma sample_batches_append:
  "sample_batches L iface (pss @ [ps]) a =
     ebind (sample_batches L iface pss a) (\<lambda>a. ebind (add_packets L iface ps a) (\<lambda>a. Inr (trim_recent a)))"
  by (induction L iface pss a rule: sample_batches.induct) (simp_all add: ebind_assoc)

lemma run_callP:
  "bindP (callP ask ev) f E s = f (ask E (calls s)) E (s\<lparr>calls := calls s @ [ev (ask E (calls s))]\<rparr>)"
  by (simp add: bindP_def callP_def Let_def)

lemma run_modifyP: "thenP (modifyP f) n E s = n E (f s)" "modifyP f E s = (Inr (), f s)"
  by (simp_all add: thenP_def bindP_def modifyP_def)

text \<open>What a period leaves behind when every statement succeeds.\<close>

definition stores :: "rt_env \<Rightarrow> runtime \<Rightarrow> runtime \<Rightarrow> bool" where
  "stores E s t \<longleftrightarrow> storage_error t = [] \<and>
     (\<exists>h db. flow_table db = flow_table (database s) \<and> settings db = settings (database s) \<and>
        record_flows (\<lambda>_. None) (json_of E) (row_order E) (sqlite_clock E h) (map snd (flows (aggs s))) db = (Inr (), database t))"

lemma record_flows_ok:
  assumes "map (flow_values L) fs = map Inr vals"
  shows "\<exists>db'. record_flows (\<lambda>_. None) L ord wall fs db = (Inr (), db')"
  using insert_flows_ok [OF assms, of 1 "flow_table db"] by (auto simp: record_flows_def)

lemma store_period_run:
  assumes "\<And>h. statement_reply E h = (\<lambda>_. None)"
    and "map (flow_values (json_of E)) (map snd (flows (aggs s))) = map Inr vals"
  shows "\<exists>t. store_period dp db E s = (Inr (), t) \<and> stores E s t \<and> aggs t = aggs s"
proof -
  let ?ts = "wall_reply E (calls s)"
  let ?h = "calls s @ [Wall_clock ?ts, Save_sample ?ts dp db (metrics s) (Inr ())]"
  obtain db1 where db: "save_sample (\<lambda>_. None) (json_of E) ?ts dp db (metrics s) (database s) = (Inr (), db1)"
    "flow_table db1 = flow_table (database s)" "settings db1 = settings (database s)"
    by (simp add: save_sample_def Let_def)
  obtain db' where flows: "record_flows (\<lambda>_. None) (json_of E) (row_order E) (sqlite_clock E ?h)
      (map snd (flows (aggs s))) db1 = (Inr (), db')"
    using record_flows_ok [OF assms(2)] by blast
  let ?s1 = "s\<lparr>calls := calls s @ [Wall_clock ?ts]\<rparr>" and ?fs = "map snd (flows (aggs s))"
  let ?s2 = "s\<lparr>database := db1, calls := ?h\<rparr>"
  have 1: "store_sample ?ts dp db (metrics s) E ?s1 = (Inr (), ?s2)"
    using db(1) by (simp add: store_sample_def storeP_def assms(1))
  have 2: "store_flows ?fs E ?s2 = (Inr (), s\<lparr>database := db', calls := ?h @ [Save_flows ?fs (Inr ())]\<rparr>)"
    using flows by (simp add: store_flows_def storeP_def assms(1))
  have "store_period dp db E s = (Inr (), s\<lparr>database := db', calls := ?h @ [Save_flows ?fs (Inr ())], storage_error := []\<rparr>)"
    using 1 2 by (simp add: store_period_def catchP_def now_seconds_def run_callP getP_def run_first run_modifyP)
  then show ?thesis
    using db(2,3) flows by (auto simp: stores_def)
qed

lemma publish_period_run:
  assumes "\<And>h. statement_reply E h = (\<lambda>_. None)"
    and "map (flow_values (json_of E)) (map snd (flows (aggs s))) = map Inr vals"
  shows "\<exists>t. publish_period x elapsed E s = (Inr (), t) \<and> stores E s t \<and> aggs t = reset_aggregates (aggs s)"
proof -
  let ?snap = "counters_reply E (calls s)"
  let ?h = "calls s @ [Engine_counters ?snap]"
  let ?dp = "packets ?snap - previous_packets s" and ?db = "wire_total ?snap - previous_bytes s"
  let ?s = "s\<lparr>calls := ?h @ [Wall_clock (wall_reply E ?h)],
    metrics := publish (sorter E) (wall_reply E ?h) elapsed ?dp ?db ?snap (aggs s) (metrics s)\<rparr>"
  obtain t where t: "store_period ?dp ?db E ?s = (Inr (), t)" "stores E ?s t" "aggs t = aggs s"
    using store_period_run [OF assms(1), of ?s vals ?dp ?db] assms(2) by auto
  have "publish_period x elapsed E s = (Inr (), t\<lparr>previous_packets := packets ?snap,
      previous_bytes := wire_total ?snap, last_sample := x, aggs := reset_aggregates (aggs t)\<rparr>)"
    using t(1) by (simp add: publish_period_def engine_snapshot_def now_seconds_def run_callP askP_def getP_def
        Let_def run_modifyP run_first)
  then show ?thesis using t by (auto simp: stores_def)
qed

lemma sample_run:
  assumes "\<And>h. statement_reply E h = (\<lambda>_. None)" "has_engine s"
    and "add_packets (json_of E) (capture_interface s) (take 8192 (drain_reply E (calls s))) (aggs s) = Inr a"
    and "map (flow_values (json_of E)) (map snd (flows a)) = map Inr vals"
  shows "\<exists>t. sample True E s = (Inr (), t) \<and> stores E (s\<lparr>aggs := trim_recent a\<rparr>) t \<and>
    aggs t = reset_aggregates (trim_recent a)"
proof -
  let ?ps = "take 8192 (drain_reply E (calls s))"
  let ?h = "calls s @ [Drain ?ps]"
  let ?s = "s\<lparr>aggs := trim_recent a, calls := ?h @ [Steady_clock (steady_reply E ?h)]\<rparr>"
  have "flows (trim_recent a) = flows a" by (simp add: trim_recent_def)
  then obtain t where t: "publish_period (steady_reply E ?h)
      (elapsed_seconds (steady_reply E ?h) (last_sample s)) E ?s = (Inr (), t)"
      "stores E ?s t" "aggs t = reset_aggregates (trim_recent a)"
    using publish_period_run [OF assms(1), of ?s vals] assms(4) by auto
  let ?s1 = "s\<lparr>calls := ?h\<rparr>"
  have 1: "aggregate ?ps E ?s1 = (Inr (), ?s1\<lparr>aggs := trim_recent a\<rparr>)"
    using assms(3) by (simp add: aggregate_def askP_def getP_def liftP_def bindP_def modifyP_def json_of_def)
  have "sample True E s = (Inr (), t)"
    using 1 t(1) assms(2)
    by (simp add: sample_def getP_def whenP_def engine_drain_def run_callP run_first steady_now_def Let_def)
  then show ?thesis using t by (auto simp: stores_def)
qed


text \<open>The packets of the period: those aggregated since the last publication, and those the sample drains.\<close>

definition period :: "rt_env \<Rightarrow> runtime \<Rightarrow> PacketMetadata list list \<Rightarrow> PacketMetadata list" where
  "period E s pss = concat pss @ take 8192 (drain_reply E (calls s))"

lemma period_stored:
  assumes "\<And>h. statement_reply E h = (\<lambda>_. None)" "has_engine s"
    and "sample_batches (json_of E) (capture_interface s) pss (no_aggregates\<lparr>recent := r\<rparr>) = Inr (aggs s)"
    and "length r \<le> max_recent" "length (period E s pss) \<le> max_batch"
    and "\<forall>q \<in> set (period E s pss). int64 (millis (timestamp q))"
  shows "\<exists>t a. sample True E s = (Inr (), t) \<and> stores E (s\<lparr>aggs := a\<rparr>) t \<and> aggs t = reset_aggregates a \<and>
    sample_batches (json_of E) (capture_interface s) (pss @ [take 8192 (drain_reply E (calls s))])
      (no_aggregates\<lparr>recent := r\<rparr>) = Inr a"
proof -
  let ?ps = "take 8192 (drain_reply E (calls s))"
  let ?pss = "pss @ [?ps]"
  have all: "concat ?pss = period E s pss" by (simp add: period_def)
  obtain a where a: "sample_batches (json_of E) (capture_interface s) ?pss (no_aggregates\<lparr>recent := r\<rparr>) = Inr a"
    "sampled (capture_interface s) (period E s pss) a"
    using sample_batches_start [of ?pss r "json_of E" "capture_interface s"] assms(4-6) unfolding all by blast
  obtain b where b: "add_packets (json_of E) (capture_interface s) ?ps (aggs s) = Inr b" "a = trim_recent b"
    using a(1) assms(3) by (auto simp: sample_batches_append exn_simps)
  have "flows a = flows b" by (simp add: b(2) trim_recent_def)
  then have "map (flow_values (json_of E)) (map snd (flows b)) = map Inr
      (map (\<lambda>(k, f). (k, summary_row (json_of E) (capture_interface s) k
        (packets_of (capture_interface s) k (period E s pss)))) (flows a))"
    using recorded_values [OF a(2) assms(5,6)] by simp
  from sample_run [OF assms(1,2) b(1) this] show ?thesis using a(1) b(2) by auto
qed

lemma recorded_keys:
  assumes "sampled iface ps a"
  shows "dom (map_of (flows a)) = key_of iface ` {p \<in> set ps. with_address p} \<or> 4096 \<le> card (dom (map_of (flows a)))"
proof -
  let ?qs = "filter with_address ps"
  note exact = assms [unfolded sampled_def flows_exact_def]
  have "card (dom (map_of (flows a))) = length (flows a)"
    using exact by (simp add: dom_map_of_conv_image_fst keys_ordered_distinct distinct_card flip: set_map)
  moreover have "dom (map_of (flows a)) = key_of iface ` {p \<in> set ps. with_address p}" if "length (flows a) < 4096"
  proof (intro equalityI subsetI)
    fix k
    assume "k \<in> dom (map_of (flows a))"
    then have "packets_of iface k ps \<noteq> []" using recorded_flow(2) [OF assms] by auto
    then show "k \<in> key_of iface ` {p \<in> set ps. with_address p}"
      by (auto simp: packets_of_def filter_empty_conv)
  next
    fix k
    assume "k \<in> key_of iface ` {p \<in> set ps. with_address p}"
    then have "hist (key_of iface) k ?qs \<noteq> []" by (auto simp: hist_def filter_empty_conv)
    then show "k \<in> dom (map_of (flows a))"
      using exact that tracksD(2) [of "key_of iface" _ _ "map_of (flows a)" ?qs k]
      by (auto simp: max_flows_def)
  qed
  ultimately show ?thesis by linarith
qed

text \<open>
  C12. From the capture queue to the database. When the statements succeed, a forced sample stores its
  period: the stored totals of every connection of the period have grown by exactly the packets and bytes
  captured since the last publication, every other connection is as before, at most 10000 are kept, none
  older than seven days, and no recent one is missing unless the table is full. The connections of the
  period are those of all its packets with an address, unless there are more than 4096. The aggregates
  start over, so no packet is stored twice.
\<close>

theorem packets_reach_database:
  assumes "\<forall>h. statement_reply E h = (\<lambda>_. None)" "has_engine s"
    and "sample_batches (json_of E) (capture_interface s) pss (no_aggregates\<lparr>recent := r\<rparr>) = Inr (aggs s)"
    and "length r \<le> 200" "length (period E s pss) \<le> max_batch"
    and "\<forall>q \<in> set (period E s pss). int64 (millis (timestamp q))"
    and "unique_keys (flow_table (database s))" "orders_newest (row_order E)"
  shows "\<exists>t ks h. sample True E s = (Inr (), t) \<and> storage_error t = [] \<and> flows (aggs t) = [] \<and>
    settings (database t) = settings (database s) \<and>
    accounts_for (capture_interface s) (period E s pss) ks (sqlite_clock E h)
      (flow_table (database s)) (flow_table (database t)) \<and>
    (ks = key_of (capture_interface s) ` {p \<in> set (period E s pss). with_address p} \<or> 4096 \<le> card ks)"
proof -
  let ?ps = "take 8192 (drain_reply E (calls s))" and ?i = "capture_interface s"
  have all: "concat (pss @ [?ps]) = period E s pss" by (simp add: period_def)
  obtain t a where run: "sample True E s = (Inr (), t)" "stores E (s\<lparr>aggs := a\<rparr>) t" "aggs t = reset_aggregates a"
    "sample_batches (json_of E) ?i (pss @ [?ps]) (no_aggregates\<lparr>recent := r\<rparr>) = Inr a"
    using period_stored [OF _ assms(2,3) _ assms(5,6)] assms(1,4) by (auto simp: max_recent_def)
  obtain h db where db: "flow_table db = flow_table (database s)" "settings db = settings (database s)"
    "record_flows (\<lambda>_. None) (json_of E) (row_order E) (sqlite_clock E h) (map snd (flows a)) db = (Inr (), database t)"
    "storage_error t = []"
    using run(2) by (auto simp: stores_def)
  have "sampled ?i (period E s pss) a"
    using sample_batches_start [of "pss @ [?ps]" r "json_of E" ?i] run(4) assms(4-6)
    unfolding all by (auto simp: max_recent_def)
  note keys = recorded_keys [OF this]
  have "unique_keys (flow_table db)" "length r \<le> max_recent" using assms(4,7) db(1) by (simp_all add: max_recent_def)
  note stored = stored_period [OF run(4) assms(5,6) [folded all] this(2) db(3) this(1) assms(8), unfolded all db(1,2)]
  have "flows (aggs t) = []" using run(3) by (simp add: reset_aggregates_def)
  then show ?thesis
    using stored keys run(1) db(4) by (intro exI [of _ t] exI [of _ "dom (map_of (flows a))"] exI [of _ h]) simp
qed


definition one_packet :: rt_env where
  "one_packet = calm_app\<lparr>drain_reply := (\<lambda>_. [empty_packet\<lparr>source_ip := ''192.0.2.1'', wire_bytes := 60\<rparr>])\<rparr>"

definition capturing :: runtime where
  "capturing = waiting_app\<lparr>has_engine := True, capture_interface := ''eth0''\<rparr>"

theorem packets_reach_database_witness:
  "\<exists>t. sample True one_packet capturing = (Inr (), t) \<and> storage_error t = [] \<and> flows (aggs t) = []"
proof -
  have period: "period one_packet capturing [] = [empty_packet\<lparr>source_ip := ''192.0.2.1'', wire_bytes := 60\<rparr>]"
    by (simp add: period_def one_packet_def)
  have "\<forall>h. statement_reply one_packet h = (\<lambda>_. None)" "has_engine capturing"
    "sample_batches (json_of one_packet) (capture_interface capturing) [] (no_aggregates\<lparr>recent := []\<rparr>) = Inr (aggs capturing)"
    "unique_keys (flow_table (database capturing))" "orders_newest (row_order one_packet)"
    by (simp_all add: one_packet_def calm_app_def capturing_def waiting_app_def no_aggregates_def empty_store_def
        unique_keys_def by_last_seen_orders)
  moreover have "length (period one_packet capturing []) \<le> max_batch"
    "\<forall>q \<in> set (period one_packet capturing []). int64 (millis (timestamp q))"
    by (simp_all add: period max_batch_def int64_def empty_packet_def millis_def)
  ultimately show ?thesis
    using packets_reach_database [of one_packet capturing "[]" "[]"] by auto
qed

end
