(* ===== verification/Journal.thy ===== *)
theory Journal
  imports Recovery
begin

text \<open>
  The journal as the only memory that survives the process. \<open>record_put\<close> replays the successful journal
  writes of a trace, \<open>disciplined\<close> says that every change of the system happens while the last of them
  reads \<open>applying\<close> or \<open>rolling_back\<close> and that every one of them holds a readable configuration. The lemmas
  show that every operation of the controller keeps this discipline, in any order and with any answers
  of the system, so it holds of the whole life of a controller, cut off at any event.
\<close>

section \<open>Replaying the journal\<close>

fun record_put :: "json option \<Rightarrow> event \<Rightarrow> json option" where
  "record_put j (Store_put _ v None) = Some v"
| "record_put j _ = j"

definition recorded :: "json option \<Rightarrow> event list \<Rightarrow> json option" where
  "recorded j evs = foldl record_put j evs"

definition readable :: "pton \<Rightarrow> json \<Rightarrow> bool" where
  "readable pton v \<longleftrightarrow> (case config_from_json pton (jfield v ''config'') of Inl e \<Rightarrow> False | Inr c \<Rightarrow> True)"

definition in_change :: "json option \<Rightarrow> bool" where
  "in_change j \<longleftrightarrow> (case j of None \<Rightarrow> False
     | Some v \<Rightarrow> jfield v ''status'' \<in> {JString ''applying'', JString ''rolling_back''})"

fun allowed :: "pton \<Rightarrow> json option \<Rightarrow> event \<Rightarrow> bool" where
  "allowed pton j (Store_put k v None) = (k = ''network'' \<and> readable pton v)"
| "allowed pton j e = (mutates e \<longrightarrow> in_change j)"

fun disciplined :: "pton \<Rightarrow> json option \<Rightarrow> event list \<Rightarrow> bool" where
  "disciplined pton j [] = True"
| "disciplined pton j (e # evs) = (allowed pton j e \<and> disciplined pton (record_put j e) evs)"

lemma recorded_simps [simp]:
  "recorded j [] = j" "recorded j (e # evs) = recorded (record_put j e) evs"
  "recorded j (xs @ ys) = recorded (recorded j xs) ys"
  by (simp_all add: recorded_def)

lemma disciplined_append [simp]:
  "disciplined pton j (xs @ ys) \<longleftrightarrow> disciplined pton j xs \<and> disciplined pton (recorded j xs) ys"
  by (induction xs arbitrary: j) auto

lemma readable_iff: "readable pton v \<longleftrightarrow> (\<exists>c. config_from_json pton (jfield v ''config'') = Inr c)"
  by (simp add: readable_def split: sum.splits)

lemma in_change_simps [simp]:
  "\<not> in_change None"
  "in_change (Some v) \<longleftrightarrow> jfield v ''status'' = JString ''applying'' \<or> jfield v ''status'' = JString ''rolling_back''"
  by (simp_all add: in_change_def)

lemma allowed_put [simp]: "allowed pton j (Store_put k v r) \<longleftrightarrow> (r = None \<longrightarrow> k = ''network'' \<and> readable pton v)"
  by (cases r) (simp_all add: mutates_def)

lemma allowed_other: "\<not> is_put e \<Longrightarrow> allowed pton j e \<longleftrightarrow> (mutates e \<longrightarrow> in_change j)"
  by (cases e) simp_all

lemma record_other: "\<not> is_put e \<Longrightarrow> record_put j e = j"
  by (cases e) simp_all

text \<open>Without journal writes the journal stays, and reads are allowed at any time.\<close>

lemma recorded_quiet: "list_all (\<lambda>e. \<not> is_put e) evs \<Longrightarrow> recorded j evs = j"
  by (induction evs arbitrary: j) (simp_all add: record_other)

lemma disciplined_change:
  "list_all (\<lambda>e. \<not> is_put e) evs \<Longrightarrow> in_change j \<Longrightarrow> disciplined pton j evs"
  by (induction evs arbitrary: j) (simp_all add: record_other allowed_other)

lemma disciplined_read_only: "list_all read_only evs \<Longrightarrow> disciplined pton j evs"
proof (induction evs arbitrary: j)
  case (Cons e evs)
  then have "\<not> is_put e" "\<not> mutates e" by (cases e; simp add: mutates_def)+
  then show ?case using Cons by (simp add: record_other allowed_other)
qed simp

lemma quiet_kinds:
  "list_all read_only evs \<Longrightarrow> list_all (\<lambda>e. \<not> is_put e) evs"
  "list_all plain evs \<Longrightarrow> list_all (\<lambda>e. \<not> is_put e) evs"
proof -
  show "list_all (\<lambda>e. \<not> is_put e) evs" if "list_all read_only evs"
    using that by (rule list_all_weaken) (drule read_only_plain, simp add: plain_def)
  show "list_all (\<lambda>e. \<not> is_put e) evs" if "list_all plain evs"
    using that by (rule list_all_weaken) (simp add: plain_def)
qed

lemma record_put_cases:
  obtains (recorded) k v where "e = Store_put k v None"
  | (other) "\<And>j. record_put j e = j" "\<And>j. allowed pton j e \<longleftrightarrow> (mutates e \<longrightarrow> in_change j)"
proof (cases e)
  case (Store_put k v r)
  with that show ?thesis by (cases r) (auto simp: mutates_def)
qed (use that in auto)

lemma disciplined_mono: "disciplined pton None evs \<Longrightarrow> disciplined pton j evs"
proof (induction evs arbitrary: j)
  case (Cons e evs)
  then show ?case by (cases rule: record_put_cases [where e = e and pton = pton]) auto
qed simp

section \<open>The operations keep the discipline\<close>

text \<open>
  What holds of the controller between two operations: outside \<open>inactive\<close> the configuration in memory can be
  read back. A controller without permission changes nothing.
\<close>

definition in_order :: "pton \<Rightarrow> ctl \<Rightarrow> bool" where
  "in_order pton s \<longleftrightarrow> indexable (net_state s) \<and>
     (enabled s \<and> status s \<noteq> JString ''inactive'' \<longrightarrow> readable pton (net_state s))"

definition orderly :: "pton \<Rightarrow> ctl \<Rightarrow> ctl \<Rightarrow> bool" where
  "orderly pton s t \<longleftrightarrow> in_order pton t \<and> enabled t = enabled s \<and> (\<exists>evs. trace t = trace s @ evs \<and> disciplined pton None evs)"

lemma readable_same: "jfield v ''config'' = jfield w ''config'' \<Longrightarrow> readable pton v = readable pton w"
  by (simp add: readable_def)

lemma in_order_same: "same_state s t \<Longrightarrow> in_order pton s \<Longrightarrow> in_order pton t"
  by (simp add: in_order_def same_state_def readable_def)

lemma same_state_enabled: "same_state s t \<Longrightarrow> enabled t = enabled s"
  by (simp add: same_state_def)

lemma orderly_trans: "orderly pton s t \<Longrightarrow> orderly pton t u \<Longrightarrow> orderly pton s u"
  using disciplined_mono by (fastforce simp: orderly_def)

lemma orderly_emits: "emits read_only m \<Longrightarrow> m E s = (r, t) \<Longrightarrow> in_order pton s \<Longrightarrow> orderly pton s t"
  by (erule (1) emitsD)
    (auto simp: orderly_def same_state_enabled intro: in_order_same disciplined_read_only)

text \<open>A step that leaves the state, up to fields read, and adds reads only.\<close>

lemma orderly_quiet:
  "same_state s t \<Longrightarrow> trace t = trace s @ evs \<Longrightarrow> list_all read_only evs \<Longrightarrow> in_order pton s \<Longrightarrow> orderly pton s t"
  by (auto simp: orderly_def same_state_enabled intro: in_order_same disciplined_read_only)

lemma restore_orderly:
  assumes "restore E s = (r, t)" "indexable (net_state s)"
  shows "orderly (pton_fun E) s t \<or> same_state s t \<and> trace t = trace s \<and> \<not> readable (pton_fun E) (net_state s)"
  using assms
proof (cases rule: restore_cases)
  case (invalid e)
  then show ?thesis by (simp add: readable_def)
next
  case (unjournaled m)
  have "readable (pton_fun E) (net_state t)"
    using unjournaled(6,7) by (simp add: readable_iff)
  then show ?thesis
    using unjournaled indexable_by_field [OF unjournaled(3)]
    by (auto simp: orderly_def in_order_def mutates_def)
next
  case (ran c s1 s2 s3 work errors gone errors' put)
  have r: "readable (pton_fun E) (net_state s1)" "readable (pton_fun E) (net_state t)"
    using ran(1,4,15) by (simp_all add: readable_iff)
  have "list_all (\<lambda>e. \<not> is_put e) (work @ gone)"
    using ran(7,10) quiet_kinds(2) by simp
  moreover have "in_change (Some (net_state s1))" using ran(3) by simp
  ultimately have "disciplined (pton_fun E) None
      (Store_put ''network'' (net_state s1) None # (work @ gone) @ [Store_put ''network'' (net_state t) put])"
    using r disciplined_change recorded_quiet by simp
  moreover have "trace t = trace s @
      (Store_put ''network'' (net_state s1) None # (work @ gone) @ [Store_put ''network'' (net_state t) put])"
    using ran(2,6,9,12) by simp
  moreover have "indexable (net_state t)" by (rule indexable_by_field [OF ran(13)])
  ultimately show ?thesis
    using r ran(17) by (simp add: orderly_def in_order_def)
qed

lemma restore_in_order:
  assumes "restore E s = (r, t)" "in_order (pton_fun E) s" "enabled s" "status s \<noteq> JString ''inactive''"
  shows "orderly (pton_fun E) s t"
  using restore_orderly [OF assms(1)] assms(2-4) by (simp add: in_order_def)


lemma journaled_readable: "journaled c v \<Longrightarrow> validate pton c = [] \<Longrightarrow> readable pton v"
  by (simp add: journaled_def readable_iff config_from_config_json)

lemma plain_change:
  assumes "list_all plain evs" "in_change (Some v)" "readable pton v"
  shows "disciplined pton (Some v) evs" "recorded (Some v) evs = Some v"
  using assms disciplined_change recorded_quiet quiet_kinds(2) by blast+

text \<open>From a journal entry \<open>applying\<close> on.\<close>

lemma started_orderly:
  assumes "catchP (install_and_wait c) undo E s = (r, t)" "indexable (net_state s)" "enabled s"
    and "status s = JString ''applying''" "readable (pton_fun E) (net_state s)"
  shows "in_order (pton_fun E) t \<and> enabled t \<and>
    (\<exists>evs. trace t = trace s @ evs \<and> disciplined (pton_fun E) (Some (net_state s)) evs)"
  using assms(1,2)
proof (cases rule: started_cases)
  case (waiting s2 evs \<tau>)
  then have "readable (pton_fun E) (net_state t)"
    using assms(5) by (simp add: readable_def same_state_def)
  then show ?thesis
    using waiting plain_change [OF waiting(3), of "net_state s"] assms(3-5)
    by (auto simp: in_order_def mutates_def)
next
  case (undone s2 evs m r')
  have s2: "in_order (pton_fun E) s2" "enabled s2" "status s2 = JString ''applying''"
    using in_order_same [OF undone(3)] undone(3) assms(2-5) by (simp_all add: in_order_def same_state_def)
  have "orderly (pton_fun E) s2 t"
    using restore_in_order [OF undone(4) s2(1,2)] s2(3) by simp
  then show ?thesis
    using undone(1) plain_change [OF undone(2), of "net_state s"] assms(4,5) s2(2) disciplined_mono
    by (auto simp: orderly_def)
next
  case (undone_late s2 evs \<tau> m m' r')
  have "in_order (pton_fun E) s2"
    using undone_late(4,5) assms(5) by (simp add: in_order_def readable_def)
  then have "orderly (pton_fun E) s2 t"
    using restore_in_order [OF undone_late(7)] undone_late(3,6) assms(3) by simp
  then show ?thesis
    using undone_late(1,6) plain_change [OF undone_late(2), of "net_state s"] assms(3-5) disciplined_mono
    by (auto simp: orderly_def mutates_def)
qed

lemma apply_orderly:
  assumes "apply_config c E s = (r, t)" "in_order (pton_fun E) s"
  shows "orderly (pton_fun E) s t"
proof -
  have idx: "indexable (net_state s)" using assms(2) by (simp add: in_order_def)
  from assms(1) idx show ?thesis
  proof (cases rule: apply_cases)
    case (refused e pre)
    then have "in_order (pton_fun E) t"
      using assms(2) in_order_same by (auto simp: in_order_def)
    then show ?thesis using refused disciplined_read_only by (auto simp: orderly_def)
  next
    case (unjournaled pre m)
    have "readable (pton_fun E) (net_state t)" by (rule journaled_readable [OF unjournaled(8,9)])
    then show ?thesis
      using unjournaled disciplined_read_only indexable_by_field [OF unjournaled(4)]
      by (auto simp: orderly_def in_order_def)
  next
    case (started pre s1)
    have s1: "readable (pton_fun E) (net_state s1)" "enabled s1" "status s1 = JString ''applying''"
      using journaled_readable [OF started(6,3)] started(1,6,8) by (simp_all add: journaled_def)
    from started_orderly [OF started(9,7) s1(2,3,1)] obtain evs where
      evs: "in_order (pton_fun E) t" "enabled t" "trace t = trace s1 @ evs"
        "disciplined (pton_fun E) (Some (net_state s1)) evs" by blast
    have "recorded None pre = None" using recorded_quiet quiet_kinds(1) started(5) by blast
    then show ?thesis
      using evs started(1,4) s1(1) disciplined_read_only [OF started(5)] by (auto simp: orderly_def)
  qed
qed

lemma peek_orderly: "in_order pton s \<Longrightarrow> orderly pton s (peek s)"
  by (rule orderly_quiet [where evs = "[]"]) (simp_all add: same_state_def in_order_def)

lemma clocked_orderly: "in_order pton s \<Longrightarrow> orderly pton s (clocked E (peek s))"
  by (rule orderly_quiet [where evs = "[Clock (clock_reply E (trace s))]"])
    (simp_all add: same_state_def in_order_def)

lemma tick_orderly:
  assumes "tick E s = (r, t)" "in_order (pton_fun E) s"
  shows "orderly (pton_fun E) s t"
proof -
  have idx: "indexable (net_state s)" using assms(2) by (simp add: in_order_def)
  let ?s = "clocked E (peek s)"
  have s: "orderly (pton_fun E) s ?s" by (rule clocked_orderly [OF assms(2)])
  show ?thesis
  proof (cases "enabled s \<and> status s = JString ''awaiting_confirmation'' \<and> restore E ?s = (r, t)")
    case True
    moreover have "in_order (pton_fun E) ?s" using s by (simp add: orderly_def)
    ultimately have "orderly (pton_fun E) ?s t" by (intro restore_in_order) simp_all
    with s show ?thesis by (rule orderly_trans)
  next
    case False
    then have "t = s \<or> t = peek s \<or> t = ?s"
      using assms(1) unfolding tick_eq [OF idx] by (auto split: if_splits)
    moreover have "orderly (pton_fun E) s s" using assms(2) by (simp add: orderly_def)
    ultimately show ?thesis using s peek_orderly [OF assms(2)] by auto
  qed
qed

lemma mark_confirmed_orderly:
  assumes "mark_confirmed E s = (r, t)" "in_order (pton_fun E) s" "enabled s"
  shows "orderly (pton_fun E) s t"
proof -
  have idx: "indexable (net_state s)" using assms(2) by (simp add: in_order_def)
  show ?thesis
  proof (cases "status s = JString ''awaiting_confirmation''")
    case False
    then have "t = peek s" using assms(1) by (simp add: mark_confirmed_eq [OF idx])
    then show ?thesis using peek_orderly [OF assms(2)] by simp
  next
    case True
    then have "readable (pton_fun E) (net_state s)" using assms(2,3) by (simp add: in_order_def)
    then show ?thesis
      using assms(1) True by (auto simp: mark_confirmed_eq [OF idx] orderly_def in_order_def readable_def)
  qed
qed


lemma confirm_orderly:
  assumes "confirm E s = (r, t)" "in_order (pton_fun E) s"
  shows "orderly (pton_fun E) s t"
proof (cases "enabled s")
  case False
  then show ?thesis using assms by (simp add: confirm_split run_require_enabled orderly_def)
next
  case True
  obtain r1 s1 where tick: "tick E s = (r1, s1)" by (cases "tick E s")
  note s1 = tick_orderly [OF tick assms(2)]
  show ?thesis
  proof (cases r1)
    case (Inl e)
    then show ?thesis
      using assms(1) True tick s1 by (simp add: confirm_split run_require_enabled run_rules)
  next
    case (Inr u)
    then have "mark_confirmed E s1 = (r, t)"
      using assms(1) True tick by (simp add: confirm_split run_require_enabled run_rules)
    then have "orderly (pton_fun E) s1 t"
      using s1 True by (intro mark_confirmed_orderly) (simp_all add: orderly_def)
    with s1 show ?thesis by (rule orderly_trans)
  qed
qed

lemma rollback_orderly:
  assumes "rollback E s = (r, t)" "in_order (pton_fun E) s"
  shows "orderly (pton_fun E) s t"
proof -
  have idx: "indexable (net_state s)" using assms(2) by (simp add: in_order_def)
  have p: "orderly (pton_fun E) s (peek s)" by (rule peek_orderly [OF assms(2)])
  show ?thesis
  proof (cases "enabled s \<and> status s \<noteq> JString ''inactive''")
    case True
    then have "restore E (peek s) = (r, t)" using assms(1) by (simp add: rollback_eq [OF idx])
    then have "orderly (pton_fun E) (peek s) t"
      using p True by (intro restore_in_order) (simp_all add: orderly_def)
    with p show ?thesis by (rule orderly_trans)
  next
    case False
    then have "t = s \<or> t = peek s"
      using assms(1) by (auto simp: rollback_eq [OF idx] split: if_splits)
    then show ?thesis using p assms(2) by (auto simp: orderly_def)
  qed
qed

section \<open>Starting\<close>

text \<open>What follows the rollback when the journal said \<open>confirmed\<close>.\<close>

definition reapply :: "json \<Rightarrow> json \<Rightarrow> unit prog" where
  "reapply st desired =
     whenP (st = JString ''confirmed'') (thenP (bindP (read_config desired) apply_config) confirm)"

lemma restart_split: "restart st desired = thenP restore (reapply st desired)"
  by (simp add: restart_def reapply_def)

lemma reapply_orderly:
  assumes "reapply st desired E s = (r, t)" "in_order (pton_fun E) s"
  shows "orderly (pton_fun E) s t"
proof (cases "st = JString ''confirmed''")
  case False
  then show ?thesis using assms by (simp add: reapply_def whenP_def returnP_def orderly_def)
next
  case True
  obtain r1 s1 where a: "bindP (read_config desired) apply_config E s = (r1, s1)"
    by (cases "bindP (read_config desired) apply_config E s")
  then have s1: "orderly (pton_fun E) s s1"
    using apply_orderly assms(2) by (auto simp: read_config_run orderly_def split: sum.splits)
  show ?thesis
  proof (cases r1)
    case (Inl e)
    then show ?thesis using assms(1) a s1 True by (simp add: reapply_def whenP_def run_first)
  next
    case (Inr u)
    then have "confirm E s1 = (r, t)" using assms(1) a True by (simp add: reapply_def whenP_def run_first)
    then have "orderly (pton_fun E) s1 t" using s1 confirm_orderly by (simp add: orderly_def)
    with s1 show ?thesis by (rule orderly_trans)
  qed
qed

lemma restore_done_orderly:
  assumes "restore E s = (Inr (), t)" "indexable (net_state s)"
  shows "orderly (pton_fun E) s t"
  using restore_orderly [OF assms] assms by (auto elim: restore_cases simp: readable_def)

lemma restart_orderly:
  assumes "restart st desired E s = (r, t)" "indexable (net_state s)" "enabled s"
  shows "(r = Inr () \<longrightarrow> in_order (pton_fun E) t) \<and> enabled t \<and>
    (\<exists>evs. trace t = trace s @ evs \<and> disciplined (pton_fun E) None evs)"
proof -
  obtain r1 s1 where restore: "restore E s = (r1, s1)" by (cases "restore E s")
  show ?thesis
  proof (cases "r1 = Inr ()")
    case False
    then have "r = r1" "t = s1"
      using assms(1) restore by (cases r1; auto simp: restart_def run_first)+
    then show ?thesis
      using restore_orderly [OF restore assms(2)] False assms(3) by (auto simp: orderly_def same_state_def)
  next
    case True
    have s1: "orderly (pton_fun E) s s1"
      using restore True assms(2) by (intro restore_done_orderly) simp_all
    have "reapply st desired E s1 = (r, t)"
      using assms(1) restore True by (simp add: restart_split run_first)
    then have "orderly (pton_fun E) s1 t" using s1 reapply_orderly by (simp add: orderly_def)
    with s1 have "orderly (pton_fun E) s t" by (rule orderly_trans)
    then show ?thesis using assms(3) by (simp add: orderly_def)
  qed
qed

lemma recover_orderly:
  assumes "recover E s = (r, t)"
  shows "(r = Inr () \<longrightarrow> in_order (pton_fun E) t) \<and> enabled t = enabled s \<and>
    (\<exists>evs. trace t = trace s @ evs \<and> disciplined (pton_fun E) None evs)"
proof (cases "indexable (net_state s)")
  case False
  then show ?thesis using assms by (auto simp: recover_def bindP_def state_at_def)
next
  case idx: True
  let ?s = "s\<lparr>net_state := jtouch (net_state (peek s)) ''config''\<rparr>"
  show ?thesis
  proof (cases "status s \<noteq> JString ''inactive'' \<and> enabled s")
    case True
    then have "restart (status s) (jfield (net_state s) ''config'') E ?s = (r, t)"
      using assms by (simp add: recover_eq [OF idx])
    from restart_orderly [OF this] show ?thesis using idx True by simp
  next
    case False
    then have "r = Inr ()" "t = peek s" using assms by (auto simp: recover_eq [OF idx])
    then show ?thesis using idx False by (auto simp: in_order_def)
  qed
qed

lemma start_orderly:
  assumes "start_controller E (new_controller allow) = (r, t)"
  shows "(r = Inr () \<longrightarrow> in_order (pton_fun E) t) \<and> enabled t = allow \<and>
    disciplined (pton_fun E) None (trace t)"
proof -
  let ?s0 = "new_controller allow"
  obtain r1 s1 where get: "store_get ''network'' E ?s0 = (r1, s1)"
    by (cases "store_get ''network'' E ?s0")
  have q1: "list_all read_only (trace s1)" "enabled s1 = allow"
    using emitsD [OF store_get_emits get] by (auto simp: same_state_def new_controller_def)
  show ?thesis
  proof (cases r1)
    case (Inl e)
    then show ?thesis
      using assms get q1 by (auto simp: start_controller_eq run_first disciplined_read_only)
  next
    case (Inr v)
    let ?s1 = "s1\<lparr>net_state := v\<rparr>"
    have rest: "thenP (whenP allow acquire_lock) resume E ?s1 = (r, t)"
      using assms get Inr q1(2)
      by (simp add: start_controller_eq run_first load_state_def thenP_def bindP_def getP_def)
    obtain r2 s2 where lock: "whenP allow acquire_lock E ?s1 = (r2, s2)"
      by (cases "whenP allow acquire_lock E ?s1")
    have "emits read_only (whenP allow acquire_lock)" by (intro emits_rules acquire_lock_emits)
    then obtain ys where "trace s2 = trace ?s1 @ ys" "list_all read_only ys" and same: "same_state ?s1 s2"
      using emitsD [where m = "whenP allow acquire_lock", OF _ lock] by blast
    then have q2: "list_all read_only (trace s2)" "enabled s2 = allow"
      using q1 same_state_enabled [OF same] by simp_all
    show ?thesis
    proof (cases r2)
      case (Inl e)
      then show ?thesis using rest lock q2 by (auto simp: run_first disciplined_read_only)
    next
      case (Inr u)
      then have "resume E s2 = (r, t)" using rest lock by (simp add: run_first)
      note recover_orderly [OF this [unfolded resume_eq]]
      then obtain evs where "r = Inr () \<longrightarrow> in_order (pton_fun E) t" "enabled t = enabled s2" "trace t = trace s2 @ evs"
        "disciplined (pton_fun E) None evs"
        by (cases "net_state s2 = JNull") auto
      then show ?thesis using disciplined_read_only [OF q2(1)] q2(2) disciplined_mono by simp
    qed
  qed
qed

section \<open>The life of a controller\<close>

text \<open>
  A controller starts, and while it is alive its owner calls its operations in any order. The flag tells
  whether the constructor has returned.
\<close>

definition operation :: "unit prog \<Rightarrow> bool" where
  "operation m \<longleftrightarrow> m = confirm \<or> m = rollback \<or> m = tick \<or> (\<exists>c. m = apply_config c)"

inductive life :: "env \<Rightarrow> bool \<Rightarrow> bool \<Rightarrow> ctl \<Rightarrow> bool" for E allow where
  born: "start_controller E (new_controller allow) = (r, s) \<Longrightarrow> life E allow (r = Inr ()) s"
| operates: "life E allow True s \<Longrightarrow> operation m \<Longrightarrow> m E s = (r, t) \<Longrightarrow> life E allow True t"
| reports: "life E allow True s \<Longrightarrow> m \<in> {state_json, interfaces} \<Longrightarrow> m E s = (r, t) \<Longrightarrow> life E allow True t"

lemma operation_orderly:
  "operation m \<Longrightarrow> m E s = (r, t) \<Longrightarrow> in_order (pton_fun E) s \<Longrightarrow> orderly (pton_fun E) s t"
  using apply_orderly confirm_orderly rollback_orderly tick_orderly unfolding operation_def by blast

lemma report_orderly:
  assumes "m \<in> {state_json, interfaces}" "m E s = (r, t)" "in_order pton s"
  shows "orderly pton s t"
proof -
  have "emits read_only m"
    using assms(1) emits_state_json emits_interfaces by blast
  then show ?thesis using assms(2,3) by (rule orderly_emits)
qed

lemma life_orderly:
  "life E allow alive s \<Longrightarrow> (alive \<longrightarrow> in_order (pton_fun E) s) \<and> disciplined (pton_fun E) None (trace s)"
proof (induction rule: life.induct)
  case (born r s)
  then show ?case using start_orderly by simp
next
  case (operates s m r t)
  then show ?case using operation_orderly disciplined_mono by (fastforce simp: orderly_def)
next
  case (reports s m r t)
  then have "orderly (pton_fun E) s t" using report_orderly by simp
  then show ?case using reports.IH disciplined_mono by (auto simp: orderly_def)
qed


text \<open>The statuses of the documented state machine.\<close>

definition documented :: "json \<Rightarrow> bool" where
  "documented st \<longleftrightarrow> st \<in> JString ` set [''inactive'', ''applying'', ''awaiting_confirmation'', ''confirmed'',
     ''rolling_back'', ''rollback_failed'']"

lemma documented_step: "status_step a b \<Longrightarrow> documented b"
  by (auto simp: status_step_iff documented_def)

lemma documented_path: "status_path a bs z \<Longrightarrow> documented a \<Longrightarrow> documented z"
  by (induction bs arbitrary: a) (auto dest: documented_step)

lemma operation_follows:
  assumes "operation m" "m E s = (r, t)" "indexable (net_state s)"
  shows "follows s t"
  using assms apply_follows confirm_follows rollback_follows tick_follows(1) unfolding operation_def by blast

definition well_formed :: "pton \<Rightarrow> ctl \<Rightarrow> bool" where
  "well_formed pton s \<longleftrightarrow> is_object (net_state s) \<and> documented (status s) \<and>
     (status s = JString ''inactive'' \<or> readable pton (net_state s))"

lemma documented_object: "documented (status s) \<Longrightarrow> is_object (net_state s)"
  by (cases "net_state s") (auto simp: documented_def jfield_def)

lemma life_enabled: "life E allow alive s \<Longrightarrow> enabled s = allow"
proof (induction rule: life.induct)
  case (born r s)
  then show ?case using start_orderly by blast
next
  case (operates s m r t)
  then have "orderly (pton_fun E) s t" using operation_orderly life_orderly [OF operates(1)] by blast
  then show ?case using operates.IH by (simp add: orderly_def)
next
  case (reports s m r t)
  then have "orderly (pton_fun E) s t"
    using report_orderly [OF reports(2,3)] life_orderly [OF reports(1)] by blast
  then show ?case using reports.IH by (simp add: orderly_def)
qed

lemma life_documented: "life E True alive s \<Longrightarrow> alive \<Longrightarrow> documented (status s)"
proof (induction rule: life.induct)
  case (born r s)
  then show ?case using start_outcome [of E s] by (auto simp: documented_def split: if_splits)
next
  case (operates s m r t)
  have "in_order (pton_fun E) s" using life_orderly [OF operates(1)] by simp
  then have "follows s t" using operation_follows [OF operates(2,3)] by (simp add: in_order_def)
  then show ?case using operates.IH documented_path by (auto simp: follows_def)
next
  case (reports s m r t)
  have "emits read_only m" using reports(2) emits_state_json emits_interfaces by blast
  then have "same_state s t" using reports(3) by (rule emitsD)
  then show ?case using reports.IH by (simp add: status_of_same)
qed

lemma life_well_formed:
  assumes "life E True True s"
  shows "well_formed (pton_fun E) s"
proof -
  have "documented (status s)" using life_documented [OF assms] by simp
  moreover have "in_order (pton_fun E) s" "enabled s"
    using life_orderly [OF assms] life_enabled [OF assms] by simp_all
  ultimately show ?thesis
    using documented_object by (auto simp: well_formed_def in_order_def)
qed

text \<open>
  C39. The controller's state is well formed at every moment between two calls: it is an object, its status is one
  of the six documented texts, and unless that is \<open>inactive\<close> its configuration is one that the
  validation accepts.
\<close>

theorem controller_state_well_formed:
  assumes "life E True True s"
  shows "well_formed (pton_fun E) s"
  using assms by (rule life_well_formed)

text \<open>
  A trace is unsettled when the system has been changed after the last successful journal write that
  says \<open>inactive\<close>.
\<close>

fun mark_change :: "bool \<Rightarrow> event \<Rightarrow> bool" where
  "mark_change d (Store_put _ v None) = (jfield v ''status'' \<noteq> JString ''inactive'' \<and> d)"
| "mark_change d e = (d \<or> mutates e)"

definition unsettled :: "event list \<Rightarrow> bool" where
  "unsettled evs \<longleftrightarrow> foldl mark_change False evs"

definition tells :: "pton \<Rightarrow> bool \<Rightarrow> json option \<Rightarrow> bool" where
  "tells pton d j \<longleftrightarrow> (\<forall>v. j = Some v \<longrightarrow> readable pton v) \<and>
     (d \<longrightarrow> (\<exists>v. j = Some v \<and> jfield v ''status'' \<noteq> JString ''inactive''))"

lemma tells_step:
  assumes "allowed pton j e" "tells pton d j"
  shows "tells pton (mark_change d e) (record_put j e)"
proof (cases rule: record_put_cases [where e = e and pton = pton])
  case (recorded k v)
  then show ?thesis using assms by (auto simp: tells_def)
next
  case other
  then have "mark_change d e \<longrightarrow> d \<or> mutates e"
    by (cases e rule: mark_change.cases [where x = "(d, e)", case_product event.exhaust]) auto
  then show ?thesis using assms other by (auto simp: tells_def in_change_def split: option.splits)
qed

lemma tells_run:
  "disciplined pton j evs \<Longrightarrow> tells pton d j \<Longrightarrow> tells pton (foldl mark_change d evs) (recorded j evs)"
  by (induction evs arbitrary: d j) (simp_all add: tells_step)

lemma unsettled_journal:
  assumes "disciplined pton None evs" "unsettled evs"
  shows "\<exists>v. recorded None evs = Some v \<and> readable pton v \<and> jfield v ''status'' \<noteq> JString ''inactive''"
  using tells_run [OF assms(1), of False] assms(2) by (auto simp: tells_def unsettled_def)

lemma change_journaled:
  assumes "life E allow alive s" "trace s = pre @ e # post" "mutates e"
  shows "\<exists>v c. recorded None pre = Some v \<and>
    jfield v ''status'' \<in> {JString ''applying'', JString ''rolling_back''} \<and>
    config_from_json (pton_fun E) (jfield v ''config'') = Inr c"
proof -
  have d: "disciplined (pton_fun E) None (pre @ e # post)"
    using life_orderly [OF assms(1)] assms(2) by simp
  then have pre: "disciplined (pton_fun E) None pre" and e: "allowed (pton_fun E) (recorded None pre) e"
    by simp_all
  have "\<not> is_put e" using assms(3) by (simp add: mutates_def)
  then have "in_change (recorded None pre)" using e assms(3) by (simp add: allowed_other)
  moreover have "tells (pton_fun E) (foldl mark_change False pre) (recorded None pre)"
    by (rule tells_run [OF pre]) (simp add: tells_def)
  ultimately show ?thesis by (auto simp: in_change_def tells_def readable_iff split: option.splits)
qed

text \<open>
  Through the whole life of a controller, with every order of operations and every answer of the
  system: whenever it changes the system, the last successful journal write says \<open>applying\<close> or
  \<open>rolling_back\<close> and holds a configuration that can be read back.
\<close>

theorem changes_only_while_journaled:
  assumes "life E allow alive s" "trace s = pre @ e # post" "mutates e"
  shows "\<exists>v c. recorded None pre = Some v \<and>
    jfield v ''status'' \<in> {JString ''applying'', JString ''rolling_back''} \<and>
    config_from_json (pton_fun E) (jfield v ''config'') = Inr c"
  using assms by (rule change_journaled)

end
