(* ===== verification/Crash.thy ===== *)
theory Crash
  imports Journal Store Witnesses
begin

text \<open>
  The controller on the modelled database, and what a crash leaves behind. \<open>written\<close> replays the journal
  writes of a trace on the tables of theory Store, \<open>on_store\<close> is an environment whose answers to
  \<open>Store::get\<close> come from those tables. A crash at any event of any life of a controller loses the memory
  and keeps the tables; the next process starts from them.
\<close>

section \<open>The journal on the database\<close>

fun write_event :: "json_lib \<Rightarrow> store \<Rightarrow> event \<Rightarrow> store" where
  "write_event L db (Store_put k v r) = snd (store_put (\<lambda>_. r) L k v db)"
| "write_event L db _ = db"

definition written :: "json_lib \<Rightarrow> store \<Rightarrow> event list \<Rightarrow> store" where
  "written L db evs = foldl (write_event L) db evs"

definition refusal :: "string + 'a \<Rightarrow> string option" where
  "refusal r = (case r of Inl message \<Rightarrow> Some message | Inr _ \<Rightarrow> None)"

text \<open>The environment may still fail a statement; a value that is read is the one in the table.\<close>

definition on_store :: "store \<Rightarrow> env \<Rightarrow> env" where
  "on_store db E = E\<lparr>get_reply := (\<lambda>h key. case get_reply E h key of
     Inl message \<Rightarrow> Inl message
   | Inr _ \<Rightarrow> Inr (map_option c_str (map_of (settings (written (json_fun E) db h)) key)))\<rparr>"

lemma on_store_simps [simp]:
  "pton_fun (on_store db E) = pton_fun E" "json_fun (on_store db E) = json_fun E"
  "put_reply (on_store db E) = put_reply E"
  by (simp_all add: on_store_def)

lemma written_simps [simp]:
  "written L db [] = db" "written L db (xs @ ys) = written L (written L db xs) ys"
  "written L db (e # evs) = written L (write_event L db e) evs"
  by (simp_all add: written_def)

text \<open>The controller's calls are the operations of the database.\<close>

lemma get_from_store:
  "fst (store_get key (on_store db E) s) =
     store_lookup (\<lambda>_. refusal (get_reply E (trace s) key)) (json_fun E) key (written (json_fun E) db (trace s))"
  by (simp add: store_get_def on_store_def store_lookup_def refusal_def emit_def Let_def parse_jsonP_def
      askP_def liftP_def split: sum.splits option.splits)

lemma put_to_store:
  assumes "put_state E s = (r, t)"
  shows "(r, written L db (trace t)) =
    store_put (\<lambda>_. put_reply E (trace s) ''network'' (net_state s)) L ''network'' (net_state s) (written L db (trace s))"
  using assms by (auto simp: put_state_def emit_def Let_def store_put_def split: option.splits)

text \<open>
  The controller runs on the modelled database: on an environment that answers from the tables, its
  reads are \<open>Store::get\<close> and its journal writes are \<open>Store::put\<close> of theory Store, error for error.
\<close>

theorem controller_on_database:
  "fst (store_get key (on_store db E) s) =
     store_lookup (\<lambda>_. refusal (get_reply E (trace s) key)) (json_fun E) key (written (json_fun E) db (trace s)) \<and>
   (fst (put_state (on_store db E) s), written (json_fun E) db (trace (snd (put_state (on_store db E) s)))) =
     store_put (\<lambda>_. put_reply E (trace s) ''network'' (net_state s)) (json_fun E) ''network'' (net_state s)
       (written (json_fun E) db (trace s))"
proof
  show "(fst (put_state (on_store db E) s), written (json_fun E) db (trace (snd (put_state (on_store db E) s)))) =
     store_put (\<lambda>_. put_reply E (trace s) ''network'' (net_state s)) (json_fun E) ''network'' (net_state s)
       (written (json_fun E) db (trace s))"
    using put_to_store [of "on_store db E" s] by (metis on_store_simps(3) prod.collapse)
qed (rule get_from_store)

lemma write_other: "(\<And>j. record_put j e = j) \<Longrightarrow> write_event L db e = db"
proof (cases e)
  case (Store_put k v r)
  moreover assume "\<And>j. record_put j e = j"
  from this [of None] Store_put obtain m where "r = Some m" by (cases r) auto
  ultimately show ?thesis by (simp add: store_put_def)
qed simp_all

text \<open>What the tables hold after a disciplined trace is what the trace has recorded.\<close>

lemma written_journal:
  "disciplined pton None evs \<Longrightarrow> map_of (settings (written L db evs)) ''network'' =
    (case recorded None evs of Some v \<Rightarrow> Some (json_text L v) | None \<Rightarrow> map_of (settings db) ''network'')"
proof (induction evs rule: rev_induct)
  case (snoc e evs)
  then have ok: "allowed pton (recorded None evs) e" by simp
  show ?case
  proof (cases rule: record_put_cases [where e = e and pton = pton])
    case (recorded k v)
    then show ?thesis
      using ok by (simp add: store_put_def map_of_upsert split: option.splits)
  next
    case other
    from other(1) have "write_event L db' e = db'" for db' by (rule write_other)
    then show ?thesis using other snoc by simp
  qed
qed simp


section \<open>Starting from what a crash has left\<close>

text \<open>
  The first steps of a start from a journal that is not \<open>inactive\<close>: the controller refuses to start
  before it has changed anything, or it begins with a rollback.
\<close>

definition rolls_back :: "env \<Rightarrow> json \<Rightarrow> unit result \<Rightarrow> ctl \<Rightarrow> bool" where
  "rolls_back E v r u \<longleftrightarrow>
     (\<exists>s1 r1 s2 rest. list_all read_only (trace s1) \<and> (\<forall>k. jfield (net_state s1) k = jfield v k) \<and>
        restore E s1 = (r1, s2) \<and> trace u = trace s2 @ rest \<and> (r1 \<noteq> Inr () \<longrightarrow> r = r1 \<and> u = s2))"

lemma recover_rolls_back:
  assumes "recover E s = (r, u)" "enabled s" "indexable (net_state s)" "status s \<noteq> JString ''inactive''"
    and "list_all read_only (trace s)"
  shows "rolls_back E (net_state s) r u"
proof -
  let ?s = "s\<lparr>net_state := jtouch (net_state (peek s)) ''config''\<rparr>"
  obtain r1 s2 where restore: "restore E ?s = (r1, s2)" by (cases "restore E ?s")
  have run: "restart (status s) (jfield (net_state s) ''config'') E ?s = (r, u)"
    using assms(1,2,4) by (simp add: recover_eq [OF assms(3)])
  have idx: "indexable (net_state ?s)" using assms(3) by simp
  have stop: "r = r1 \<and> u = s2" if "r1 \<noteq> Inr ()"
    using run restore that by (cases r1) (auto simp: restart_def run_first)
  have "\<exists>rest. trace u = trace s2 @ rest"
  proof (cases "r1 = Inr ()")
    case True
    have s2: "orderly (pton_fun E) ?s s2"
      using restore True idx by (intro restore_done_orderly) simp_all
    have "reapply (status s) (jfield (net_state s) ''config'') E s2 = (r, u)"
      using run restore True by (simp add: restart_split run_first)
    then show ?thesis using s2 reapply_orderly by (fastforce simp: orderly_def)
  qed (use stop in auto)
  then show ?thesis
    using restore stop assms(5) unfolding rolls_back_def
    by (intro exI [of _ ?s] exI [of _ r1] exI [of _ s2]) auto
qed


lemma readable_object: "readable pton v \<Longrightarrow> indexable v \<and> v \<noteq> JNull"
  by (cases v) (auto simp: readable_def jfield_def config_from_json_def indexable_def)

lemma start_rolls_back:
  assumes "start_controller E (new_controller True) = (r, u)"
    and "fst (store_get ''network'' E (new_controller True)) = Inr v"
    and "readable pton v" "jfield v ''status'' \<noteq> JString ''inactive''"
  shows "(\<exists>e. r = Inl e) \<and> list_all read_only (trace u) \<or> rolls_back E v r u"
proof -
  obtain s1 where get: "store_get ''network'' E (new_controller True) = (Inr v, s1)"
    using assms(2) by (cases "store_get ''network'' E (new_controller True)") simp
  obtain xs where xs: "trace s1 = xs" "list_all read_only xs" "enabled s1"
    using emitsD [OF store_get_emits get] by (auto simp: same_state_def new_controller_def)
  let ?s1 = "s1\<lparr>net_state := v\<rparr>"
  obtain r2 s2 where lock: "acquire_lock E ?s1 = (r2, s2)" by (cases "acquire_lock E ?s1")
  obtain ys where ys: "trace s2 = trace ?s1 @ ys" "list_all read_only ys" "same_state ?s1 s2"
    using emitsD [OF acquire_lock_emits lock] by blast
  have quiet: "list_all read_only (trace s2)" using xs ys by simp
  have rest: "thenP acquire_lock resume E ?s1 = (r, u)"
    using assms(1) get xs(3)
    by (simp add: start_controller_eq run_first load_state_def thenP_def bindP_def getP_def whenP_def)
  show ?thesis
  proof (cases r2)
    case (Inl e)
    then show ?thesis using rest lock quiet by (auto simp: run_first)
  next
    case (Inr x)
    note v = readable_object [OF assms(3)]
    have s2: "indexable (net_state s2)" "enabled s2" "\<forall>k. jfield (net_state s2) k = jfield v k"
      using ys(3) v xs(3) by (simp_all add: same_state_def)
    then have "net_state s2 \<noteq> JNull" using assms(3) by (auto simp: readable_def config_from_json_def jfield_def)
    moreover have "resume E s2 = (r, u)" using Inr rest lock by (simp add: run_first)
    ultimately have "recover E s2 = (r, u)" by (simp add: resume_eq)
    then have "rolls_back E (net_state s2) r u"
      using s2 assms(4) quiet by (intro recover_rolls_back) simp_all
    then show ?thesis using s2(3) by (simp add: rolls_back_def)
  qed
qed

lemma crash_outcome:
  assumes "life E allow alive s" "trace s = pre @ post" "unsettled pre"
    and "\<forall>v. recorded None pre = Some v \<longrightarrow> parse_json (json_fun E') (c_str (json_text (json_fun E) v)) = Inr v"
    and "pton_fun E' = pton_fun E"
    and "start_controller (on_store (written (json_fun E) db pre) E') (new_controller True) = (r, u)"
  shows "\<exists>v c. recorded None pre = Some v \<and> config_from_json (pton_fun E) (jfield v ''config'') = Inr c \<and>
    ((\<exists>e. r = Inl e) \<and> list_all read_only (trace u) \<or> rolls_back (on_store (written (json_fun E) db pre) E') v r u) \<and>
    (r = Inr () \<longrightarrow> status u \<in> {JString ''inactive'', JString ''confirmed''})"
proof -
  let ?E = "on_store (written (json_fun E) db pre) E'"
  have d: "disciplined (pton_fun E) None pre"
    using life_orderly [OF assms(1)] assms(2) by simp
  then obtain v where v: "recorded None pre = Some v" "readable (pton_fun E) v"
    "jfield v ''status'' \<noteq> JString ''inactive''"
    using unsettled_journal assms(3) by blast
  have in_table: "map_of (settings (written (json_fun E) db pre)) ''network'' = Some (json_text (json_fun E) v)"
    using written_journal [OF d] v(1) by simp
  have "(\<exists>e. r = Inl e) \<and> list_all read_only (trace u) \<or> rolls_back ?E v r u"
  proof (cases "get_reply E' [] ''network''")
    case (Inl m)
    then have "fst (store_get ''network'' ?E (new_controller True)) = Inl (Runtime_error m)"
      by (simp add: get_from_store new_controller_def store_lookup_def refusal_def)
    then obtain s1 where get: "store_get ''network'' ?E (new_controller True) = (Inl (Runtime_error m), s1)"
      by (cases "store_get ''network'' ?E (new_controller True)") simp
    have "list_all read_only (trace s1)"
      using emitsD [OF store_get_emits get] by (auto simp: new_controller_def)
    then show ?thesis using assms(6) get by (auto simp: start_controller_eq run_first)
  next
    case (Inr x)
    then have "fst (store_get ''network'' ?E (new_controller True)) = Inr v"
      using in_table assms(4) v(1)
      by (simp add: get_from_store new_controller_def store_lookup_def refusal_def)
    from start_rolls_back [OF assms(6) this v(2,3)] show ?thesis .
  qed
  moreover have "r = Inr () \<longrightarrow> status u \<in> {JString ''inactive'', JString ''confirmed''}"
    using start_outcome [of ?E u] assms(6) by auto
  ultimately show ?thesis using v(1,2) by (auto simp: readable_iff)
qed

text \<open>
  C3. Crash recovery. Cut the life of a controller off at any event, after changes to the system that no
  completed rollback has undone. The database then holds a journal with a readable configuration, and
  a new controller started on that database refuses to start without having changed anything, or
  begins by rolling that configuration back; if it starts, its status is \<open>inactive\<close> or \<open>confirmed\<close>.
\<close>

theorem crash_recovery:
  assumes "life E allow alive s" "trace s = pre @ post" "unsettled pre"
    and "\<forall>v. recorded None pre = Some v \<longrightarrow> parse_json (json_fun E') (c_str (json_text (json_fun E) v)) = Inr v"
    and "pton_fun E' = pton_fun E"
    and "start_controller (on_store (written (json_fun E) db pre) E') (new_controller True) = (r, u)"
  shows "\<exists>v c. recorded None pre = Some v \<and> config_from_json (pton_fun E) (jfield v ''config'') = Inr c \<and>
    ((\<exists>e. r = Inl e) \<and> list_all read_only (trace u) \<or> rolls_back (on_store (written (json_fun E) db pre) E') v r u) \<and>
    (r = Inr () \<longrightarrow> status u \<in> {JString ''inactive'', JString ''confirmed''})"
  using assms by (rule crash_outcome)


section \<open>Witnesses\<close>

lemma apply_mutation:
  assumes "apply_config c E s = (Inr (), t)" "indexable (net_state s)"
  obtains pre path v ok post where "trace t = trace s @ pre @ Write_file path v ok # post"
proof -
  from assms obtain s1 s2 where run: "install c E s1 = (Inr (), s2)" "extends s s1" "extends s2 t"
  proof (cases rule: apply_cases)
    case (started pre s1)
    from started(9,7) show ?thesis
    proof (cases rule: started_cases)
      case (waiting s2 evs \<tau>)
      then show ?thesis using that started(4) by (auto simp: extends_def)
    qed auto
  qed auto
  then show ?thesis
    using that install_first_write [OF run(1)] logged_extends [OF run(2) _ run(3)] logged_split by meson
qed

lemma busy_life:
  obtains t pre path v ok post where "life calm True True t" "trace t = pre @ Write_file path v ok # post"
proof -
  obtain t0 where t0: "start_controller calm (new_controller True) = (Inr (), t0)" using calm_start .
  have alive: "life calm True True t0" using born [OF t0] by simp
  have "in_order (pton_fun calm) t0" "enabled t0" using start_orderly [OF t0] by simp_all
  then have idx: "indexable (net_state t0)" "enabled t0" by (simp_all add: in_order_def)
  have "status t0 = JString ''inactive''"
    using start_outcome [OF t0] calm_store_get by (auto simp: demo_journal_def jfield_def)
  then obtain t where t: "apply_config plain_config calm t0 = (Inr (), t)"
    using calm_applies [of t0] idx by blast
  have "life calm True True t"
    using operates [where m = "apply_config plain_config", OF alive _ t] by (auto simp: operation_def)
  moreover obtain pre path v ok post where "trace t = trace t0 @ pre @ Write_file path v ok # post"
    using apply_mutation [OF t idx(1)] .
  ultimately show ?thesis using that [of t "trace t0 @ pre"] by simp
qed

theorem changes_only_while_journaled_witness:
  "\<exists>t pre e post v. life calm True True t \<and> trace t = pre @ e # post \<and> mutates e \<and>
     recorded None pre = Some v \<and> jfield v ''status'' \<in> {JString ''applying'', JString ''rolling_back''}"
proof -
  obtain t pre path x ok post where t: "life calm True True t" "trace t = pre @ Write_file path x ok # post"
    using busy_life .
  from changes_only_while_journaled [OF t mutates_write] t show ?thesis using mutates_write by blast
qed

theorem controller_state_well_formed_witness:
  "\<exists>t. life calm True True t \<and> trace t \<noteq> [] \<and> well_formed dotted_quad t"
proof -
  obtain t pre path x ok post where t: "life calm True True t" "trace t = pre @ Write_file path x ok # post"
    using busy_life .
  from controller_state_well_formed [OF t(1)] t show ?thesis by (intro exI [of _ t]) simp
qed

text \<open>A JSON library that reads every text as one value.\<close>

definition constant_reader :: "json \<Rightarrow> env" where
  "constant_reader v = calm\<lparr>json_fun := (json_fun calm)\<lparr>read_json := (\<lambda>_. Inr v)\<rparr>\<rparr>"

theorem crash_recovery_witness:
  "\<exists>t pre post v r u. life calm True True t \<and> trace t = pre @ post \<and> unsettled pre \<and>
     recorded None pre = Some v \<and>
     start_controller (on_store (written (json_fun calm) empty_store pre) (constant_reader v)) (new_controller True) =
       (r, u) \<and>
     ((\<exists>e. r = Inl e) \<and> list_all read_only (trace u) \<or>
      rolls_back (on_store (written (json_fun calm) empty_store pre) (constant_reader v)) v r u)"
proof -
  obtain t pre path x ok post where t: "life calm True True t" "trace t = pre @ Write_file path x ok # post"
    using busy_life .
  let ?pre = "pre @ [Write_file path x ok]"
  have cut: "trace t = ?pre @ post" using t(2) by simp
  have un: "unsettled ?pre" by (simp add: unsettled_def mutates_def)
  obtain v where v: "recorded None ?pre = Some v"
    using change_journaled [OF t mutates_write] by auto
  have reads: "\<forall>w. recorded None ?pre = Some w \<longrightarrow>
      parse_json (json_fun (constant_reader v)) (c_str (json_text (json_fun calm) w)) = Inr w"
    using v by (simp add: constant_reader_def parse_json_def)
  have pton: "pton_fun (constant_reader v) = pton_fun calm" by (simp add: constant_reader_def)
  obtain r u where ru: "start_controller (on_store (written (json_fun calm) empty_store ?pre) (constant_reader v))
      (new_controller True) = (r, u)" by fastforce
  from crash_recovery [OF t(1) cut un reads pton ru] show ?thesis
    using t(1) cut un v ru by (intro exI [of _ t] exI [of _ ?pre] exI [of _ post] exI [of _ v]) auto
qed

end
