(* ===== verification/Appliance.thy ===== *)
theory Appliance
  imports Dataflow Crash
begin

text \<open>
  The appliance as one process: the event loops submit requests, the worker runs them with its ticks and
  samples, in any interleaving, from the start of the process to its end. The interface
  \<open>runtime_invariant\<close> asks what every operation of the runtime keeps, and proves once that every reachable
  state of the process then has it. Here it is interpreted for the controller: that of a process is always
  one that its own operations have produced, so the journal discipline of theory Journal holds of the
  process, and a stop ends it in order. Theories Resume and Resource_Limits hold further interpretations.
\<close>

section \<open>Programs that keep a property of the runtime\<close>

definition keeps :: "rt_env \<Rightarrow> (runtime \<Rightarrow> bool) \<Rightarrow> 'a rt_prog \<Rightarrow> bool" where
  "keeps E I m \<longleftrightarrow> (\<forall>s. I s \<longrightarrow> I (snd (m E s)))"

named_theorems keeps_rules

lemma keepsD: "keeps E I m \<Longrightarrow> m E s = (r, t) \<Longrightarrow> I s \<Longrightarrow> I t"
  unfolding keeps_def by (metis snd_conv)

lemma keepsI: "(\<And>s r t. m E s = (r, t) \<Longrightarrow> I s \<Longrightarrow> I t) \<Longrightarrow> keeps E I m"
  unfolding keeps_def by (metis prod.collapse)

lemma keeps_pure [keeps_rules]:
  "keeps E I (returnP x)" "keeps E I (throwP e)" "keeps E I (liftP r)" "keeps E I (throw_if b e)"
  "keeps E I (no_error m)"
  by (simp_all add: keeps_def returnP_def throwP_def liftP_def throw_if_def no_error_def split: option.splits)

lemma keeps_bind [keeps_rules]:
  "keeps E I m \<Longrightarrow> (\<And>x. keeps E I (f x)) \<Longrightarrow> keeps E I (bindP m f)"
  unfolding keeps_def bindP_def by (fastforce split: prod.splits sum.splits)

lemma keeps_then [keeps_rules]: "keeps E I m \<Longrightarrow> keeps E I n \<Longrightarrow> keeps E I (thenP m n)"
  by (simp add: thenP_def keeps_bind)

lemma keeps_catch [keeps_rules]:
  "keeps E I m \<Longrightarrow> (\<And>e. keeps E I (h e)) \<Longrightarrow> keeps E I (catchP m h)"
  unfolding keeps_def catchP_def by (fastforce split: prod.splits sum.splits)

lemma keeps_env [keeps_rules]: "keeps E I (f E) \<Longrightarrow> keeps E I (askP f)"
  by (simp add: keeps_def askP_def)

lemma keeps_get [keeps_rules]: "(\<And>s. keeps E I (f s)) \<Longrightarrow> keeps E I (getP f)"
  by (simp add: keeps_def getP_def)

lemma keeps_when [keeps_rules]: "keeps E I m \<Longrightarrow> keeps E I (whenP b m)"
  by (simp add: whenP_def keeps_pure)

lemma keeps_if [keeps_rules]: "keeps E I m \<Longrightarrow> keeps E I n \<Longrightarrow> keeps E I (if b then m else n)"
  by simp

lemma keeps_modifyP: "(\<And>s. I s \<Longrightarrow> I (f s)) \<Longrightarrow> keeps E I (modifyP f)"
  by (simp add: keeps_def modifyP_def)

lemma keeps_frames: "frames R m \<Longrightarrow> (\<And>s t. R s t \<Longrightarrow> I s \<Longrightarrow> I t) \<Longrightarrow> keeps E I m"
  by (auto simp: keeps_def frames_def)

section \<open>Interface\<close>

text \<open>Tasks of the queue, and the one the worker holds.\<close>

definition tasks_keep :: "rt_env \<Rightarrow> (runtime \<Rightarrow> bool) \<Rightarrow> control \<Rightarrow> bool" where
  "tasks_keep E I c \<longleftrightarrow> (\<forall>t \<in> set (tasks c). keeps E I (snd t)) \<and>
     (\<forall>t. worker_at c = Holding (Some t) \<longrightarrow> keeps E I (snd t))"

locale runtime_invariant =
  fixes E :: rt_env and I :: "runtime \<Rightarrow> bool"
  assumes log: "I s \<Longrightarrow> I (s\<lparr>calls := h\<rparr>)"
    and failure: "I s \<Longrightarrow> I (s\<lparr>capture_failure := message\<rparr>)"
    and operations: "operation m \<Longrightarrow> keeps E I (on_net m)"
    and reports: "report \<in> {state_json, interfaces} \<Longrightarrow> keeps E I (on_net report)"
    and samples: "keeps E I (sample force)"
    and starts: "keeps E I (start_capture name)"
    and stops: "keeps E I stop_capture"
begin

lemma asking [keeps_rules]:
  "keeps E I (callP ask ev)"
  "(\<And>F h db. snd (opn F h db) = db) \<Longrightarrow> keeps E I (storeP opn ev')"
proof -
  show "keeps E I (callP ask ev)" by (simp add: keeps_def callP_def Let_def log)
  assume db: "\<And>F h db. snd (opn F h db) = db"
  have "snd (storeP opn ev' E s) = s\<lparr>calls := calls s @ [ev' (fst (opn E (calls s) (database s)))]\<rparr>" for s
    using db [of E "calls s" "database s"]
    by (cases "opn E (calls s) (database s)") (simp add: storeP_def)
  then show "keeps E I (storeP opn ev')" by (simp add: keeps_def log)
qed

lemma controller [keeps_rules]:
  "keeps E I (on_net state_json)" "keeps E I (on_net interfaces)" "keeps E I (on_net tick)"
  "keeps E I (on_net confirm)" "keeps E I (on_net rollback)" "keeps E I (on_net (apply_config c))"
  by (rule reports operations; auto simp: operation_def)+

lemma snapshots [keeps_rules]: "keeps E I snapshot_json"
  unfolding snapshot_json_def engine_snapshot_def Let_def by (intro keeps_rules)

lemma requests: "keeps E I (request r)"
  unfolding request_def status_json_def validate_request_def body_config_def body_json_def capture_request_def
    history_request_def ask_history_def now_seconds_def store_connections_def Let_def
  by (intro keeps_rules starts stops) simp_all

lemma round:
  assumes "worker_round E t c = Some c'" "I (app c)" "\<And>i m. t = Some (i, m) \<Longrightarrow> keeps E I m"
  shows "I (app c')"
proof -
  have caught: "I (app d')" if "run_caught E m h d = Some d'" "I (app d)" "keeps E I m" "\<And>e. keeps E I (h e)"
    for m h d d'
    using that keepsD [OF keeps_catch [OF that(3,4)]]
    by (auto simp: run_caught_def split: prod.splits sum.splits)
  obtain c1 c2 where c: "run_tick E c = Some c1" "run_task E t c1 = Some c2" "run_sample E c2 = Some c'"
    using assms(1) by (auto simp: worker_round_def bind_eq_Some_conv)
  have "I (app c1)"
    by (rule caught [OF c(1) [unfolded run_tick_def] assms(2)]) (rule keeps_rules)+
  then have "I (app c2)"
    using c(2) assms(3) keepsD
    by (fastforce simp: run_task_def reply_def split: option.splits prod.splits)
  moreover have "keeps E I (modifyP (\<lambda>s. s\<lparr>capture_failure := what e\<rparr>))" for e
    by (rule keeps_modifyP) (rule failure)
  ultimately show ?thesis
    using caught [OF c(3) [unfolded run_sample_def]] samples by blast
qed

lemma leaving: "worker_exit E c = Some c' \<Longrightarrow> I (app c) \<Longrightarrow> I (app c')"
proof -
  assume run: "worker_exit E c = Some c'" and I: "I (app c)"
  let ?s1 = "snd (getP (\<lambda>s. whenP (has_engine s) engine_stop) E (app c))"
  let ?s2 = "snd (ignoring (sample True) E ?s1)"
  have "keeps E I (getP (\<lambda>s. whenP (has_engine s) engine_stop))"
    unfolding engine_stop_def by (intro keeps_rules)
  then have "I ?s1" using I by (simp add: keeps_def)
  then have s2: "I ?s2" using samples by (simp add: keeps_def ignoring_def)
  have "keeps E I shutdown_rollback"
    unfolding shutdown_rollback_def by (intro keeps_rules)
  then have caught: "keeps E I (catchP shutdown_rollback (\<lambda>_. returnP ()))" by (intro keeps_rules)
  obtain d where "run_caught E shutdown_rollback (\<lambda>_. returnP ()) (c\<lparr>app := ?s2\<rparr>) = Some d" "c' = d\<lparr>tasks := []\<rparr>"
    using run by (auto simp: worker_exit_def Let_def)
  then show ?thesis
    using keepsD [OF caught] s2 by (auto simp: run_caught_def split: prod.splits sum.splits)
qed

lemma step:
  assumes "control_step E token c c'" "I (app c)" "tasks_keep E I c"
  shows "I (app c') \<and> tasks_keep E I c'"
  using assms
proof (cases rule: control_step.cases)
  case (step_http r)
  then show ?thesis
    using assms(2,3) requests [of r]
    by (auto simp: gateway_def submit_def reply_def tasks_keep_def Let_def)
next
  case step_live
  then show ?thesis
    using assms(2,3) snapshots by (auto simp: submit_def reply_def tasks_keep_def Let_def)
next
  case (step_round t c2)
  have "tasks c2 = tasks c"
    using worker_round_keeps [OF step_round(3)] by (elim exE conjE) (drule arg_cong [where f = tasks], simp)
  moreover have "I (app c2)"
    using round [OF step_round(3) assms(2)] assms(3) step_round(2) by (auto simp: tasks_keep_def)
  ultimately show ?thesis using assms(3) step_round(1) by (simp add: tasks_keep_def)
next
  case (step_exit c2)
  then show ?thesis
    using leaving [OF step_exit(3) assms(2)] worker_exit_keeps [OF step_exit(3)]
    by (auto simp: tasks_keep_def)
qed (auto simp: tasks_keep_def)

lemma reachable: "control_reachable E token s c \<Longrightarrow> I s \<Longrightarrow> I (app c) \<and> tasks_keep E I c"
proof (induction rule: control_reachable.induct)
  case reach_start
  then show ?case by (simp add: start_control_def tasks_keep_def)
next
  case (reach_step c c')
  then show ?case using step by blast
qed

end

section \<open>The controller of a running process\<close>

lemma keeps_net: "frames same_net m \<Longrightarrow> keeps E (\<lambda>s. P (net s)) m"
  by (erule keeps_frames) (simp add: same_net_def)

lemma keeps_on_net: "(\<And>n r n'. m (net_env E) n = (r, n') \<Longrightarrow> P n \<Longrightarrow> P n') \<Longrightarrow> keeps E (\<lambda>s. P (net s)) (on_net m)"
  by (rule keepsI) (auto simp: on_net_def split: prod.splits)

lemma stop_capture_away: "frames same_net stop_capture"
  unfolding stop_capture_def stop_and_sample_def engine_stop_def save_setting_def run_steps.simps
  by (intro away.rules frames_callP_net frames_storeP_net frames_modifyP sample_away) (simp_all add: same_net_def)

interpretation living: runtime_invariant E "\<lambda>s. life (net_env E) allow True (net s)" for E allow
proof unfold_locales
  show "keeps E (\<lambda>s. life (net_env E) allow True (net s)) (on_net m)" if "operation m" for m
    by (rule keeps_on_net) (rule operates [OF _ that])
  show "keeps E (\<lambda>s. life (net_env E) allow True (net s)) (on_net report)" if "report \<in> {state_json, interfaces}" for report
    by (rule keeps_on_net) (rule reports [OF _ that])
qed (simp_all add: keeps_net sample_away capture_away stop_capture_away)

lemma appliance_life:
  assumes "run_appliance H E opts = Inr (token, c0)" "control_reachable E token (app c0) c"
  shows "life (net_env E) (opt_allow_network opts) True (net (app c))"
proof -
  obtain db where "start_runtime opts E (new_runtime (opt_allow_network opts) db (steady_reply E [])) = (Inr (), app c0)"
    using run_appliance_Inr [OF assms(1)] .
  from start_runtime_Inr [OF this]
  have "start_controller (net_env E) (new_controller (opt_allow_network opts)) = (Inr (), net (app c0))"
    by (simp add: new_runtime_def)
  from born [OF this] have "life (net_env E) (opt_allow_network opts) True (net (app c0))" by simp
  with living.reachable [OF assms(2)] show ?thesis by blast
qed

text \<open>Without the permission nothing is changed, from the start on.\<close>

lemma start_inert:
  assumes "start_controller E (new_controller False) = (r, t)"
  shows "list_all read_only (trace t)"
proof -
  obtain r1 s1 where get: "store_get ''network'' E (new_controller False) = (r1, s1)"
    by (cases "store_get ''network'' E (new_controller False)")
  have s1: "list_all read_only (trace s1)" "\<not> enabled s1"
    using emitsD [OF store_get_emits get] by (auto simp: same_state_def new_controller_def)
  show ?thesis
  proof (cases r1)
    case (Inl e)
    then show ?thesis using assms get s1 by (auto simp: start_controller_eq run_first)
  next
    case (Inr v)
    let ?s1 = "s1\<lparr>net_state := v\<rparr>"
    have "resume E ?s1 = (r, t)"
      using assms get Inr s1(2)
      by (simp add: start_controller_eq run_first load_state_def thenP_def bindP_def getP_def whenP_def returnP_def)
    moreover have "list_all read_only (trace u)" if u: "recover E s = (r, u)" "trace s = trace s1" "\<not> enabled s" for s u
    proof (cases "indexable (net_state s)")
      case True
      then show ?thesis using u s1 by (auto simp: recover_eq)
    next
      case False
      then show ?thesis using u s1 by (auto simp: recover_def bindP_def state_at_def)
    qed
    ultimately show ?thesis using s1 by (auto simp: resume_eq split: if_splits)
  qed
qed

lemma life_inert: "life E False alive s \<Longrightarrow> list_all read_only (trace s) \<and> \<not> enabled s"
proof (induction rule: life.induct)
  case (born r s)
  then show ?case using start_inert start_orderly by blast
next
  case (operates s m r t)
  then have "\<not> enabled s" by simp
  then have "snd (confirm E s) = s" "snd (rollback E s) = s" "snd (tick E s) = s" "snd (apply_config c E s) = s" for c
    using disabled_controller_inert [of s c E] by auto
  then have "snd (m E s) = s" using operates.hyps(2) by (auto simp: operation_def)
  then have "t = s" using operates.hyps(3) by simp
  then show ?case using operates.IH by simp
next
  case (reports s m r t)
  have "emits read_only m" using reports.hyps(2) emits_state_json emits_interfaces by blast
  with reports.hyps(3) obtain evs where "trace t = trace s @ evs" "list_all read_only evs" "same_state s t"
    using emitsD by blast
  then show ?case using reports.IH by (simp add: same_state_def)
qed

text \<open>
  C4. The whole process obeys its command line. Take an appliance that has started, and any state that any
  interleaving of requests, live messages, timer rounds, samples and a stop can bring it to. Without
  \<open>--allow-network\<close> it has done nothing to the system but read. With it, the controller's state is well
  formed, and every change of the system was made while the last journal write said \<open>applying\<close> or
  \<open>rolling_back\<close> and held a configuration that can be read back.
\<close>

theorem appliance_obeys_options:
  assumes "main_program H E args = Inr (token, c0)" "control_reachable E token (app c0) c"
  shows "\<exists>opts. parse_args args default_options = Run opts \<and>
    (if opt_allow_network opts then
       well_formed (pton_fun (net_env E)) (net (app c)) \<and>
       (\<forall>pre e post. trace (net (app c)) = pre @ e # post \<and> mutates e \<longrightarrow>
          (\<exists>v config. recorded None pre = Some v \<and>
             jfield v ''status'' \<in> {JString ''applying'', JString ''rolling_back''} \<and>
             config_from_json (pton_fun (net_env E)) (jfield v ''config'') = Inr config))
     else list_all read_only (trace (net (app c))))"
proof -
  obtain opts where opts: "parse_args args default_options = Run opts" "run_appliance H E opts = Inr (token, c0)"
    using assms(1) by (auto simp: main_program_def split: cli.splits sum.splits)
  note life = appliance_life [OF opts(2) assms(2)]
  show ?thesis
  proof (cases "opt_allow_network opts")
    case True
    with life have alive: "life (net_env E) True True (net (app c))" by simp
    show ?thesis using opts(1) True life_well_formed [OF alive] change_journaled [OF alive] by simp
  next
    case False
    with life have "life (net_env E) False True (net (app c))" by simp
    from life_inert [OF this] show ?thesis using opts(1) False by simp
  qed
qed

section \<open>The end of the process\<close>

lemma reachable_steps:
  "control_reachable E token s c \<Longrightarrow> own_steps E n c = Some c' \<Longrightarrow> control_reachable E token s c'"
proof (induction n arbitrary: c)
  case (Suc n)
  then obtain d where d: "own_step E c = Some d" "own_steps E n d = Some c'" by (auto simp: bind_eq_Some_conv)
  from Suc.IH [OF reach_step [OF Suc.prems(1) own_step_is_step [OF d(1)]] d(2)] show ?case .
qed simp

text \<open>What the worker still has to do after a stop: its round, the test, the exit.\<close>

fun steps_to_end :: "control \<Rightarrow> nat" where
  "steps_to_end c = (case worker_at c of
     Taking \<Rightarrow> 4 | Holding _ \<Rightarrow> 3 | Testing \<Rightarrow> 2 | Leaving \<Rightarrow> 1 | Finished \<Rightarrow> 0)"

lemma own_step_progress:
  assumes "tasks_ok c" "stopping c" "worker_at c \<noteq> Finished"
  obtains c' where "own_step E c = Some c'" "stopping c'" "steps_to_end c = Suc (steps_to_end c')"
proof (cases "worker_at c")
  case Taking
  with assms that show ?thesis by (cases "tasks c") (simp_all add: own_step_def)
next
  case (Holding t)
  have "\<exists>c'. worker_round E t c = Some c'"
    by (rule worker_round_some) (use assms(1) Holding in \<open>auto simp: tasks_ok_def own_task_def\<close>)
  then obtain c' where c': "worker_round E t c = Some c'" ..
  have "stopping c' = stopping c"
    using worker_round_keeps [OF c'] by (elim exE conjE) (drule arg_cong [where f = stopping], simp)
  with assms that c' Holding show ?thesis by (simp add: own_step_def)
next
  case Leaving
  obtain c' where c': "worker_exit E c = Some c'" using worker_exit_some by blast
  then have "stopping c' = stopping c" by (auto dest!: worker_exit_keeps)
  with assms that c' Leaving show ?thesis by (simp add: own_step_def)
qed (use assms that in \<open>simp_all add: own_step_def\<close>)

lemma worker_ends:
  assumes "tasks_ok c" "stopping c"
  shows "\<exists>c'. own_steps E (steps_to_end c) c = Some c' \<and> worker_at c' = Finished"
  using assms
proof (induction "steps_to_end c" arbitrary: c)
  case 0
  then have "worker_at c = Finished" by (simp split: worker_at.splits)
  then show ?case using 0 by auto
next
  case (Suc n)
  then have "worker_at c \<noteq> Finished" by auto
  with Suc.prems obtain d where d: "own_step E c = Some d" "stopping d" "steps_to_end c = Suc (steps_to_end d)"
    by (rule own_step_progress)
  have "tasks_ok d" using tasks_ok_step [OF own_step_is_step [OF d(1)] Suc.prems(1)] .
  then obtain c' where "own_steps E (steps_to_end d) d = Some c'" "worker_at c' = Finished"
    using Suc.hyps d(2,3) by auto
  then show ?case using d(1) by (intro exI [of _ c']) (simp add: d(3) del: steps_to_end.simps)
qed

text \<open>The last statements of the worker leave nothing waiting, in a controller that is in order.\<close>

lemma exit_settles:
  assumes "worker_exit E c = Some c'" "enabled (net (app c))" "in_order (pton_fun (net_env E)) (net (app c))"
  shows "tasks c' = [] \<and> status (net (app c')) \<noteq> JString ''awaiting_confirmation''"
proof (cases "status (net (app c)) = JString ''awaiting_confirmation''")
  case True
  then obtain config where "config_from_json (pton_fun (net_env E)) (jfield (net_state (net (app c))) ''config'') = Inr config"
    using assms(2,3) by (auto simp: in_order_def readable_iff)
  from shutdown_outcome [OF assms(1,2) _ this] assms(3) True show ?thesis by (auto simp: in_order_def)
next
  case False
  obtain s r t where s: "net s = net (app c)" "shutdown_rollback E s = (r, t)" "c' = c\<lparr>app := t, tasks := []\<rparr>"
    using worker_exit_split [OF assms(1)] .
  obtain n where n: "same_state (net s) n" "shutdown_rollback E s = (Inr (), s\<lparr>net := n\<rparr>)"
    using shutdown_rollback_run [of s E] False s(1) assms(3) by (auto simp: in_order_def)
  then have "status (net t) = status (net s)" using s(2) status_of_same by auto
  then show ?thesis using s False by simp
qed

lemma finished_settled:
  assumes "control_reachable E token (app c0) c" "run_appliance H E opts = Inr (token, c0)" "opt_allow_network opts"
    and "worker_at c = Finished"
  shows "status (net (app c)) \<noteq> JString ''awaiting_confirmation''"
  using assms
proof (induction rule: control_reachable.induct)
  case reach_start
  then show ?case by (simp add: start_control_def)
next
  case (reach_step c c')
  note life = appliance_life [OF reach_step.prems(1) reach_step.hyps(1), unfolded eqTrueI [OF reach_step.prems(2)]]
  have alive: "enabled (net (app c))" "in_order (pton_fun (net_env E)) (net (app c))"
    using life_enabled [OF life] life_orderly [OF life] by simp_all
  from reach_step.hyps(2) show ?case
  proof (cases rule: control_step.cases)
    case (step_exit d)
    then show ?thesis using exit_settles [OF step_exit(3) alive] by simp
  qed (use reach_step.IH reach_step.prems in \<open>auto simp: gateway_def submit_def reply_def Let_def split: if_splits\<close>)
qed

lemma ended_empty:
  "own_steps E n c = Some c' \<Longrightarrow> worker_at c \<noteq> Finished \<Longrightarrow> worker_at c' = Finished \<Longrightarrow> tasks c' = []"
proof (induction n arbitrary: c)
  case (Suc n)
  then obtain d where d: "own_step E c = Some d" "own_steps E n d = Some c'" by (auto simp: bind_eq_Some_conv)
  show ?case
  proof (cases "worker_at d = Finished")
    case True
    then have "c' = d" using d(2) by (cases n) (simp_all add: own_step_def)
    moreover have "tasks d = []"
      using d(1) True
      by (auto simp: own_step_def dest!: worker_exit_keeps split: worker_at.splits list.splits if_splits)
    ultimately show ?thesis by simp
  next
    case False
    then show ?thesis using Suc.IH [OF d(2)] Suc.prems(3) by blast
  qed
qed simp

text \<open>
  C16. A stop ends the process in order. From every state a started appliance can reach, once a stop is
  requested the worker ends within four of its own steps, whatever the system answers. It has dropped
  the requests still queued; and with \<open>--allow-network\<close> no configuration is left waiting for
  confirmation.
\<close>

theorem appliance_shuts_down:
  assumes "run_appliance H E opts = Inr (token, c0)" "control_reachable E token (app c0) c" "stopping c"
  shows "\<exists>n c'. n \<le> 4 \<and> own_steps E n c = Some c' \<and> worker_at c' = Finished \<and>
    (worker_at c \<noteq> Finished \<longrightarrow> tasks c' = []) \<and>
    (opt_allow_network opts \<longrightarrow> status (net (app c')) \<noteq> JString ''awaiting_confirmation'')"
proof -
  obtain c' where c': "own_steps E (steps_to_end c) c = Some c'" "worker_at c' = Finished"
    using worker_ends [OF reachable_tasks_ok [OF assms(2)] assms(3)] by blast
  have "steps_to_end c \<le> 4" by (simp split: worker_at.splits)
  moreover have "control_reachable E token (app c0) c'" by (rule reachable_steps [OF assms(2) c'(1)])
  then have "opt_allow_network opts \<longrightarrow> status (net (app c')) \<noteq> JString ''awaiting_confirmation''"
    using finished_settled assms(1) c'(2) by blast
  moreover have "worker_at c \<noteq> Finished \<longrightarrow> tasks c' = []" using ended_empty [OF c'(1)] c'(2) by blast
  ultimately show ?thesis using c' by blast
qed

section \<open>Witnesses\<close>

lemma demo_appliance:
  obtains t where "run_appliance demo_host calm_app (default_options\<lparr>opt_token_file := ''t'', opt_allow_network := True\<rparr>) =
    Inr (demo_token, start_control t)"
proof -
  let ?o = "default_options\<lparr>opt_token_file := ''t'', opt_allow_network := True\<rparr>"
  obtain t where "start_runtime ?o calm_app (new_runtime True empty_store 0) = (Inr (), t)"
    using demo_start [of ?o 0] by (auto simp: default_options_def)
  moreover have "steady_reply calm_app [] = 0" by (simp add: calm_app_def)
  ultimately show ?thesis using that by (simp add: run_appliance_def demo_check demo_open)
qed

theorem appliance_obeys_options_witness:
  "\<exists>c0 c. main_program demo_host calm_app demo_args = Inr (demo_token, c0) \<and>
     control_reachable calm_app demo_token (app c0) c \<and> stopping c \<and>
     well_formed (pton_fun (net_env calm_app)) (net (app c))"
proof -
  obtain t where "run_appliance demo_host calm_app (default_options\<lparr>opt_token_file := ''t'', opt_allow_network := True\<rparr>) =
      Inr (demo_token, start_control t)"
    using demo_appliance .
  then have run: "main_program demo_host calm_app demo_args = Inr (demo_token, start_control t)"
    by (simp add: main_program_def demo_parse)
  let ?c = "(start_control t)\<lparr>stopping := True\<rparr>"
  have t: "app (start_control t) = t" by (simp add: start_control_def)
  have reach: "control_reachable calm_app demo_token (app (start_control t)) ?c"
    unfolding t by (rule reach_step [OF reach_start step_stop])
  from appliance_obeys_options [OF run reach]
  have "well_formed (pton_fun (net_env calm_app)) (net (app ?c))" by (simp add: demo_parse)
  then show ?thesis using run reach by (intro exI [of _ "start_control t"] exI [of _ ?c]) simp
qed

theorem appliance_shuts_down_witness:
  "\<exists>c0 c (c' :: control). run_appliance demo_host calm_app (default_options\<lparr>opt_token_file := ''t'', opt_allow_network := True\<rparr>) =
      Inr (demo_token, c0) \<and> control_reachable calm_app demo_token (app c0) c \<and> stopping c \<and>
     worker_at c' = Finished \<and> tasks c' = [] \<and> status (net (app c')) \<noteq> JString ''awaiting_confirmation''"
proof -
  obtain t where run: "run_appliance demo_host calm_app (default_options\<lparr>opt_token_file := ''t'', opt_allow_network := True\<rparr>) =
      Inr (demo_token, start_control t)"
    using demo_appliance .
  let ?c = "(start_control t)\<lparr>stopping := True\<rparr>"
  have "app (start_control t) = t" by (simp add: start_control_def)
  then have reach: "control_reachable calm_app demo_token (app (start_control t)) ?c"
    using reach_step [OF reach_start step_stop] by simp
  have c: "worker_at ?c = Testing" "stopping ?c" by (simp_all add: start_control_def)
  then have "worker_at ?c \<noteq> Finished" by simp
  with appliance_shuts_down [OF run reach c(2)] obtain c' :: control where "worker_at c' = Finished" "tasks c' = []"
    "opt_allow_network (default_options\<lparr>opt_token_file := ''t'', opt_allow_network := True\<rparr>) \<longrightarrow>
       status (net (app c')) \<noteq> JString ''awaiting_confirmation''"
    by blast
  then show ?thesis
    using run reach by (intro exI [of _ "start_control t"] exI [of _ ?c] exI [of _ c']) simp
qed

end
