(* ===== verification/Resource_Limits.thy ===== *)
theory Resource_Limits
  imports Appliance
begin

text \<open>
  What a running appliance can hold at most: an interpretation of \<open>runtime_invariant\<close> for the sizes of the
  aggregates in memory and of the stored connections. The caps of \<open>sample\<close>, \<open>record_flows\<close> and \<open>submit\<close> are
  enough for every traffic, every order of requests and every answer of the database.
\<close>

section \<open>Aggregates\<close>

definition protocol_names :: "string list" where
  "protocol_names = [''other'', ''tcp'', ''udp'', ''icmp'']"

definition capped :: "aggregates \<Rightarrow> bool" where
  "capped a \<longleftrightarrow> keys_ordered (flows a) \<and> length (flows a) \<le> max_flows \<and>
     keys_ordered (talkers a) \<and> length (talkers a) \<le> max_talkers \<and>
     keys_ordered (protocols a) \<and> fst ` set (protocols a) \<subseteq> set protocol_names"

lemma capped_none [simp]: "capped no_aggregates" "capped (reset_aggregates a)"
  by (simp_all add: capped_def no_aggregates_def reset_aggregates_def)

lemma capped_recent [simp]: "capped (a\<lparr>recent := r\<rparr>) = capped a"
  by (simp add: capped_def)

lemma protocol_name_known: "protocol_name p \<in> set protocol_names"
  by (cases p) (simp_all add: protocol_names_def)

lemma keys_upd_member: "fst ` set (upd_member k v m) \<subseteq> insert k (fst ` set m)"
proof -
  have "dom (map_of (upd_member k v m)) = insert k (dom (map_of m))"
    by (simp add: omap.lookup_put)
  then show ?thesis unfolding dom_map_of_conv_image_fst by simp
qed

lemma capped_protocols: "capped a \<Longrightarrow> length (protocols a) \<le> 4"
proof -
  assume a: "capped a"
  then have "distinct (map fst (protocols a))" by (simp add: capped_def keys_ordered_distinct)
  from distinct_card [OF this] have "length (protocols a) = card (fst ` set (protocols a))" by simp
  also have "\<dots> \<le> card (set protocol_names)"
    using a by (intro card_mono) (simp_all add: capped_def)
  also have "\<dots> \<le> 4" by (rule order.trans [OF card_length]) (simp add: protocol_names_def)
  finally show ?thesis .
qed

lemma capped_flow:
  assumes "count_flow L iface p j a = Inr b" "capped a"
  shows "capped b"
proof -
  obtain key where "flow_key L iface p j = Inr key" using assms(1) by (auto simp: count_flow_def ebind_Inr_iff)
  then consider (kept) flow where "b = a\<lparr>flows := upd_member key flow (flows a)\<rparr>"
      "map_of (flows a) key \<noteq> None \<or> length (flows a) < max_flows"
    | (omitted) "b = a\<lparr>flows_omitted := flows_omitted a + 1\<rparr>"
    using assms(1) unfolding count_flow_def by (simp add: ebind_Inr_iff split: if_splits) blast+
  then show ?thesis
  proof cases
    case kept
    then have "length (upd_member key flow (flows a)) \<le> max_flows" "keys_ordered (upd_member key flow (flows a))"
      using assms(2) flow_map.capped_put [of "flows a" key flow] keys_ordered_upd_member [of "flows a" key flow]
      by (auto simp: capped_def)
    then show ?thesis using kept(1) assms(2) by (simp add: capped_def)
  qed (use assms(2) in \<open>simp add: capped_def\<close>)
qed

lemma capped_talker: "capped a \<Longrightarrow> capped (count_talker p a)"
  using talker_map.capped_put [of "talkers a" "source_ip p"]
  by (simp add: count_talker_def capped_def bump_def keys_ordered_upd_member)

lemma capped_protocol:
  assumes "capped a"
  shows "capped (a\<lparr>protocols := bump (protocol_name q) n (protocols a)\<rparr>)"
proof -
  have "fst ` set (bump (protocol_name q) n (protocols a)) \<subseteq> set protocol_names"
    unfolding bump_def
    by (rule subset_trans [OF keys_upd_member]) (use assms in \<open>simp add: capped_def protocol_name_known\<close>)
  then show ?thesis using assms by (simp add: capped_def bump_def keys_ordered_upd_member)
qed

lemma capped_packet:
  assumes "add_packet L iface p a = Inr b" "capped a"
  shows "capped b"
proof -
  let ?first = "if source_ip p \<noteq> [] then count_flow L iface p (packet_json p) a else Inr a"
  let ?counted = "\<lambda>a1. a1\<lparr>protocols := bump (protocol_name (protocol p)) 1 (protocols a1)\<rparr>"
  obtain a1 where a1: "?first = Inr a1"
    "b = (let a3 = (if source_ip p \<noteq> [] then count_talker p (?counted a1) else ?counted a1)
      in a3\<lparr>recent := recent a3 @ [packet_json p]\<rparr>)"
    using assms(1) unfolding add_packet_def by (cases ?first) (simp_all add: Let_def)
  have "capped a1" using a1(1) assms(2) capped_flow by (cases "source_ip p = []") auto
  from capped_protocol [OF this] show ?thesis
    unfolding a1(2) Let_def by (simp add: capped_talker)
qed

lemma capped_packets: "add_packets L iface ps a = Inr b \<Longrightarrow> capped a \<Longrightarrow> capped b"
proof (induction ps arbitrary: a)
  case (Cons p ps)
  then show ?case using capped_packet by (auto simp: exn_simps)
qed simp

section \<open>Stored connections\<close>

definition stored_ok :: "store \<Rightarrow> bool" where
  "stored_ok db \<longleftrightarrow> unique_keys (flow_table db) \<and> length (flow_table db) \<le> max_stored_flows"

lemma stored_settings [simp]: "stored_ok (db\<lparr>settings := x\<rparr>) = stored_ok db"
  by (simp add: stored_ok_def)

lemma stored_sample: "stored_ok db \<Longrightarrow> stored_ok (snd (save_sample sql L ts n b details db))"
  by (simp add: save_sample_def stored_ok_def Let_def split: option.splits)

lemma stored_put: "stored_ok db \<Longrightarrow> stored_ok (snd (store_put sql L key v db))"
  by (simp add: store_put_def split: option.splits)

lemma stored_flows:
  assumes "stored_ok db" "orders_newest ord"
  shows "stored_ok (snd (record_flows sql L ord wall fs db))"
proof -
  have "stored_ok (db\<lparr>flow_table := evict ord (expire wall rows)\<rparr>)"
    if "insert_flows sql L 1 fs (flow_table db) = Inr (n, rows)" for n rows
  proof -
    have "unique_keys rows"
      using insert_flows_Inr [OF that] unique_fold_upsert assms(1) by (auto simp: stored_ok_def)
    then have "unique_keys (expire wall rows)" by (simp add: expire_def unique_filter)
    with evict_length [OF this assms(2)] show ?thesis
      by (simp add: stored_ok_def evict_def unique_filter Let_def)
  qed
  then show ?thesis
    using assms(1) by (simp add: record_flows_def split: option.splits sum.splits prod.splits)
qed

section \<open>The runtime\<close>

text \<open>The order of rows is what SQLite's \<open>ORDER BY\<close> makes of it.\<close>

definition within_limits :: "rt_env \<Rightarrow> runtime \<Rightarrow> bool" where
  "within_limits E s \<longleftrightarrow> (orders_newest (row_order E) \<longrightarrow>
     capped (aggs s) \<and> length (recent (aggs s)) \<le> max_recent \<and> stored_ok (database s))"

lemma limits_asking: "keeps E (within_limits E) (callP ask ev)"
  by (simp add: keeps_def callP_def within_limits_def Let_def)

lemma limits_storeP:
  assumes "\<And>h db. orders_newest (row_order E) \<Longrightarrow> stored_ok db \<Longrightarrow> stored_ok (snd (opn E h db))"
  shows "keeps E (within_limits E) (storeP opn ev)"
proof (rule keepsI)
  fix s r t
  assume run: "storeP opn ev E s = (r, t)" and s: "within_limits E s"
  have "aggs t = aggs s" "database t = snd (opn E (calls s) (database s))"
    using run by (auto simp: storeP_def split: prod.splits)
  then show "within_limits E t" using s assms by (simp add: within_limits_def)
qed

lemma limits_aggregate: "keeps E (within_limits E) (aggregate ps)"
proof (rule keepsI)
  fix s r t
  assume run: "aggregate ps E s = (r, t)" and s: "within_limits E s"
  show "within_limits E t"
  proof (cases "add_packets (json_fun (net_env E)) (capture_interface s) ps (aggs s)")
    case (Inl e)
    then have "t = s" using run by (simp add: aggregate_def askP_def getP_def liftP_def bindP_def)
    then show ?thesis using s by simp
  next
    case (Inr a)
    then have "t = s\<lparr>aggs := trim_recent a\<rparr>"
      using run by (simp add: aggregate_def askP_def getP_def liftP_def bindP_def modifyP_def)
    then show ?thesis
      using s capped_packets [OF Inr] by (auto simp: within_limits_def trim_recent_eq last_of_def)
  qed
qed

lemma limits_sample: "keeps E (within_limits E) (sample force)"
proof -
  have modify: "keeps E (within_limits E) (modifyP f)" if "\<And>s. aggs (f s) = aggs s \<or> aggs (f s) = reset_aggregates (aggs s)"
    "\<And>s. database (f s) = database s" for f
  proof (rule keeps_modifyP)
    fix s
    assume "within_limits E s"
    moreover have "length (recent (reset_aggregates a)) = length (recent a)" for a
      by (simp add: reset_aggregates_def)
    ultimately show "within_limits E (f s)" using that(1) [of s] that(2) [of s] by (auto simp: within_limits_def)
  qed
  show ?thesis
    unfolding sample_def publish_period_def store_period_def engine_drain_def engine_snapshot_def
      now_seconds_def steady_now_def store_sample_def store_flows_def Let_def
    by (intro keeps_rules limits_asking limits_storeP limits_aggregate modify)
      (simp_all add: stored_sample stored_flows)
qed

lemma limits_save: "keeps E (within_limits E) (save_setting key v)"
  unfolding save_setting_def by (rule limits_storeP) (rule stored_put)

lemma limits_stop_and_sample: "keeps E (within_limits E) stop_and_sample"
  unfolding stop_and_sample_def engine_stop_def by (intro keeps_rules limits_asking limits_sample)

lemma limits_start_capture: "keeps E (within_limits E) (start_capture name)"
proof -
  have modify: "keeps E (within_limits E) (modifyP (fresh_capture name))"
    "keeps E (within_limits E) (modifyP (\<lambda>s. s\<lparr>last_sample := t\<rparr>))" for t
    by (rule keeps_modifyP; simp add: within_limits_def fresh_capture_def, simp add: no_aggregates_def)
      (rule keeps_modifyP, simp add: within_limits_def)
  show ?thesis
    unfolding start_capture_def live_capture_def engine_start_def steady_now_def run_steps.simps
    by (intro keeps_rules limits_asking limits_stop_and_sample limits_save modify)
qed

lemma limits_stop_capture: "keeps E (within_limits E) stop_capture"
  unfolding stop_capture_def run_steps.simps
  by (intro keeps_rules limits_stop_and_sample limits_save keeps_modifyP) (simp add: within_limits_def)

lemma limits_on_net: "keeps E (within_limits E) (on_net m)"
  by (rule keepsI) (auto simp: on_net_def within_limits_def split: prod.splits)

interpretation limited: runtime_invariant E "within_limits E" for E
  by unfold_locales
    (simp_all add: limits_sample limits_start_capture limits_stop_capture limits_on_net, simp_all add: within_limits_def)

lemma start_within_limits: "keeps E (within_limits E) (start_runtime opts)"
proof -
  have "keeps E (within_limits E) (modifyP (\<lambda>s. s\<lparr>capture_failure := what e\<rparr>))" for e
    by (rule keeps_modifyP) (rule limited.failure)
  then show ?thesis
    unfolding start_runtime_def resume_capture_def load_setting_def
    by (intro keeps_rules limits_on_net limits_start_capture limited.asking) simp_all
qed

lemma appliance_within_limits:
  assumes "run_appliance H E opts = Inr (token, c0)" "control_reachable E token (app c0) c"
    and "case database_file H (opt_database opts) of None \<Rightarrow> True | Some db \<Rightarrow> stored_ok db"
  shows "within_limits E (app c)"
proof -
  obtain db where db: "start_runtime opts E (new_runtime (opt_allow_network opts) db (steady_reply E [])) = (Inr (), app c0)"
    "open_store (open_code H (opt_database opts)) (schema_code H (opt_database opts))
       (database_file H (opt_database opts)) = Inr db"
    using run_appliance_Inr [OF assms(1)] .
  have "stored_ok db"
    using db(2) assms(3)
    by (auto simp: open_store_def ebind_Inr_iff empty_store_def stored_ok_def unique_keys_def split: option.splits)
  then have "within_limits E (new_runtime (opt_allow_network opts) db (steady_reply E []))"
    by (simp add: within_limits_def new_runtime_def) (simp add: no_aggregates_def)
  from keepsD [OF start_within_limits db(1) this] limited.reachable [OF assms(2)] show ?thesis by blast
qed

text \<open>
  C18. Bounded resources. In every state that any interleaving of requests, samples and timer rounds can
  bring an appliance to, for every traffic: at most 64 requests are queued, at most 4096 connections,
  1024 sources, 4 protocols and 200 recent packets are held in memory, and at most 10000 connections are
  stored, each key once, if that was so of the database it was started on.
\<close>

theorem appliance_resources_bounded:
  assumes "run_appliance H E opts = Inr (token, c0)" "control_reachable E token (app c0) c"
    and "case database_file H (opt_database opts) of None \<Rightarrow> True
      | Some db \<Rightarrow> unique_keys (flow_table db) \<and> length (flow_table db) \<le> 10000"
    and "orders_newest (row_order E)"
  shows "length (tasks c) \<le> 64 \<and> length (flows (aggs (app c))) \<le> 4096 \<and>
    length (talkers (aggs (app c))) \<le> 1024 \<and> length (protocols (aggs (app c))) \<le> 4 \<and>
    length (recent (aggs (app c))) \<le> 200 \<and>
    unique_keys (flow_table (database (app c))) \<and> length (flow_table (database (app c))) \<le> 10000"
proof -
  have "case database_file H (opt_database opts) of None \<Rightarrow> True | Some db \<Rightarrow> stored_ok db"
    using assms(3) by (simp add: stored_ok_def max_stored_flows_def split: option.splits)
  from appliance_within_limits [OF assms(1,2) this] assms(4)
  have "capped (aggs (app c))" "length (recent (aggs (app c))) \<le> max_recent" "stored_ok (database (app c))"
    by (simp_all add: within_limits_def)
  moreover have "length (tasks c) \<le> max_tasks"
    using reachable_queue_inv [OF assms(2)] by (simp add: queue_inv_def)
  ultimately show ?thesis
    using capped_protocols
    by (simp add: capped_def stored_ok_def max_flows_def max_talkers_def max_recent_def max_stored_flows_def max_tasks_def)
qed

theorem appliance_resources_bounded_witness:
  "\<exists>c0. run_appliance demo_host calm_app (default_options\<lparr>opt_token_file := ''t'', opt_allow_network := True\<rparr>) =
      Inr (demo_token, c0) \<and> control_reachable calm_app demo_token (app c0) c0 \<and>
     length (flow_table (database (app c0))) \<le> 10000"
proof -
  obtain t where run: "run_appliance demo_host calm_app (default_options\<lparr>opt_token_file := ''t'', opt_allow_network := True\<rparr>) =
      Inr (demo_token, start_control t)"
    using demo_appliance .
  have "app (start_control t) = t" by (simp add: start_control_def)
  then have reach: "control_reachable calm_app demo_token (app (start_control t)) (start_control t)"
    by (simp add: reach_start)
  have "orders_newest (row_order calm_app)" by (simp add: calm_app_def by_last_seen_orders)
  from appliance_resources_bounded [OF run reach _ this] show ?thesis
    using run reach by (intro exI [of _ "start_control t"]) (simp add: demo_host_def)
qed

end
