(* ===== verification/Resume.thy ===== *)
theory Resume
  imports Appliance
begin

text \<open>
  The choice of a capture port across processes: an interpretation of \<open>runtime_invariant\<close> for the agreement
  of memory and database, and what the next process makes of it.
\<close>

section \<open>What decides the capture port\<close>

text \<open>Only the two capture operations decide whether an engine runs, and on which port.\<close>

definition same_choice :: "runtime \<Rightarrow> runtime \<Rightarrow> bool" where
  "same_choice s t \<longleftrightarrow> has_engine t = has_engine s \<and> capture_interface t = capture_interface s \<and>
     settings (database t) = settings (database s)"

interpretation choice: program_frame same_choice
  by unfold_locales (simp_all add: same_choice_def)

lemma frames_choice:
  "frames same_choice (callP ask ev)" "frames same_choice (no_error r)" "frames same_choice (on_net m)"
  "(\<And>F h db. settings (snd (opn F h db)) = settings db) \<Longrightarrow> frames same_choice (storeP opn ev')"
proof -
  assume settings: "\<And>F h db. settings (snd (opn F h db)) = settings db"
  show "frames same_choice (storeP opn ev')"
    unfolding frames_def
  proof (intro allI)
    fix E s
    show "same_choice s (snd (storeP opn ev' E s))"
      using settings [of E "calls s" "database s"]
      by (auto simp: storeP_def same_choice_def split: prod.splits)
  qed
qed (simp_all add: frames_def callP_def no_error_def throwP_def returnP_def on_net_def same_choice_def Let_def
      split: prod.splits option.splits)

lemma store_keeps_settings:
  "settings (snd (save_sample sql L ts n b details db)) = settings db"
  "settings (snd (record_flows sql L ord wall fs db)) = settings db"
  by (simp_all add: save_sample_def record_flows_def Let_def split: option.splits sum.splits prod.splits)

lemma sample_choice: "frames same_choice (sample force)"
  unfolding sample_def aggregate_def publish_period_def store_period_def engine_drain_def engine_snapshot_def
    now_seconds_def steady_now_def store_sample_def store_flows_def Let_def
  by (intro choice.rules frames_choice frames_modifyP) (simp_all add: same_choice_def store_keeps_settings)

lemma stop_and_sample_choice: "frames same_choice stop_and_sample"
  unfolding stop_and_sample_def engine_stop_def by (intro choice.rules frames_choice sample_choice)

text \<open>The database and the memory agree on a running capture.\<close>

definition chosen :: "rt_env \<Rightarrow> string \<Rightarrow> runtime \<Rightarrow> bool" where
  "chosen E name s \<longleftrightarrow> has_engine s \<and> capture_interface s = name \<and> capture_name name \<and>
     map_of (settings (database s)) ''capture_interface'' = Some (json_text (json_of E) (JString name))"

definition remembers :: "rt_env \<Rightarrow> runtime \<Rightarrow> bool" where
  "remembers E s \<longleftrightarrow> (has_engine s \<longrightarrow> chosen E (capture_interface s) s)"

lemma remembers_same: "same_choice s t \<Longrightarrow> remembers E s \<Longrightarrow> remembers E t"
  by (simp add: same_choice_def remembers_def chosen_def)

text \<open>Everything a start of the capture does before it is written to the database.\<close>

definition prepare_capture :: "string \<Rightarrow> unit rt_prog" where
  "prepare_capture name = run_steps
     [throw_if (\<not> capture_name name) (Invalid_argument ''Invalid capture interface''),
      live_capture name, stop_and_sample, engine_start]"

lemma prepare_choice: "frames same_choice (prepare_capture name)"
  unfolding prepare_capture_def live_capture_def engine_start_def run_steps.simps
  by (intro choice.rules frames_choice stop_and_sample_choice)

lemma prepare_name: "prepare_capture name E s = (Inr x, t) \<Longrightarrow> capture_name name"
  by (auto simp: prepare_capture_def thenP_Inr)

lemma save_setting_run:
  "save_setting key v E s = (case statement_reply E (calls s) 0 of
     Some m \<Rightarrow> (Inl (Runtime_error m), s\<lparr>calls := calls s @ [Save_setting key v (Inl (Runtime_error m))]\<rparr>)
   | None \<Rightarrow> (Inr (), s\<lparr>database := (database s)\<lparr>settings :=
         upsert key (\<lambda>_. json_text (json_of E) v) (json_text (json_of E) v) (settings (database s))\<rparr>,
       calls := calls s @ [Save_setting key v (Inr ())]\<rparr>))"
  by (simp add: save_setting_def storeP_def store_put_def split: option.splits)

lemma start_capture_split:
  "start_capture name E s = thenP (prepare_capture name) (thenP (save_setting ''capture_interface'' (JString name))
     (\<lambda>E t. (Inr (), (fresh_capture name t)\<lparr>last_sample := steady_reply E (calls t),
       calls := calls t @ [Steady_clock (steady_reply E (calls t))]\<rparr>))) E s"
  by (simp add: start_capture_def prepare_capture_def thenP_def bindP_def returnP_def modifyP_def steady_now_def
      callP_def fresh_capture_def Let_def split: prod.splits sum.splits)

lemma start_capture_outcome:
  assumes "start_capture name E s = (r, t)"
  obtains (started) "r = Inr ()" "chosen E name t" "capture_failure t = []"
    | (failed) e where "r = Inl e" "same_choice s t"
proof -
  obtain r1 s1 where p: "prepare_capture name E s = (r1, s1)" by (cases "prepare_capture name E s")
  have same: "same_choice s s1" using framesD [OF prepare_choice p] .
  show ?thesis
  proof (cases r1)
    case (Inl e)
    then have "r = Inl e" "t = s1" using assms p by (simp_all add: start_capture_split run_first)
    then show ?thesis using same that(2) by simp
  next
    case (Inr x)
    then have rest: "thenP (save_setting ''capture_interface'' (JString name))
       (\<lambda>E t. (Inr (), (fresh_capture name t)\<lparr>last_sample := steady_reply E (calls t),
         calls := calls t @ [Steady_clock (steady_reply E (calls t))]\<rparr>)) E s1 = (r, t)"
      using assms p by (simp add: start_capture_split run_first)
    show ?thesis
    proof (cases "statement_reply E (calls s1) 0")
      case None
      then show ?thesis
        using rest that(1) prepare_name [OF p [unfolded Inr]]
        by (auto simp: thenP_def bindP_def save_setting_run chosen_def fresh_capture_def map_of_upsert
            split: option.splits)
    next
      case (Some m)
      then show ?thesis
        using rest that(2) same by (auto simp: thenP_def bindP_def save_setting_run same_choice_def)
    qed
  qed
qed

lemma start_capture_remembers: "keeps E (remembers E) (start_capture name)"
proof (rule keepsI)
  fix s r t
  assume run: "start_capture name E s = (r, t)" and "remembers E s"
  from run show "remembers E t"
    by (cases rule: start_capture_outcome)
      (use \<open>remembers E s\<close> remembers_same in \<open>auto simp: remembers_def chosen_def\<close>)
qed

lemma stop_capture_remembers: "keeps E (remembers E) stop_capture"
proof -
  have stop: "stop_capture = thenP stop_and_sample (thenP (modifyP (\<lambda>s. s\<lparr>has_engine := False, capture_interface := []\<rparr>))
      (save_setting ''capture_interface'' (JString [])))"
    by (simp add: stop_capture_def)
  have "keeps E (remembers E) (thenP (modifyP (\<lambda>s. s\<lparr>has_engine := False, capture_interface := []\<rparr>))
      (save_setting ''capture_interface'' (JString [])))"
    by (rule keepsI)
      (auto simp: thenP_def bindP_def modifyP_def save_setting_run remembers_def split: option.splits)
  with keeps_frames [OF stop_and_sample_choice remembers_same] show ?thesis
    unfolding stop by (rule keeps_then)
qed

interpretation remembering: runtime_invariant E "remembers E" for E
  by unfold_locales
    (simp_all add: start_capture_remembers stop_capture_remembers keeps_frames [OF sample_choice remembers_same]
      keeps_frames [OF frames_choice(3) remembers_same], simp_all add: remembers_def chosen_def)

lemma start_remembers: "keeps E (remembers E) (start_runtime opts)"
proof -
  have net: "keeps E (remembers E) (on_net start_controller)"
    by (rule keeps_frames [OF frames_choice(3) remembers_same])
  have "keeps E (remembers E) (modifyP (\<lambda>s. s\<lparr>capture_failure := what e\<rparr>))" for e
    by (rule keeps_modifyP) (rule remembering.failure)
  then show ?thesis
    unfolding start_runtime_def resume_capture_def load_setting_def
    by (intro keeps_rules net start_capture_remembers remembering.asking) simp_all
qed

lemma appliance_remembers:
  assumes "run_appliance H E opts = Inr (token, c0)" "control_reachable E token (app c0) c" "has_engine (app c)"
  shows "chosen E (capture_interface (app c)) (app c)"
proof -
  obtain db where "start_runtime opts E (new_runtime (opt_allow_network opts) db (steady_reply E [])) = (Inr (), app c0)"
    using run_appliance_Inr [OF assms(1)] .
  then have "remembers E (app c0)"
    by (rule keepsD [OF start_remembers]) (simp add: remembers_def new_runtime_def)
  then have "remembers E (app c)" using remembering.reachable [OF assms(2)] by blast
  with assms(3) show ?thesis by (simp add: remembers_def)
qed

text \<open>A start that finds a port in the database, and none on the command line.\<close>

definition resumes :: "rt_env \<Rightarrow> string \<Rightarrow> runtime \<Rightarrow> bool" where
  "resumes E name u \<longleftrightarrow>
     (\<exists>s t. start_capture name E s = (Inr (), t) \<and> u = t \<and> chosen E name u \<and> capture_failure u = []) \<or>
     (\<exists>s t e. start_capture name E s = (Inl e, t) \<and> u = t\<lparr>capture_failure := what e\<rparr> \<and> \<not> has_engine u)"

lemma start_resumes:
  assumes "start_runtime opts E s = (Inr (), u)" "opt_capture opts = []" "\<not> has_engine s"
    and "map_of (settings (database s)) ''capture_interface'' = Some text"
    and "parse_json (json_of E) (c_str text) = Inr (JString name)" "name \<noteq> []"
  shows "resumes E name u"
proof -
  obtain s1 where s1: "on_net start_controller E s = (Inr (), s1)"
    "bindP (load_setting ''capture_interface'') resume_capture E s1 = (Inr (), u)"
    using assms(1,2) by (auto simp: start_runtime_def thenP_Inr)
  have "same_choice s s1" using framesD [OF frames_choice(3) s1(1)] .
  then have kept: "\<not> has_engine s1" "map_of (settings (database s1)) ''capture_interface'' = Some text"
    using assms(3,4) by (simp_all add: same_choice_def)
  obtain x s2 where s2: "load_setting ''capture_interface'' E s1 = (Inr x, s2)" "resume_capture x E s2 = (Inr (), u)"
    using s1(2) by (auto simp: bindP_Inr)
  have x: "x = JString name" "\<not> has_engine s2"
    using s2(1) kept assms(5)
    by (auto simp: load_setting_def storeP_def store_lookup_def split: option.splits)
  obtain r t where run: "start_capture name E s2 = (r, t)" by (cases "start_capture name E s2")
  with s2(2) x(1) assms(6) have caught: "catchP (start_capture name) (\<lambda>e. modifyP (\<lambda>s. s\<lparr>capture_failure := what e\<rparr>)) E s2 = (Inr (), u)"
    by (simp add: resume_capture_def whenP_def)
  from run show ?thesis
  proof (cases rule: start_capture_outcome)
    case started
    then have "u = t" using caught run by (simp add: catchP_def)
    then show ?thesis using started run unfolding resumes_def by blast
  next
    case (failed e)
    then have "e \<noteq> Foreign_exception" using run std_onlyD [OF std_start_capture] by blast
    then have "u = t\<lparr>capture_failure := what e\<rparr>"
      using caught run failed(1) by (simp add: catchP_def modifyP_def is_std_exception_def)
    moreover have "\<not> has_engine t" using failed(2) x(2) by (simp add: same_choice_def)
    ultimately show ?thesis using failed(1) run unfolding resumes_def by fastforce
  qed
qed

text \<open>
  C17. The choice of a capture port survives a restart. When a capture runs in any state a process reaches,
  the database holds its port; and a process started later on that database, with no port on its
  command line, starts the capture of that port again. If that fails, it runs without a capture and
  reports the error. The JSON library is only asked to read back the text it has written.
\<close>

theorem capture_choice_survives_restart:
  assumes "run_appliance H E opts = Inr (token, c0)" "control_reachable E token (app c0) c" "has_engine (app c)"
    and "database_file H' (opt_database opts') = Some db"
    and "map_of (settings db) ''capture_interface'' = map_of (settings (database (app c))) ''capture_interface''"
    and "parse_json (json_of E') (c_str (json_text (json_of E) (JString (capture_interface (app c))))) =
      Inr (JString (capture_interface (app c)))"
    and "opt_capture opts' = []" "run_appliance H' E' opts' = Inr (token', d)"
  shows "chosen E (capture_interface (app c)) (app c) \<and> resumes E' (capture_interface (app c)) (app d)"
proof
  show c: "chosen E (capture_interface (app c)) (app c)" by (rule appliance_remembers [OF assms(1-3)])
  obtain db' where db': "start_runtime opts' E' (new_runtime (opt_allow_network opts') db' (steady_reply E' [])) = (Inr (), app d)"
    "open_store (open_code H' (opt_database opts')) (schema_code H' (opt_database opts'))
       (database_file H' (opt_database opts')) = Inr db'"
    using run_appliance_Inr [OF assms(8)] .
  have db: "db' = db" using db'(2) assms(4) by (auto simp: open_store_def ebind_Inr_iff)
  show "resumes E' (capture_interface (app c)) (app d)"
    by (rule start_resumes [OF db'(1) assms(7) _ _ assms(6)])
      (use c assms(5) db in \<open>auto simp: chosen_def new_runtime_def capture_name_def\<close>)
qed

section \<open>Witness\<close>

text \<open>A process with an empty journal, and a JSON library that reads every text as one name.\<close>

definition restart_app :: rt_env where
  "restart_app = calm_app\<lparr>net_env := calm\<lparr>get_reply := (\<lambda>_ _. Inr None),
     json_fun := (json_fun calm)\<lparr>read_json := (\<lambda>_. Inr (JString ''eth0''))\<rparr>\<rparr>\<rparr>"

lemma restart_simps [simp]:
  "statement_reply restart_app h n = None" "open_capture_reply restart_app h name = None"
  "start_engine_reply restart_app h = None" "net_env restart_app = calm\<lparr>get_reply := (\<lambda>_ _. Inr None),
     json_fun := (json_fun calm)\<lparr>read_json := (\<lambda>_. Inr (JString ''eth0''))\<rparr>\<rparr>"
  "parse_json (json_of restart_app) text = Inr (JString ''eth0'')"
  by (simp_all add: restart_app_def calm_app_def json_of_def parse_json_def)

lemma restart_controller: "\<exists>n. start_controller (net_env restart_app) (new_controller False) = (Inr (), n)"
proof -
  let ?E = "net_env restart_app"
  obtain s where s: "store_get ''network'' ?E (new_controller False) = (Inr JNull, s)" "\<not> enabled s"
    by (simp add: store_get_def bindP_def emit_def returnP_def new_controller_def Let_def)
  let ?s = "s\<lparr>net_state := jset JNull ''status'' (JString ''inactive'')\<rparr>"
  have "start_controller ?E (new_controller False) = recover ?E ?s"
    using s by (simp add: start_controller_eq run_first load_state_def thenP_def bindP_def getP_def whenP_def
        returnP_def resume_eq del: restart_simps)
  also have "\<dots> = (Inr (), peek ?s)"
    by (subst recover_eq) (use s(2) in \<open>simp_all add: indexable_def\<close>)
  finally show ?thesis by blast
qed

lemma restart_capture:
  assumes "\<not> has_engine s"
  shows "\<exists>t. start_capture ''eth0'' restart_app s = (Inr (), t)"
proof -
  have "capture_name ''eth0''" by (simp add: capture_name_def capture_char_def is_lower_def is_digit_def is_upper_def)
  then obtain s1 where "prepare_capture ''eth0'' restart_app s = (Inr (), s1)"
    using assms
    by (simp add: prepare_capture_def throw_if_def live_capture_def stop_and_sample_def engine_start_def thenP_def
        bindP_assoc run_callP no_error_def)
      (simp add: bindP_def getP_def whenP_def returnP_def callP_def Let_def)
  then show ?thesis by (simp add: start_capture_split run_first save_setting_run)
qed

lemma restart_runtime:
  assumes "opt_capture opts \<in> {[], ''eth0''}"
  shows "\<exists>t. start_runtime opts restart_app (new_runtime False db x) = (Inr (), t)"
proof -
  let ?s = "new_runtime False db x"
  obtain n where n: "start_controller (net_env restart_app) (net ?s) = (Inr (), n)"
    using restart_controller by (auto simp: new_runtime_def)
  let ?s1 = "?s\<lparr>net := n\<rparr>"
  from n have s1: "on_net start_controller restart_app ?s = (Inr (), ?s1)" by (rule run_on_net)
  obtain v where v: "load_setting ''capture_interface'' restart_app ?s1 =
      (Inr v, ?s1\<lparr>calls := calls ?s1 @ [Load_setting ''capture_interface'' (Inr v)]\<rparr>)" "v = JNull \<or> v = JString ''eth0''"
    by (cases "map_of (settings (database ?s1)) ''capture_interface''")
      (simp_all add: load_setting_def storeP_def store_lookup_def)
  let ?s2 = "?s1\<lparr>calls := calls ?s1 @ [Load_setting ''capture_interface'' (Inr v)]\<rparr>"
  have "\<not> has_engine ?s2" by (simp add: new_runtime_def)
  from restart_capture [OF this] obtain t where t: "start_capture ''eth0'' restart_app ?s2 = (Inr (), t)" ..
  show ?thesis
    using assms s1 v t
    by (auto simp: start_runtime_def run_first resume_capture_def whenP_def returnP_def catchP_def)
qed

lemma restart_appliance:
  assumes "opt_capture opts \<in> {[], ''eth0''}" "\<not> opt_allow_network opts"
  obtains t where "run_appliance (demo_host\<lparr>database_file := (\<lambda>_. found)\<rparr>) restart_app opts = Inr (demo_token, start_control t)"
    "start_runtime opts restart_app (new_runtime False (case found of None \<Rightarrow> empty_store | Some db \<Rightarrow> db)
      (steady_reply restart_app [])) = (Inr (), t)"
proof -
  let ?db = "case found of None \<Rightarrow> empty_store | Some db \<Rightarrow> db"
  obtain t where t: "start_runtime opts restart_app (new_runtime False ?db (steady_reply restart_app [])) = (Inr (), t)"
    using restart_runtime [OF assms(1)] by blast
  have "check_start (demo_host\<lparr>database_file := (\<lambda>_. found)\<rparr>) opts = Inr demo_token"
    using demo_check [of opts] by (simp add: check_start_def)
  then have "run_appliance (demo_host\<lparr>database_file := (\<lambda>_. found)\<rparr>) restart_app opts = Inr (demo_token, start_control t)"
    using t assms(2) by (simp add: run_appliance_def open_store_def check_code_def) (simp add: demo_host_def check_code_def)
  with t show ?thesis using that by blast
qed

theorem capture_choice_survives_restart_witness:
  "\<exists>H c0 H' d. run_appliance H restart_app (default_options\<lparr>opt_capture := ''eth0''\<rparr>) = Inr (demo_token, c0) \<and>
     has_engine (app c0) \<and> capture_interface (app c0) = ''eth0'' \<and>
     run_appliance H' restart_app default_options = Inr (demo_token, d) \<and> resumes restart_app ''eth0'' (app d)"
proof -
  let ?o = "default_options\<lparr>opt_capture := ''eth0''\<rparr>" and ?H = "\<lambda>found. demo_host\<lparr>database_file := (\<lambda>_. found)\<rparr>"
  obtain t where t: "run_appliance (?H None) restart_app ?o = Inr (demo_token, start_control t)"
    "start_runtime ?o restart_app (new_runtime False empty_store (steady_reply restart_app [])) = (Inr (), t)"
    using restart_appliance [of ?o None] by (auto simp: default_options_def)
  obtain s where "start_capture ''eth0'' restart_app s = (Inr (), t)"
    using t(2) by (auto simp: start_runtime_def thenP_Inr bindP_Inr)
  then have on: "has_engine t" "capture_interface t = ''eth0''"
    by (auto elim: start_capture_outcome simp: chosen_def)
  have app: "app (start_control t) = t" by (simp add: start_control_def)
  obtain u where u: "run_appliance (?H (Some (database t))) restart_app default_options = Inr (demo_token, start_control u)"
    using restart_appliance [of default_options "Some (database t)"] by (auto simp: default_options_def)
  have "resumes restart_app (capture_interface (app (start_control t))) (app (start_control u))"
    by (rule conjunct2 [OF capture_choice_survives_restart [OF t(1) _ _ _ _ _ _ u, of "start_control t" "database t"]])
      (simp_all add: app on reach_start default_options_def)
  then show ?thesis
    using t(1) u on app
    by (intro exI [of _ "?H None"] exI [of _ "start_control t"] exI [of _ "?H (Some (database t))"]
        exI [of _ "start_control u"]) simp
qed

end
