(* ===== verification/Spec2Isabelle.thy ===== *)
theory Spec2Isabelle
  imports Json_Config Dissect Engine Witnesses Pcap_Source Process Live_Socket Resource_Limits Resume
begin

text \<open>
  Verification of the appliance daemon \<open>magicboxd\<close> (WireLab Experiments).

  The program captures packets on one Ethernet port and shows what it saw, and it can configure a router
  between two dedicated ports. It is one process with three kinds of threads. A capture thread pulls
  packets from a source into a bounded queue (\<open>src/engine.cpp\<close>, \<open>src/capture.cpp\<close>). One application worker
  runs everything that touches the network, the database and the metrics (\<open>src/server.cpp\<close>,
  \<open>src/network.cpp\<close>, \<open>src/store.cpp\<close>). The event loops of the HTTP library authenticate requests and put
  them into a bounded queue for the worker (\<open>src/server.cpp\<close>).

  Theories, in the order of their dependencies, with the code they model:

  \<^item> Prelude: integer types, exceptions as values of \<open>exn + 'a\<close>, strings, decimal text, IPv4 addresses.
  \<^item> Json_Value: JSON values and the operations of the JSON library that the sources call.
    String_Map: the interface of a \<open>std::map\<close> with string keys, with its capped extension; \<open>std::sort\<close>.
  \<^item> Config (\<open>src/config.cpp\<close>, \<open>include/magicbox/config.hpp\<close>): the validation of a network
    configuration, equal to a specification with address blocks as sets.
  \<^item> Json_Config (\<open>src/json.cpp\<close>): conversion of configurations and packets from and to JSON.
  \<^item> Packet, Dissect (\<open>dissect\<close> of \<open>src/capture.cpp\<close>): packet dissection with every read of the buffer
    checked; Pcap_Source: the live capture source of the same file.
  \<^item> Engine (\<open>src/engine.cpp\<close>, \<open>include/magicbox/engine.hpp\<close>): the capture engine, both threads
    interleaved at their critical sections.
  \<^item> Sampling, Metrics (\<open>ApplianceRuntime::sample\<close> of \<open>src/server.cpp\<close>): aggregation of the packets of a
    period, and the metrics published from it.
  \<^item> Os_Env: the operating system as the controller sees it; programs as functions of an environment and
    a state, with the trace of their calls. Netlink, Nft, Controller (\<open>src/network.cpp\<close>): the kernel
    messages, the nftables scripts, and the network controller with all its operations.
  \<^item> Controller_Props, Apply_Props, Transactions, Lifecycle, Outcomes, Recovery, Rollback:
    properties of the controller, from the shapes of the traces of \<open>restore\<close> and \<open>apply\<close>. Success and
    Liveness: when they return normally, from the answers of the run. Answers: every event carries the
    answer of the environment, so that concrete environments, in Demonstration and Witnesses, can be checked.
  \<^item> Journal, Crash: the journal over the whole life of a controller, and what a crash at any event leaves
    in the database for the next process.
  \<^item> Process (\<open>src/process.cpp\<close>): running a command, with the deadline and the output limit.
  \<^item> Store (\<open>src/store.cpp\<close>): the database file, its tables and the effect of each SQL statement.
  \<^item> Runtime, Gateway (\<open>src/server.cpp\<close>): the application's state, its endpoints, capture control, the
    gateway, the control queue and the worker. Gateway_Props, Worker, Frames and Shutdown hold their
    properties. Live_Socket: the WebSocket of the same file.
  \<^item> Startup (\<open>src/main.cpp\<close>, \<open>run_appliance\<close> and the constructor of \<open>ApplianceRuntime\<close>): the command
    line, the texts and exit codes of \<open>main\<close>, and the way to a running appliance.
  \<^item> Dataflow, Appliance, Resource_Limits, Resume: the components together. Packets from the capture queue to the
    database; what holds of every state of the running process; its bounds; the next process.

  How state and operations correspond. A class is a record with the fields of the class, and each of its
  methods is one definition with the method's name. In Os_Env and Runtime a method is a program: a
  function from an environment, which answers the calls the method makes, and the record, to a result
  and the new record. An exception is the left case of the result, so a program's early exits and
  handlers are its branches. Calls are appended to a trace with their answers, and an answer may depend
  on the whole trace, so an environment is an arbitrary deterministic system and the theorems quantify
  over it. The runtime's record contains the controller's record and the tables of theory Store, and its
  programs run theirs. Concurrency is a step relation: \<open>engine_step\<close>, \<open>control_step\<close> and \<open>live_step\<close> let the threads
  take their atomic steps in any order, and the theorems hold for every reachable state. Queries of the
  kernel and libpcap, and whether an SQL statement succeeds, are answers of the environment.

  What the groups of lemmas show. Validation: acceptance is exactly a routed topology, and the texts of an
  accepted configuration can be put into scripts and messages as they are. Conversion: configurations
  survive the round trip, and nothing but the documented fields is accepted. Dissection: memory safety on
  every input, consistent classification, and the round trip of an encoded frame. Engine: a bounded queue
  in arrival order with exact accounting under every interleaving, and termination. Sampling, Metrics
  and Store: what is counted, published and stored is exact, within bounds, from the packet to the
  database row. Controller: the journal is written before the system is touched, the guard covers
  installation and removal, a failed or expired configuration is rolled back, a rollback that returns has put
  every recorded setting back, \<open>apply\<close> and \<open>restore\<close> fail only when an answer of the system stood in the way, and
  the journal follows the documented state machine; through its whole life every change is made under a
  journal entry, and after a crash the next process begins with the rollback. Gateway, queue and worker: only the token's holder
  gets in, every accepted request is answered once, in order and in a bounded number of steps, reading
  endpoints change nothing. The process: it obeys its command line in every reachable state, ends in
  order within four steps of the worker, stays within its limits, and finds its capture port again.

  Interfaces. \<open>inet_library\<close> states what the program needs of \<open>inet_pton\<close>, and a reader of dotted quads
  interprets it; \<open>bounded_fifo\<close> is the queue's contract, interpreted by the engine's own operations;
  \<open>string_map\<close> and its extension \<open>capped_map\<close> are interpreted by the ordered association lists, at the
  caps of the source and connection maps; \<open>program_frame\<close> is interpreted by the relations that say which
  part of the state a program leaves alone (the controller, the permission, the capture port, everything);
  \<open>favoured\<close> asks that a predicate on events speaks of favourable answers only, and gives the success of the
  controller's calls, interpreted for the inspections, the installation and the rollback;
  \<open>runtime_invariant\<close> asks what every operation of the runtime keeps and gives what every reachable state of
  the process has, interpreted for the controller's life, the remembered capture port and the limits.

  Bounds. Sampling proves exactness for at most $2^{30}$ packets between two publications, which keeps
  every counter within 64 bits; a publication follows every sample that is a second after the last.
  The loops of Process are \<open>partial_function (option)\<close>, with their return proved from the clock
  passing the deadline. No definition uses fuel.

  Not modelled. Third-party code: the JSON reader and writer, \<open>inet_pton\<close> and \<open>inet_ntop\<close>, SQLite's engine,
  libpcap, the HTTP library and its callbacks' transport, the kernel. They are parameters or answers of
  the environment; the hypotheses about them are named where they are used. Doubles are rationals, so
  rounding is not covered. The controller's row \<open>network\<close> and the runtime's row \<open>capture_interface\<close> are kept
  apart: the runtime's tables hold the latter, and theory Crash replays the former from the controller's
  trace with the same \<open>Store\<close> operations. The response headers and the log level of the HTTP library are left
  out, as are the web dashboard, the installation files and the tests.
\<close>

end
